(* ===== verification/Loft_Prelude.thy ===== *)
theory Loft_Prelude
  imports Main "HOL-Library.Word" "HOL-Library.AList"
begin

text \<open>
  What every component of the development shares: the machine integer types and byte strings of
  the Rust sources, their big-endian conversions, the time type, the model of
  \<open>std::collections::HashMap\<close> and its contract as a locale, and the collections of simplification
  facts the component theories fill.

  \<^item> \<open>u8\<close>, \<open>u16\<close>, \<open>u32\<close> are words, so the shifts, masks and casts of the sources wrap as they do
    there. \<open>usize\<close> and \<open>u64\<close> quantities (lengths, offsets, times) are \<open>nat\<close>; where a bound
    matters it is a lemma.
  \<^item> \<open>Instant\<close> and \<open>Duration\<close> are \<open>nat\<close> counts of nanoseconds. \<open>Instant::duration_since\<close> and
    \<open>saturating_duration_since\<close> saturate at zero, which is subtraction on \<open>nat\<close>.
  \<^item> A \<open>Result<T, E>\<close> is the sum \<open>E + T\<close> with \<open>Inl\<close> for \<open>Err\<close> and \<open>Inr\<close> for \<open>Ok\<close>.
\<close>

unbundle bit_operations_syntax

type_synonym u8 = "8 word"
type_synonym u16 = "16 word"
type_synonym u32 = "32 word"
type_synonym bytes = "u8 list"
type_synonym instant = nat
type_synonym duration = nat

named_theorems loft_defs \<open>definitions of the constants and small operations\<close>
named_theorems wire_simps \<open>byte-level facts the codecs share\<close>
named_theorems table_simps \<open>lookup, size and key facts of hash tables\<close>

section \<open>Time\<close>

definition from_secs :: "nat \<Rightarrow> duration" where
  "from_secs s = s * 1000000000"

definition from_millis :: "nat \<Rightarrow> duration" where
  "from_millis ms = ms * 1000000"

section \<open>Byte strings\<close>

text \<open>The bytes of an ASCII literal.\<close>

definition ascii :: "string \<Rightarrow> bytes" where
  "ascii s = map of_char s"

lemma ascii_Nil [simp]: "ascii [] = []"
  by (simp add: ascii_def)

lemma ascii_Cons [simp]: "ascii (c # s) = of_char c # ascii s"
  by (simp add: ascii_def)

text \<open>Hexadecimal digits, as \<open>{:x}\<close> shows them.\<close>

fun hex_digits :: "nat \<Rightarrow> bytes" where
  "hex_digits n =
     (let d = of_nat (if n mod 16 < 10 then 48 + n mod 16 else 87 + n mod 16) in
      if n < 16 then [d] else hex_digits (n div 16) @ [d])"

declare hex_digits.simps [simp del]

section \<open>Words as numbers\<close>

lemma unat_lt_u8: "unat (x :: u8) < 256"
  using unsigned_less [of x] by simp

lemma unat_lt_u16: "unat (x :: u16) < 65536"
  using unsigned_less [of x] by simp

lemma unat_lt_u32: "unat (x :: u32) < 4294967296"
  using unsigned_less [of x] by simp

lemma unat_ucast_u8_u32 [simp]: "unat (ucast (x :: u8) :: u32) = unat x"
  using unat_lt_u8 [of x] by (simp add: unsigned_ucast_eq take_bit_eq_mod)

lemma unat_ucast_u16_u32 [simp]: "unat (ucast (x :: u16) :: u32) = unat x"
  using unat_lt_u16 [of x] by (simp add: unsigned_ucast_eq take_bit_eq_mod)

lemma unat_ucast_u32_u8: "unat (ucast (x :: u32) :: u8) = unat x mod 256"
  by (simp add: unsigned_ucast_eq take_bit_eq_mod)

lemma unat_ucast_u32_u16: "unat (ucast (x :: u32) :: u16) = unat x mod 65536"
  by (simp add: unsigned_ucast_eq take_bit_eq_mod)

section \<open>Big-endian conversions\<close>

definition u16_to_be_bytes :: "u16 \<Rightarrow> bytes" where
  "u16_to_be_bytes x = [ucast (drop_bit 8 x), ucast x]"

definition u16_from_be_bytes :: "u8 \<Rightarrow> u8 \<Rightarrow> u16" where
  "u16_from_be_bytes a b = push_bit 8 (ucast a) OR ucast b"

definition u32_to_be_bytes :: "u32 \<Rightarrow> bytes" where
  "u32_to_be_bytes x =
     [ucast (drop_bit 24 x), ucast (drop_bit 16 x), ucast (drop_bit 8 x), ucast x]"

definition u32_from_be_bytes :: "u8 \<Rightarrow> u8 \<Rightarrow> u8 \<Rightarrow> u8 \<Rightarrow> u32" where
  "u32_from_be_bytes a b c d =
     push_bit 24 (ucast a) OR push_bit 16 (ucast b) OR push_bit 8 (ucast c) OR ucast d"

lemma u16_be_roundtrip [wire_simps]:
  "u16_from_be_bytes (ucast (drop_bit 8 x)) (ucast x) = x"
  unfolding u16_from_be_bytes_def
  by (rule bit_word_eqI) (auto simp: bit_simps)

lemma u32_be_roundtrip [wire_simps]:
  "u32_from_be_bytes (ucast (drop_bit 24 x)) (ucast (drop_bit 16 x)) (ucast (drop_bit 8 x)) (ucast x)
   = x"
  unfolding u32_from_be_bytes_def
proof (rule bit_word_eqI)
  fix n assume "n < LENGTH(32)"
  consider "n < 8" | "8 \<le> n" "n < 16" | "16 \<le> n" "n < 24" | "24 \<le> n" by linarith
  then show "bit (push_bit 24 (ucast (ucast (drop_bit 24 x) :: u8))
      OR push_bit 16 (ucast (ucast (drop_bit 16 x) :: u8))
      OR push_bit 8 (ucast (ucast (drop_bit 8 x) :: u8)) OR ucast (ucast x :: u8) :: u32) n
    = bit x n"
    by cases (use \<open>n < LENGTH(32)\<close> in \<open>auto simp: bit_simps\<close>)
qed

lemma length_u16_to_be_bytes [simp]: "length (u16_to_be_bytes x) = 2"
  by (simp add: u16_to_be_bytes_def)

lemma length_u32_to_be_bytes [simp]: "length (u32_to_be_bytes x) = 4"
  by (simp add: u32_to_be_bytes_def)

text \<open>A byte assembled from two nibbles, and its halves.\<close>

lemma nibbles_split [wire_simps]:
  fixes a b :: u8
  assumes "a < 16" and "b < 16"
  shows "drop_bit 4 (push_bit 4 a OR b) = a" and "(push_bit 4 a OR b) AND 15 = b"
proof -
  have lt: "\<not> bit x n" if "x < 16" "4 \<le> n" for x :: u8 and n
  proof -
    have "x AND mask 4 = x"
      using that(1) by (intro less_mask_eq) simp
    then have "bit x n = bit (x AND mask 4) n" by simp
    then show ?thesis using that(2) by (simp add: bit_simps)
  qed
  have m15: "(15 :: u8) = mask 4" by (simp add: mask_eq_exp_minus_1)
  show "drop_bit 4 (push_bit 4 a OR b) = a"
    using lt[OF assms(1)] lt[OF assms(2)]
    by (intro bit_word_eqI) (auto simp: bit_simps not_le [symmetric])
  show "(push_bit 4 a OR b) AND 15 = b"
    unfolding m15 using lt[OF assms(2)]
    by (intro bit_word_eqI) (auto simp: bit_simps not_le [symmetric])
qed

section \<open>Errors of socket calls\<close>

text \<open>\<open>std::io::ErrorKind\<close> as far as the transports tell kinds apart.\<close>

datatype io_error = TimedOut | WouldBlock | OtherIoError

section \<open>Hash tables\<close>

text \<open>
  The contract of \<open>std::collections::HashMap\<close> the components rely on: lookup after each
  operation, and \<open>len\<close> as the number of keys. \<open>retain\<close> keeps the entries its predicate accepts.
\<close>

locale hash_table =
  fixes get :: "'t \<Rightarrow> 'k \<Rightarrow> 'v option"
    and insert :: "'k \<Rightarrow> 'v \<Rightarrow> 't \<Rightarrow> 't"
    and remove :: "'k \<Rightarrow> 't \<Rightarrow> 't"
    and retain :: "('k \<Rightarrow> 'v \<Rightarrow> bool) \<Rightarrow> 't \<Rightarrow> 't"
    and len :: "'t \<Rightarrow> nat"
    and ok :: "'t \<Rightarrow> bool"
  assumes get_insert: "get (insert k v t) k' = (if k' = k then Some v else get t k')"
    and get_remove: "get (remove k t) k' = (if k' = k then None else get t k')"
    and get_retain: "ok t \<Longrightarrow> get (retain P t) k =
      (case get t k of None \<Rightarrow> None | Some v \<Rightarrow> if P k v then Some v else None)"
    and len_dom: "ok t \<Longrightarrow> len t = card (dom (get t))"
    and finite_dom: "finite (dom (get t))"
    and ok_insert: "ok t \<Longrightarrow> ok (insert k v t)"
    and ok_remove: "ok t \<Longrightarrow> ok (remove k t)"
    and ok_retain: "ok t \<Longrightarrow> ok (retain P t)"
begin

lemma dom_insert: "dom (get (insert k v t)) = Set.insert k (dom (get t))"
  by (auto simp: get_insert split: if_splits)

lemma dom_remove: "dom (get (remove k t)) = dom (get t) - {k}"
  by (auto simp: get_remove split: if_splits)

lemma dom_retain: "ok t \<Longrightarrow> dom (get (retain P t)) \<subseteq> dom (get t)"
  by (auto simp: get_retain split: option.splits if_splits)

lemma len_insert:
  "ok t \<Longrightarrow> len (insert k v t) = (if get t k = None then Suc (len t) else len t)"
  by (simp add: len_dom ok_insert dom_insert card_insert_if finite_dom domIff)

lemma len_remove:
  "ok t \<Longrightarrow> len (remove k t) = (if get t k = None then len t else len t - 1)"
  by (simp add: len_dom ok_remove dom_remove finite_dom domIff card_Diff_singleton_if)

lemma len_remove_le: "ok t \<Longrightarrow> len (remove k t) \<le> len t"
  by (simp add: len_remove)

lemma len_retain_le: "ok t \<Longrightarrow> len (retain P t) \<le> len t"
  by (simp add: len_dom ok_retain card_mono finite_dom dom_retain)

lemma len_pos: "ok t \<Longrightarrow> get t k = Some v \<Longrightarrow> 0 < len t"
  by (auto simp: len_dom card_gt_0_iff finite_dom)

lemma get_retain_Some:
  "ok t \<Longrightarrow> get (retain P t) k = Some v \<longleftrightarrow> get t k = Some v \<and> P k v"
  by (auto simp: get_retain split: option.splits if_splits)

end

text \<open>
  The model: the entries in iteration order. The iteration order of a \<open>HashMap\<close> is unspecified;
  the model fixes one, and no statement of the development depends on which.
\<close>

type_synonym ('k, 'v) hash_map = "('k \<times> 'v) list"

definition hm_get :: "('k, 'v) hash_map \<Rightarrow> 'k \<Rightarrow> 'v option" where
  "hm_get = map_of"

definition hm_insert :: "'k \<Rightarrow> 'v \<Rightarrow> ('k, 'v) hash_map \<Rightarrow> ('k, 'v) hash_map" where
  "hm_insert = AList.update"

definition hm_remove :: "'k \<Rightarrow> ('k, 'v) hash_map \<Rightarrow> ('k, 'v) hash_map" where
  "hm_remove = AList.delete"

definition hm_retain :: "('k \<Rightarrow> 'v \<Rightarrow> bool) \<Rightarrow> ('k, 'v) hash_map \<Rightarrow> ('k, 'v) hash_map" where
  "hm_retain P = filter (\<lambda>(k, v). P k v)"

definition hm_len :: "('k, 'v) hash_map \<Rightarrow> nat" where
  "hm_len = length"

definition hm_ok :: "('k, 'v) hash_map \<Rightarrow> bool" where
  "hm_ok t \<longleftrightarrow> distinct (map fst t)"

definition hm_contains_key :: "('k, 'v) hash_map \<Rightarrow> 'k \<Rightarrow> bool" where
  "hm_contains_key t k \<longleftrightarrow> hm_get t k \<noteq> None"

lemmas hm_defs = hm_get_def hm_insert_def hm_remove_def hm_retain_def hm_len_def hm_ok_def
  hm_contains_key_def

lemma map_of_filter_distinct:
  "distinct (map fst t) \<Longrightarrow> map_of (filter (\<lambda>(k, v). P k v) t) k =
     (case map_of t k of None \<Rightarrow> None | Some v \<Rightarrow> if P k v then Some v else None)"
  by (induction t) (auto split: option.splits dest: map_of_SomeD simp: rev_image_eqI)

interpretation hm: hash_table hm_get hm_insert hm_remove hm_retain hm_len hm_ok
proof unfold_locales
  fix k :: 'k and v :: 'v and t :: "('k, 'v) hash_map" and k' :: 'k and P :: "'k \<Rightarrow> 'v \<Rightarrow> bool"
  show "hm_get (hm_insert k v t) k' = (if k' = k then Some v else hm_get t k')"
    by (simp add: hm_defs update_conv')
  show "hm_get (hm_remove k t) k' = (if k' = k then None else hm_get t k')"
    by (simp add: hm_defs delete_conv')
  show "finite (dom (hm_get t))"
    by (simp add: hm_defs finite_dom_map_of)
  assume ok: "hm_ok t"
  show "hm_get (hm_retain P t) k =
      (case hm_get t k of None \<Rightarrow> None | Some v \<Rightarrow> if P k v then Some v else None)"
    using ok by (simp add: hm_defs map_of_filter_distinct)
  show "hm_len t = card (dom (hm_get t))"
    using ok distinct_card [of "map fst t"] by (simp add: hm_defs dom_map_of_conv_image_fst)
  show "hm_ok (hm_insert k v t)" and "hm_ok (hm_remove k t)" and "hm_ok (hm_retain P t)"
    using ok by (auto simp: hm_defs distinct_update distinct_delete distinct_map_filter)
qed

lemmas hm_table [table_simps] =
  hm.get_insert hm.get_remove hm.get_retain hm.len_insert hm.len_remove hm.ok_insert hm.ok_remove
  hm.ok_retain

lemma hm_empty [simp]: "hm_get [] k = None" "hm_len [] = 0" "hm_ok []"
  by (simp_all add: hm_defs)

lemma hm_all_None:
  assumes "\<And>k. hm_get m k = None"
  shows "m = []"
proof (rule ccontr)
  assume "m \<noteq> []"
  then obtain k v es where "m = (k, v) # es" by (cases m) auto
  with assms [of k] show False by (simp add: hm_get_def)
qed

lemma hm_get_mem: "hm_get t k = Some v \<Longrightarrow> (k, v) \<in> set t"
  by (simp add: hm_defs map_of_SomeD)

lemma hm_mem_get: "hm_ok t \<Longrightarrow> (k, v) \<in> set t \<Longrightarrow> hm_get t k = Some v"
  by (simp add: hm_defs)

end
