(* ===== verification/Rust_Str.thy ===== *)
theory Rust_Str
  imports Loft_Prelude
begin

text \<open>
  What the sources use of Rust's \<open>str\<close>, a string being the list of its UTF-8 bytes:
  \<open>str::from_utf8\<close> and \<open>String::from_utf8_lossy\<close> (one replacement character for each maximal
  invalid part), \<open>trim\<close>, \<open>strip_prefix\<close>, \<open>split_once\<close>, \<open>trim_end_matches\<close>, decimal \<open>Display\<close> of
  an unsigned integer and the \<open>FromStr\<close> and \<open>from_str_radix\<close> parsers. Lemmas: valid text is
  unchanged by the lossy conversion, and parsing inverts printing below the type's bound.
\<close>

section \<open>UTF-8 validation\<close>

definition safe_get :: "bytes \<Rightarrow> nat \<Rightarrow> u8" where
  "safe_get xs i = (if i < length xs then xs ! i else 0)"

definition is_cont :: "u8 \<Rightarrow> bool" where
  "is_cont b \<longleftrightarrow> b AND 192 = 128"

definition utf8_char_width :: "u8 \<Rightarrow> nat" where
  "utf8_char_width b =
     (if b < 0x80 then 1
      else if 0xC2 \<le> b \<and> b \<le> 0xDF then 2
      else if 0xE0 \<le> b \<and> b \<le> 0xEF then 3
      else if 0xF0 \<le> b \<and> b \<le> 0xF4 then 4
      else 0)"

text \<open>The allowed second bytes of three- and four-byte sequences.\<close>

definition second_ok :: "u8 \<Rightarrow> u8 \<Rightarrow> bool" where
  "second_ok b s \<longleftrightarrow>
     (if b = 0xE0 then 0xA0 \<le> s \<and> s \<le> 0xBF
      else if b = 0xED then 0x80 \<le> s \<and> s \<le> 0x9F
      else if b = 0xF0 then 0x90 \<le> s \<and> s \<le> 0xBF
      else if b = 0xF4 then 0x80 \<le> s \<and> s \<le> 0x8F
      else 0x80 \<le> s \<and> s \<le> 0xBF)"

text \<open>
  The next piece of a non-empty byte string: its length, and whether it is a character. An
  invalid piece is the longest prefix of a character that was accepted before the mismatch.
\<close>

definition utf8_next :: "bytes \<Rightarrow> nat \<times> bool" where
  "utf8_next xs =
     (let b = safe_get xs 0; w = utf8_char_width b in
      if w = 1 then (1, True)
      else if w = 2 then (if is_cont (safe_get xs 1) then (2, True) else (1, False))
      else if w = 3 then
        (if \<not> second_ok b (safe_get xs 1) then (1, False)
         else if \<not> is_cont (safe_get xs 2) then (2, False) else (3, True))
      else if w = 4 then
        (if \<not> second_ok b (safe_get xs 1) then (1, False)
         else if \<not> is_cont (safe_get xs 2) then (2, False)
         else if \<not> is_cont (safe_get xs 3) then (3, False) else (4, True))
      else (1, False))"

lemma utf8_next_pos: "utf8_next xs = (n, v) \<Longrightarrow> 0 < n"
  by (auto simp: utf8_next_def Let_def split: if_splits)

function from_utf8_ok :: "bytes \<Rightarrow> bool" where
  "from_utf8_ok [] = True"
| "from_utf8_ok (x # xs) =
     (let (n, valid) = utf8_next (x # xs) in valid \<and> from_utf8_ok (drop n (x # xs)))"
  by pat_completeness auto
termination
  by (relation "measure length") (auto dest: utf8_next_pos [OF sym] utf8_next_pos)

function from_utf8_lossy :: "bytes \<Rightarrow> bytes" where
  "from_utf8_lossy [] = []"
| "from_utf8_lossy (x # xs) =
     (let (n, valid) = utf8_next (x # xs)
      in (if valid then take n (x # xs) else [0xEF, 0xBF, 0xBD])
         @ from_utf8_lossy (drop n (x # xs)))"
  by pat_completeness auto
termination
  by (relation "measure length") (auto dest: utf8_next_pos [OF sym] utf8_next_pos)

lemma from_utf8_lossy_valid: "from_utf8_ok xs \<Longrightarrow> from_utf8_lossy xs = xs"
proof (induction xs rule: from_utf8_ok.induct)
  case (2 x xs)
  obtain n v where n: "utf8_next (x # xs) = (n, v)" by fastforce
  with 2 show ?case by (simp add: append_take_drop_id)
qed simp

lemma from_utf8_ok_ascii: "\<forall>b \<in> set xs. b < 128 \<Longrightarrow> from_utf8_ok xs"
  by (induction xs) (auto simp: utf8_next_def safe_get_def utf8_char_width_def)

section \<open>Slicing and trimming\<close>

text \<open>The UTF-8 encodings of the characters \<open>char::is_whitespace\<close> accepts.\<close>

definition whitespace :: "bytes list" where
  "whitespace =
     [[9], [10], [11], [12], [13], [32], [0xC2, 0x85], [0xC2, 0xA0], [0xE1, 0x9A, 0x80],
      [0xE2, 0x80, 0x80], [0xE2, 0x80, 0x81], [0xE2, 0x80, 0x82], [0xE2, 0x80, 0x83],
      [0xE2, 0x80, 0x84], [0xE2, 0x80, 0x85], [0xE2, 0x80, 0x86], [0xE2, 0x80, 0x87],
      [0xE2, 0x80, 0x88], [0xE2, 0x80, 0x89], [0xE2, 0x80, 0x8A], [0xE2, 0x80, 0xA8],
      [0xE2, 0x80, 0xA9], [0xE2, 0x80, 0xAF], [0xE2, 0x81, 0x9F], [0xE3, 0x80, 0x80]]"

definition strip_prefix :: "bytes \<Rightarrow> bytes \<Rightarrow> bytes option" where
  "strip_prefix p xs = (if take (length p) xs = p then Some (drop (length p) xs) else None)"

definition strip_any :: "bytes list \<Rightarrow> bytes \<Rightarrow> bytes option" where
  "strip_any ws xs = (case List.find (\<lambda>w. w \<noteq> [] \<and> take (length w) xs = w) ws of
       None \<Rightarrow> None | Some w \<Rightarrow> Some (drop (length w) xs))"

lemma strip_any_shorter: "strip_any ws xs = Some ys \<Longrightarrow> length ys < length xs"
proof -
  assume "strip_any ws xs = Some ys"
  then obtain w where w: "List.find (\<lambda>w. w \<noteq> [] \<and> take (length w) xs = w) ws = Some w"
    and ys: "ys = drop (length w) xs"
    by (auto simp: strip_any_def split: option.splits)
  from w have "w \<noteq> []" and "take (length w) xs = w"
    by (auto simp: find_Some_iff)
  then have "xs \<noteq> []" and "0 < length w" by auto
  with ys show ?thesis by simp
qed

function trim_by :: "bytes list \<Rightarrow> bytes \<Rightarrow> bytes" where
  "trim_by ws xs = (case strip_any ws xs of None \<Rightarrow> xs | Some ys \<Rightarrow> trim_by ws ys)"
  by pat_completeness auto
termination
  by (relation "measure (\<lambda>(_, xs). length xs)") (auto dest: strip_any_shorter)

declare trim_by.simps [simp del]

text \<open>For evaluation: unfolded on a known list only.\<close>

lemma trim_by_code [code]:
  "trim_by ws [] = []"
  "trim_by ws (x # xs) = (case strip_any ws (x # xs) of None \<Rightarrow> x # xs | Some ys \<Rightarrow> trim_by ws ys)"
  by (subst trim_by.simps; simp add: strip_any_def split: option.split; auto simp: find_Some_iff)+

definition trim :: "bytes \<Rightarrow> bytes" where
  "trim xs = rev (trim_by (map rev whitespace) (rev (trim_by whitespace xs)))"

definition trim_end_matches :: "u8 \<Rightarrow> bytes \<Rightarrow> bytes" where
  "trim_end_matches c xs = rev (dropWhile (\<lambda>b. b = c) (rev xs))"

definition split_once :: "u8 \<Rightarrow> bytes \<Rightarrow> (bytes \<times> bytes) option" where
  "split_once c xs =
     (if c \<in> set xs then Some (takeWhile (\<lambda>b. b \<noteq> c) xs, tl (dropWhile (\<lambda>b. b \<noteq> c) xs)) else None)"

lemma split_once_append: "c \<notin> set a \<Longrightarrow> split_once c (a @ c # b) = Some (a, b)"
  by (induction a) (auto simp: split_once_def split: if_splits)

section \<open>Numbers\<close>

definition is_digit :: "u8 \<Rightarrow> bool" where
  "is_digit b \<longleftrightarrow> 48 \<le> b \<and> b \<le> 57"

definition dec_value :: "bytes \<Rightarrow> nat" where
  "dec_value ds = foldl (\<lambda>acc d. 10 * acc + (unat d - 48)) 0 ds"

text \<open>
  \<open>str::parse\<close> at an unsigned type with values below \<open>bound\<close>: an optional \<open>+\<close> before at least one
  digit; anything else, and a value out of range, is an error.
\<close>

definition parse_unsigned :: "nat \<Rightarrow> bytes \<Rightarrow> nat option" where
  "parse_unsigned bound xs =
     (let ds = (case xs of c # r \<Rightarrow> if c = 43 \<and> r \<noteq> [] then r else xs | [] \<Rightarrow> xs)
      in if ds \<noteq> [] \<and> list_all is_digit ds \<and> dec_value ds < bound then Some (dec_value ds)
         else None)"

definition parse_u64 :: "bytes \<Rightarrow> nat option" where
  "parse_u64 = parse_unsigned (2 ^ 64)"

definition hex_digit :: "u8 \<Rightarrow> nat option" where
  "hex_digit b =
     (if 48 \<le> b \<and> b \<le> 57 then Some (unat b - 48)
      else if 97 \<le> b \<and> b \<le> 102 then Some (unat b - 87)
      else if 65 \<le> b \<and> b \<le> 70 then Some (unat b - 55)
      else None)"

text \<open>\<open>u8::from_str_radix(s, 16)\<close>; like \<open>parse\<close> it accepts a leading \<open>+\<close>.\<close>

definition u8_from_hex :: "bytes \<Rightarrow> u8 option" where
  "u8_from_hex xs =
     (let ds = (case xs of c # r \<Rightarrow> if c = 43 \<and> r \<noteq> [] then r else xs | [] \<Rightarrow> xs);
          vs = map hex_digit ds
      in if ds = [] \<or> None \<in> set vs then None
         else let v = foldl (\<lambda>acc d. 16 * acc + the d) 0 vs
              in if v < 256 then Some (of_nat v) else None)"

fun show_unsigned :: "nat \<Rightarrow> bytes" where
  "show_unsigned n =
     (if n < 10 then [of_nat (48 + n)] else show_unsigned (n div 10) @ [of_nat (48 + n mod 10)])"

declare show_unsigned.simps [simp del]

lemma dec_value_snoc: "dec_value (xs @ [d]) = 10 * dec_value xs + (unat d - 48)"
  by (simp add: dec_value_def)

lemma digit_byte:
  assumes "n < 10"
  shows "unat (of_nat (48 + n) :: u8) = 48 + n" and "is_digit (of_nat (48 + n))"
proof -
  show u: "unat (of_nat (48 + n) :: u8) = 48 + n"
    using assms by (simp only: unat_of_nat) simp
  then show "is_digit (of_nat (48 + n))"
    using assms unfolding is_digit_def word_le_nat_alt by simp
qed

lemma show_unsigned_digits:
  "list_all is_digit (show_unsigned n) \<and> show_unsigned n \<noteq> [] \<and> dec_value (show_unsigned n) = n"
proof (induction n rule: show_unsigned.induct)
  case (1 n)
  show ?case
  proof (cases "n < 10")
    case True
    with digit_byte[of n] show ?thesis
      by (subst show_unsigned.simps, subst (2) show_unsigned.simps, subst (3) show_unsigned.simps)
         (simp add: dec_value_def del: of_nat_add)
  next
    case False
    have s: "show_unsigned n = show_unsigned (n div 10) @ [of_nat (48 + n mod 10)]"
      using False by (subst show_unsigned.simps) simp
    show ?thesis
      unfolding s using 1[OF False] digit_byte[of "n mod 10"]
      by (simp add: dec_value_snoc del: of_nat_add)
  qed
qed

lemma plus_not_digit: "\<not> is_digit 43"
  by (simp add: is_digit_def)

lemma parse_show: "n < bound \<Longrightarrow> parse_unsigned bound (show_unsigned n) = Some n"
  using show_unsigned_digits[of n] plus_not_digit
  by (auto simp: parse_unsigned_def Let_def split: list.splits)

lemma show_unsigned_digit_set: "b \<in> set (show_unsigned n) \<Longrightarrow> is_digit b"
  using show_unsigned_digits[of n] by (simp add: list_all_iff)

lemma parse_unsigned_bound: "parse_unsigned bound xs = Some n \<Longrightarrow> n < bound"
  by (auto simp: parse_unsigned_def Let_def split: if_splits)

text \<open>Text whose first byte starts no whitespace and whose last byte ends none is left alone.\<close>

lemma strip_any_plain:
  assumes "\<forall>w \<in> set ws. w \<noteq> [] \<longrightarrow> hd w \<noteq> x"
  shows "strip_any ws (x # xs) = None"
proof -
  have "\<not> (w \<noteq> [] \<and> take (length w) (x # xs) = w)" if "w \<in> set ws" for w
  proof
    assume *: "w \<noteq> [] \<and> take (length w) (x # xs) = w"
    then have "hd (take (length w) (x # xs)) = hd w" and "0 < length w" by simp_all
    then have "hd w = x" by simp
    with * that assms show False by auto
  qed
  then have "List.find (\<lambda>w. w \<noteq> [] \<and> take (length w) (x # xs) = w) ws = None"
    by (simp only: find_None_iff) blast
  then show ?thesis by (simp add: strip_any_def)
qed

lemma trim_plain:
  assumes "xs \<noteq> []" and "\<forall>w \<in> set whitespace. hd w \<noteq> hd xs"
    and "\<forall>w \<in> set whitespace. last w \<noteq> last xs"
  shows "trim xs = xs"
proof -
  have front: "trim_by ws ys = ys" if "ys \<noteq> []" "\<forall>w \<in> set ws. w \<noteq> [] \<longrightarrow> hd w \<noteq> hd ys" for ws ys
    using that strip_any_plain[of ws "hd ys" "tl ys"] by (subst trim_by.simps) simp
  have "trim_by whitespace xs = xs"
    using assms(1,2) by (intro front) auto
  moreover have "trim_by (map rev whitespace) (rev xs) = rev xs"
    using assms(1,3) by (intro front) (auto simp: hd_rev)
  ultimately show ?thesis by (simp add: trim_def)
qed

lemma whitespace_not_digit:
  "is_digit d \<Longrightarrow> \<forall>w \<in> set whitespace. hd w \<noteq> d \<and> last w \<noteq> d"
  by (auto simp: whitespace_def is_digit_def)

lemma trim_digits:
  assumes "list_all is_digit xs" and "xs \<noteq> []"
  shows "trim xs = xs"
proof -
  have "is_digit (hd xs)" and "is_digit (last xs)"
    using assms hd_in_set[of xs] last_in_set[of xs] by (auto simp: list_all_iff)
  then show ?thesis
    using assms(2) whitespace_not_digit by (intro trim_plain) blast+
qed

lemma trim_show_unsigned: "trim (show_unsigned n) = show_unsigned n"
  using show_unsigned_digits[of n] by (simp add: trim_digits)

end
