(* ===== verification/Coap_Message.thy ===== *)
theory Coap_Message
  imports Rust_Str
begin

text \<open>
  \<open>loft/src/coap/message.rs\<close>: CoAP codes, option numbers, the transport-independent \<open>Message\<close>,
  and the shared options-and-payload region of both framings (delta encoding with 4-bit nibbles
  and their extensions). Lemmas: the codec round trip, the order and total size of decoded
  options, every error branch of the decoder, and the uint options.
\<close>

section \<open>Codes\<close>

definition resp :: "u8 \<Rightarrow> u8 \<Rightarrow> u8" where
  "resp class detail = (push_bit 5 class) OR detail"

definition code_class :: "u8 \<Rightarrow> u8" where
  "code_class c = drop_bit 5 c"

definition EMPTY :: u8 where "EMPTY = 0x00"
definition GET :: u8 where "GET = 0x01"
definition POST :: u8 where "POST = 0x02"
definition PUT :: u8 where "PUT = 0x03"
definition DELETE :: u8 where "DELETE = 0x04"
definition CREATED :: u8 where "CREATED = resp 2 1"
definition DELETED :: u8 where "DELETED = resp 2 2"
definition VALID :: u8 where "VALID = resp 2 3"
definition CHANGED :: u8 where "CHANGED = resp 2 4"
definition CONTENT :: u8 where "CONTENT = resp 2 5"
definition CONTINUE :: u8 where "CONTINUE = resp 2 31"
definition BAD_REQUEST :: u8 where "BAD_REQUEST = resp 4 0"
definition UNAUTHORIZED :: u8 where "UNAUTHORIZED = resp 4 1"
definition BAD_OPTION :: u8 where "BAD_OPTION = resp 4 2"
definition FORBIDDEN :: u8 where "FORBIDDEN = resp 4 3"
definition NOT_FOUND :: u8 where "NOT_FOUND = resp 4 4"
definition METHOD_NOT_ALLOWED :: u8 where "METHOD_NOT_ALLOWED = resp 4 5"
definition REQUEST_ENTITY_INCOMPLETE :: u8 where "REQUEST_ENTITY_INCOMPLETE = resp 4 8"
definition REQUEST_ENTITY_TOO_LARGE :: u8 where "REQUEST_ENTITY_TOO_LARGE = resp 4 13"
definition INTERNAL_SERVER_ERROR :: u8 where "INTERNAL_SERVER_ERROR = resp 5 0"
definition BAD_GATEWAY :: u8 where "BAD_GATEWAY = resp 5 2"
definition SERVICE_UNAVAILABLE :: u8 where "SERVICE_UNAVAILABLE = resp 5 3"
definition GATEWAY_TIMEOUT :: u8 where "GATEWAY_TIMEOUT = resp 5 4"
definition CSM :: u8 where "CSM = resp 7 1"
definition PING :: u8 where "PING = resp 7 2"
definition PONG :: u8 where "PONG = resp 7 3"
definition RELEASE :: u8 where "RELEASE = resp 7 4"
definition ABORT :: u8 where "ABORT = resp 7 5"

lemmas code_defs [loft_defs] = resp_def code_class_def EMPTY_def GET_def POST_def PUT_def DELETE_def
  CREATED_def DELETED_def VALID_def CHANGED_def CONTENT_def CONTINUE_def BAD_REQUEST_def
  UNAUTHORIZED_def BAD_OPTION_def FORBIDDEN_def NOT_FOUND_def METHOD_NOT_ALLOWED_def
  REQUEST_ENTITY_INCOMPLETE_def REQUEST_ENTITY_TOO_LARGE_def INTERNAL_SERVER_ERROR_def
  BAD_GATEWAY_def SERVICE_UNAVAILABLE_def GATEWAY_TIMEOUT_def CSM_def PING_def PONG_def
  RELEASE_def ABORT_def

definition is_request :: "u8 \<Rightarrow> bool" where
  "is_request c \<longleftrightarrow> code_class c = 0 \<and> c \<noteq> EMPTY"

definition is_signaling :: "u8 \<Rightarrow> bool" where
  "is_signaling c \<longleftrightarrow> code_class c = 7"

text \<open>\<open>{}.{:02}\<close> of the class and the detail.\<close>

definition dotted :: "u8 \<Rightarrow> bytes" where
  "dotted c = (let detail = unat (c AND 0x1F) in
     show_unsigned (unat (code_class c)) @ 46 # (if detail < 10 then [48] else []) @ show_unsigned detail)"

section \<open>Options and content formats\<close>

definition ETAG :: u16 where "ETAG = 4"
definition OBSERVE :: u16 where "OBSERVE = 6"
definition URI_PORT :: u16 where "URI_PORT = 7"
definition URI_PATH :: u16 where "URI_PATH = 11"
definition CONTENT_FORMAT :: u16 where "CONTENT_FORMAT = 12"
definition URI_QUERY :: u16 where "URI_QUERY = 15"
definition BLOCK2 :: u16 where "BLOCK2 = 23"
definition BLOCK1 :: u16 where "BLOCK1 = 27"
definition SIZE2 :: u16 where "SIZE2 = 28"
definition URI_HOST :: u16 where "URI_HOST = 3"
definition SIZE1 :: u16 where "SIZE1 = 60"

definition is_critical :: "u16 \<Rightarrow> bool" where
  "is_critical number \<longleftrightarrow> number AND 1 = 1"

definition OCTET_STREAM :: u16 where "OCTET_STREAM = 42"
definition JSON :: u16 where "JSON = 50"
definition MAX_TOKEN_LEN :: nat where "MAX_TOKEN_LEN = 8"

lemmas option_defs [loft_defs] = ETAG_def OBSERVE_def URI_PORT_def URI_PATH_def CONTENT_FORMAT_def
  URI_QUERY_def BLOCK2_def BLOCK1_def SIZE2_def URI_HOST_def SIZE1_def OCTET_STREAM_def JSON_def
  MAX_TOKEN_LEN_def

section \<open>Messages\<close>

record message =
  msg_code :: u8
  msg_token :: bytes
  msg_options :: "(u16 \<times> bytes) list"
  msg_payload :: bytes

text \<open>\<open>Message::default()\<close>.\<close>

definition default_message :: message where
  "default_message = \<lparr>msg_code = 0, msg_token = [], msg_options = [], msg_payload = []\<rparr>"

definition response :: "u8 \<Rightarrow> message \<Rightarrow> message" where
  "response c request =
     \<lparr>msg_code = c, msg_token = msg_token request, msg_options = [], msg_payload = []\<rparr>"

definition option_values :: "message \<Rightarrow> u16 \<Rightarrow> bytes list" where
  "option_values m number = map snd (filter (\<lambda>(n, _). n = number) (msg_options m))"

definition first_option :: "message \<Rightarrow> u16 \<Rightarrow> bytes option" where
  "first_option m number = (case option_values m number of [] \<Rightarrow> None | v # _ \<Rightarrow> Some v)"

text \<open>The fold of \<open>option_uint\<close> and of big-endian reading in general.\<close>

definition uint_of_bytes :: "bytes \<Rightarrow> u32" where
  "uint_of_bytes v = foldl (\<lambda>acc b. push_bit 8 acc OR ucast b) 0 v"

definition option_uint :: "message \<Rightarrow> u16 \<Rightarrow> u32 option" where
  "option_uint m number = (case first_option m number of
       None \<Rightarrow> None
     | Some v \<Rightarrow> if length v > 4 then None else Some (uint_of_bytes v))"

text \<open>Minimal-length big-endian encoding: leading zero bytes are skipped.\<close>

definition encode_uint :: "u32 \<Rightarrow> bytes" where
  "encode_uint value = dropWhile (\<lambda>b. b = 0) (u32_to_be_bytes value)"

definition push_option :: "u16 \<Rightarrow> bytes \<Rightarrow> message \<Rightarrow> message" where
  "push_option number value m = m\<lparr>msg_options := msg_options m @ [(number, value)]\<rparr>"

definition set_option_uint :: "u16 \<Rightarrow> u32 \<Rightarrow> message \<Rightarrow> message" where
  "set_option_uint number value m =
     push_option number (encode_uint value)
       (m\<lparr>msg_options := filter (\<lambda>(n, _). n \<noteq> number) (msg_options m)\<rparr>)"

text \<open>Uri-Path segments in order, each converted with replacement characters for bad UTF-8.\<close>

definition path_segments :: "message \<Rightarrow> bytes list" where
  "path_segments m = map from_utf8_lossy (option_values m URI_PATH)"

definition unknown_critical_option :: "message \<Rightarrow> u16 list \<Rightarrow> u16 option" where
  "unknown_critical_option m known =
     List.find (\<lambda>n. is_critical n \<and> n \<notin> set known) (map fst (msg_options m))"

section \<open>The shared options and payload region\<close>

datatype decode_error = Truncated | BadOptionEncoding | BadTokenLength | PayloadMarkerNoPayload

text \<open>\<open>Display\<close> of \<open>DecodeError\<close>.\<close>

fun decode_error_text :: "decode_error \<Rightarrow> bytes" where
  "decode_error_text Truncated = ascii ''truncated message''"
| "decode_error_text BadOptionEncoding = ascii ''bad option encoding''"
| "decode_error_text BadTokenLength = ascii ''token length > 8''"
| "decode_error_text PayloadMarkerNoPayload = ascii ''payload marker with empty payload''"

definition nibble_ext :: "u32 \<Rightarrow> u8 \<times> bytes" where
  "nibble_ext value =
     (if value < 13 then (ucast value, [])
      else if value < 269 then (13, [ucast (value - 13)])
      else (14, u16_to_be_bytes (ucast (value - 269))))"

text \<open>
  The loop of \<open>encode_options_and_payload\<close> over the sorted options. \<open>value.len() as u32\<close>
  truncates, which \<^const>\<open>of_nat\<close> to \<^typ>\<open>u32\<close> does.
\<close>

fun encode_option_list :: "u16 \<Rightarrow> (u16 \<times> bytes) list \<Rightarrow> bytes" where
  "encode_option_list prev [] = []"
| "encode_option_list prev ((number, value) # opts) =
     (let (delta_nibble, delta_ext) = nibble_ext (ucast (number - prev));
          (len_nibble, len_ext) = nibble_ext (of_nat (length value))
      in (push_bit 4 delta_nibble OR len_nibble) # delta_ext @ len_ext @ value
         @ encode_option_list number opts)"

definition encode_options_and_payload :: "message \<Rightarrow> bytes" where
  "encode_options_and_payload m =
     encode_option_list 0 (sort_key fst (msg_options m))
     @ (if msg_payload m \<noteq> [] then 0xFF # msg_payload m else [])"

definition read_nibble_ext :: "u8 \<Rightarrow> bytes \<Rightarrow> decode_error + (u32 \<times> bytes)" where
  "read_nibble_ext nibble buf =
     (if nibble \<le> 12 then Inr (ucast nibble, buf)
      else if nibble = 13 then
        (case buf of first # rest \<Rightarrow> Inr (13 + ucast first, rest) | _ \<Rightarrow> Inl Truncated)
      else if nibble = 14 then
        (case buf of a # b # rest \<Rightarrow> Inr (269 + ucast (u16_from_be_bytes a b), rest)
         | _ \<Rightarrow> Inl Truncated)
      else Inl BadOptionEncoding)"

lemma read_nibble_ext_length:
  "read_nibble_ext n buf = Inr (v, rest) \<Longrightarrow> length rest \<le> length buf"
  by (auto simp: read_nibble_ext_def split: if_splits list.splits)

text \<open>
  The loop of \<open>decode_options_and_payload\<close>: \<open>number\<close> is the running option number, the message
  is filled in place. On an error the source leaves a partly filled message behind that every
  caller drops, so the error alone is the result here.
\<close>

function decode_options_loop :: "u16 \<Rightarrow> bytes \<Rightarrow> message \<Rightarrow> decode_error + message" where
  "decode_options_loop number [] m = Inr m"
| "decode_options_loop number (byte # buf) m =
     (if byte = 0xFF then
        (if buf = [] then Inl PayloadMarkerNoPayload else Inr (m\<lparr>msg_payload := buf\<rparr>))
      else case read_nibble_ext (drop_bit 4 byte) buf of
        Inl e \<Rightarrow> Inl e
      | Inr (delta, buf1) \<Rightarrow>
          (case read_nibble_ext (byte AND 0x0F) buf1 of
             Inl e \<Rightarrow> Inl e
           | Inr (len, buf2) \<Rightarrow>
               (if length buf2 < unat len then Inl Truncated
                else let extended = ucast number + delta in
                  if extended > 0xFFFF then Inl BadOptionEncoding
                  else decode_options_loop (ucast extended) (drop (unat len) buf2)
                         (push_option (ucast extended) (take (unat len) buf2) m))))"
  by pat_completeness auto
termination
  by (relation "measure (\<lambda>(_, buf, _). length buf)")
     (auto dest!: read_nibble_ext_length)

declare decode_options_loop.simps(2) [simp del]

definition decode_options_and_payload :: "bytes \<Rightarrow> message \<Rightarrow> decode_error + message" where
  "decode_options_and_payload buf m = decode_options_loop 0 buf m"

section \<open>Nibbles and their extensions\<close>

lemma u16_to_be_bytes_read [wire_simps]:
  "\<exists>a b. u16_to_be_bytes x = [a, b] \<and> u16_from_be_bytes a b = x"
  by (simp add: u16_to_be_bytes_def u16_be_roundtrip)

text \<open>The widest value a nibble with its extension can carry is 269 + 65535.\<close>

definition MAX_NIBBLE_VALUE :: nat where
  "MAX_NIBBLE_VALUE = 65804"

lemma nibble_ext_read:
  assumes "nibble_ext v = (n, ext)" and "unat v \<le> MAX_NIBBLE_VALUE"
  shows "n < 15" and "read_nibble_ext n (ext @ rest) = Inr (v, rest)"
proof -
  consider (small) "unat v < 13" | (mid) "13 \<le> unat v" "unat v < 269"
    | (large) "269 \<le> unat v" by linarith
  then have "n < 15 \<and> read_nibble_ext n (ext @ rest) = Inr (v, rest)"
  proof cases
    case small
    then have n: "n = ucast v" "ext = []" and u: "unat n = unat v"
      using assms(1) by (auto simp: nibble_ext_def word_less_nat_alt unat_ucast_u32_u8)
    have "ucast n = v" by (rule word_unat_eq_iff [THEN iffD2]) (simp add: u)
    with small u n(2) show ?thesis
      by (simp add: read_nibble_ext_def word_less_nat_alt word_le_nat_alt)
  next
    case mid
    then have n: "n = 13" "ext = [ucast (v - 13)]"
      using assms(1) by (auto simp: nibble_ext_def word_less_nat_alt)
    have d: "unat (v - 13) = unat v - 13" using mid(1) by (simp add: unat_sub word_le_nat_alt)
    have "unat (13 + ucast (ucast (v - 13) :: u8) :: u32) = unat v"
      using mid d by (simp add: unat_word_ariths unat_ucast_u32_u8)
    then have "13 + ucast (ucast (v - 13) :: u8) = v" by (simp add: word_unat_eq_iff)
    with n show ?thesis by (simp add: read_nibble_ext_def)
  next
    case large
    then have n: "n = 14" "ext = u16_to_be_bytes (ucast (v - 269))"
      using assms(1) by (auto simp: nibble_ext_def word_less_nat_alt)
    have d: "unat (v - 269) = unat v - 269"
      using large by (simp add: unat_sub word_le_nat_alt)
    have "unat (269 + ucast (ucast (v - 269) :: u16) :: u32) = unat v"
      using large assms(2) d by (simp add: unat_word_ariths unat_ucast_u32_u16 MAX_NIBBLE_VALUE_def)
    then have "269 + ucast (ucast (v - 269) :: u16) = v" by (simp add: word_unat_eq_iff)
    moreover obtain a b where "ext = [a, b]" "u16_from_be_bytes a b = ucast (v - 269)"
      using u16_to_be_bytes_read n(2) by metis
    ultimately show ?thesis using n by (simp add: read_nibble_ext_def)
  qed
  then show "n < 15" and "read_nibble_ext n (ext @ rest) = Inr (v, rest)" by auto
qed

lemma read_nibble_ext_bound:
  "read_nibble_ext n buf = Inr (v, rest) \<Longrightarrow> unat v \<le> MAX_NIBBLE_VALUE"
  by (auto simp: read_nibble_ext_def MAX_NIBBLE_VALUE_def unat_word_ariths word_le_nat_alt
      unat_lt_u8 [THEN less_imp_le_nat, THEN le_trans] less_Suc_eq_le [symmetric]
      unat_lt_u8 [THEN less_le_trans] unat_lt_u16 [THEN less_le_trans]
      split: if_splits list.splits intro!: le_trans [OF mod_less_eq_dividend])

section \<open>The codec round trip\<close>

text \<open>What the option encoding can carry: values of at most 269 + 65535 bytes.\<close>

definition encodable :: "message \<Rightarrow> bool" where
  "encodable m \<longleftrightarrow> (\<forall>(n, v) \<in> set (msg_options m). length v \<le> MAX_NIBBLE_VALUE)"

text \<open>The form a message has on the wire: options in number order, equal numbers in their order.\<close>

definition wire_form :: "message \<Rightarrow> message" where
  "wire_form m = m\<lparr>msg_options := sort_key fst (msg_options m)\<rparr>"

lemma nibble_head_not_marker:
  assumes "a < 15" and "b < 15"
  shows "push_bit 4 a OR b \<noteq> (0xFF :: u8)"
proof
  assume eq: "push_bit 4 a OR b = 0xFF"
  have "a < 16" "b < 16" using assms by (auto simp: word_less_nat_alt)
  then have "drop_bit 4 (push_bit 4 a OR b) = a" by (rule nibbles_split)
  with eq have "a = 15" by simp
  with assms(1) show False by simp
qed

lemma decode_encode_option:
  assumes len: "length value \<le> MAX_NIBBLE_VALUE" and le: "prev \<le> number"
  shows "decode_options_loop prev (encode_option_list prev ((number, value) # opts) @ tail) m
    = decode_options_loop number (encode_option_list number opts @ tail)
        (push_option number value m)"
proof -
  obtain dn de where d: "nibble_ext (ucast (number - prev)) = (dn, de)" by fastforce
  obtain ln le' where l: "nibble_ext (of_nat (length value)) = (ln, le')" by fastforce
  have ud: "unat (number - prev) = unat number - unat prev"
    using le by (simp add: unat_sub word_le_nat_alt)
  have ul: "unat (of_nat (length value) :: u32) = length value"
    using len by (simp add: unat_of_nat MAX_NIBBLE_VALUE_def)
  note rd = nibble_ext_read [OF d]
  note rl = nibble_ext_read [OF l]
  have db: "unat (ucast (number - prev) :: u32) \<le> MAX_NIBBLE_VALUE"
    using unat_lt_u16 [of number] by (simp add: ud MAX_NIBBLE_VALUE_def)
  have lb: "unat (of_nat (length value) :: u32) \<le> MAX_NIBBLE_VALUE"
    using len ul by simp
  have dn: "dn < 15" and ln: "ln < 15" using rd(1) [OF db] rl(1) [OF lb] by auto
  then have dn16: "dn < 16" and ln16: "ln < 16" by (auto simp: word_less_nat_alt)
  have head: "push_bit 4 dn OR ln \<noteq> 0xFF" using dn ln by (rule nibble_head_not_marker)
  have sum: "unat (ucast prev + ucast (number - prev) :: u32) = unat number"
    using le unat_lt_u16 [of number] by (simp add: unat_word_ariths ud word_le_nat_alt)
  then have num: "ucast (ucast prev + ucast (number - prev) :: u32) = number"
    using unat_lt_u16 [of number] by (simp add: word_unat_eq_iff unat_ucast_u32_u16)
  have small: "\<not> ucast prev + ucast (number - prev) > (0xFFFF :: u32)"
    using sum unat_lt_u16 [of number] by (simp add: word_less_nat_alt)
  show ?thesis
    using head small num ul
    by (simp add: d l decode_options_loop.simps(2) nibbles_split(1) [OF dn16 ln16]
        nibbles_split(2) [OF dn16 ln16] rd(2) [OF db] rl(2) [OF lb] del: drop_bit_or)
qed

lemma decode_encode_option_list:
  assumes "\<forall>(n, v) \<in> set opts. length v \<le> MAX_NIBBLE_VALUE"
    and "sorted (map fst opts)" and "\<forall>n \<in> fst ` set opts. prev \<le> n"
  shows "\<exists>last. decode_options_loop prev (encode_option_list prev opts @ tail) m
    = decode_options_loop last tail (m\<lparr>msg_options := msg_options m @ opts\<rparr>)"
  using assms
proof (induction opts arbitrary: prev m)
  case Nil
  have "m\<lparr>msg_options := msg_options m\<rparr> = m" by simp
  then show ?case by auto
next
  case (Cons kv opts)
  obtain number val where kv: "kv = (number, val)" by fastforce
  have "\<exists>last. decode_options_loop number (encode_option_list number opts @ tail)
      (push_option number val m)
    = decode_options_loop last tail
        (push_option number val m\<lparr>msg_options := msg_options (push_option number val m) @ opts\<rparr>)"
    using Cons.prems kv by (intro Cons.IH) auto
  then show ?case
    using Cons.prems decode_encode_option [of val prev number opts tail m] kv
    by (simp add: push_option_def)
qed

lemma decode_encode_message:
  assumes "encodable m" and "msg_options m0 = []" and "msg_payload m0 = []"
  shows "decode_options_and_payload (encode_options_and_payload m) m0
    = Inr (m0\<lparr>msg_options := sort_key fst (msg_options m), msg_payload := msg_payload m\<rparr>)"
proof -
  let ?opts = "sort_key fst (msg_options m)"
  let ?tail = "if msg_payload m \<noteq> [] then 0xFF # msg_payload m else []"
  obtain last where "decode_options_loop 0 (encode_option_list 0 ?opts @ ?tail) m0
      = decode_options_loop last ?tail (m0\<lparr>msg_options := msg_options m0 @ ?opts\<rparr>)"
    using decode_encode_option_list [of ?opts 0 ?tail m0] assms(1)
    by (auto simp: encodable_def)
  then show ?thesis
    using assms(2,3)
    by (auto simp: decode_options_and_payload_def encode_options_and_payload_def
        decode_options_loop.simps(2))
qed

section \<open>What the decoder yields\<close>

definition options_size :: "(u16 \<times> bytes) list \<Rightarrow> nat" where
  "options_size opts = sum_list (map (\<lambda>(n, v). Suc (length v)) opts)"

lemma decode_options_loop_yields:
  assumes "decode_options_loop number buf m = Inr m'"
  shows "\<exists>opts. msg_options m' = msg_options m @ opts \<and> sorted (map fst opts)
      \<and> (\<forall>n \<in> fst ` set opts. number \<le> n)
      \<and> (\<forall>(n, v) \<in> set opts. length v \<le> MAX_NIBBLE_VALUE)
      \<and> msg_code m' = msg_code m \<and> msg_token m' = msg_token m
      \<and> (msg_payload m' = msg_payload m \<and> options_size opts \<le> length buf
         \<or> msg_payload m' \<noteq> [] \<and> options_size opts + length (msg_payload m') < length buf)"
  using assms
proof (induction number buf m arbitrary: m' rule: decode_options_loop.induct)
  case (1 number m)
  then show ?case by (auto simp: options_size_def intro!: exI [of _ "[]"])
next
  case (2 number byte buf m)
  show ?case
  proof (cases "byte = 0xFF")
    case True
    with 2(2) show ?thesis
      by (auto simp: decode_options_loop.simps(2) options_size_def split: if_splits
          intro!: exI [of _ "[]"])
  next
    case False
    from False 2(2) obtain delta buf1 len buf2 where
      r1: "read_nibble_ext (drop_bit 4 byte) buf = Inr (delta, buf1)" and
      r2: "read_nibble_ext (byte AND 0x0F) buf1 = Inr (len, buf2)" and
      fits: "\<not> length buf2 < unat len" and
      small: "\<not> ucast number + delta > 0xFFFF" and
      rest: "decode_options_loop (ucast (ucast number + delta)) (drop (unat len) buf2)
        (push_option (ucast (ucast number + delta)) (take (unat len) buf2) m) = Inr m'"
      by (auto simp: decode_options_loop.simps(2) Let_def split: if_splits sum.splits)
    define n' where "n' = (ucast (ucast number + delta) :: u16)"
    define v' where "v' = take (unat len) buf2"
    obtain opts where o: "msg_options m' = msg_options (push_option n' v' m) @ opts"
      "sorted (map fst opts)" "\<forall>n \<in> fst ` set opts. n' \<le> n"
      "\<forall>(n, v) \<in> set opts. length v \<le> MAX_NIBBLE_VALUE"
      "msg_code m' = msg_code (push_option n' v' m)"
      "msg_token m' = msg_token (push_option n' v' m)"
      "msg_payload m' = msg_payload (push_option n' v' m)
         \<and> options_size opts \<le> length (drop (unat len) buf2)
       \<or> msg_payload m' \<noteq> []
         \<and> options_size opts + length (msg_payload m') < length (drop (unat len) buf2)"
      using 2(1) [OF False r1 refl r2 refl fits refl small rest] unfolding n'_def v'_def by auto
    have db: "unat delta \<le> MAX_NIBBLE_VALUE" using r1 by (rule read_nibble_ext_bound)
    have "unat (ucast number + delta) = unat number + unat delta"
      using db unat_lt_u16 [of number] by (simp add: unat_word_ariths MAX_NIBBLE_VALUE_def)
    then have le: "number \<le> n'"
      using small by (simp add: n'_def word_le_nat_alt word_less_nat_alt unat_ucast_u32_u16)
    have lv: "length v' = unat len" "unat len \<le> MAX_NIBBLE_VALUE"
      using fits r2 by (auto simp: v'_def dest: read_nibble_ext_bound)
    have shorter: "length buf2 \<le> length buf"
      using r1 r2 by (auto dest!: read_nibble_ext_length)
    have size: "options_size ((n', v') # opts) = Suc (unat len) + options_size opts"
      by (simp add: options_size_def lv)
    show ?thesis
      using o le lv shorter fits
      by (intro exI [of _ "(n', v') # opts"]) (auto simp: push_option_def size)
  qed
qed

section \<open>Uint options\<close>

lemma uint_of_bytes_dropWhile:
  "uint_of_bytes (dropWhile (\<lambda>b. b = 0) v) = uint_of_bytes v"
  by (induction v) (simp_all add: uint_of_bytes_def)

lemma uint_of_bytes_be: "uint_of_bytes (u32_to_be_bytes x) = x"
proof -
  have "uint_of_bytes (u32_to_be_bytes x)
      = u32_from_be_bytes (ucast (drop_bit 24 x)) (ucast (drop_bit 16 x)) (ucast (drop_bit 8 x))
          (ucast x)"
    unfolding uint_of_bytes_def u32_to_be_bytes_def u32_from_be_bytes_def
    by (simp add: push_bit_push_bit ac_simps)
  then show ?thesis by (simp only: u32_be_roundtrip)
qed

lemma uint_of_bytes_encode_uint [simp]: "uint_of_bytes (encode_uint v) = v"
  by (simp add: encode_uint_def uint_of_bytes_dropWhile uint_of_bytes_be)

lemma length_encode_uint: "length (encode_uint v) \<le> 4"
  using length_dropWhile_le [of "\<lambda>b. b = 0" "u32_to_be_bytes v"] by (simp add: encode_uint_def)

lemma option_values_push:
  "option_values (push_option n v m) k
    = (if k = n then option_values m k @ [v] else option_values m k)"
  by (auto simp: option_values_def push_option_def)

lemma option_values_set:
  "option_values (set_option_uint n v m) k
    = (if k = n then [encode_uint v] else option_values m k)"
proof -
  have "filter (\<lambda>(n', _). n' = k) (filter (\<lambda>(n', _). n' \<noteq> n) xs)
      = (if k = n then [] else filter (\<lambda>(n', _). n' = k) xs)" for xs :: "(u16 \<times> bytes) list"
    by (induction xs) auto
  then have "option_values (m\<lparr>msg_options := filter (\<lambda>(n', _). n' \<noteq> n) (msg_options m)\<rparr>) k
      = (if k = n then [] else option_values m k)"
    by (simp add: option_values_def del: filter_filter)
  then show ?thesis
    unfolding set_option_uint_def option_values_push by (cases "k = n") simp_all
qed

lemma option_values_sort:
  "option_values (m\<lparr>msg_options := sort_key fst (msg_options m)\<rparr>) n = option_values m n"
proof -
  have "filter (\<lambda>p. fst p = n) (sort_key fst xs) = filter (\<lambda>p. fst p = n) xs"
    for xs :: "(u16 \<times> bytes) list"
    by (rule sort_key_stable)
  then show ?thesis by (simp add: option_values_def case_prod_beta')
qed

lemma option_values_wire_form [simp]: "option_values (wire_form m) n = option_values m n"
  by (simp add: wire_form_def option_values_sort)

lemma option_values_response [simp]: "option_values (response c r) n = []"
  by (simp add: option_values_def response_def)

lemma option_values_payload [simp]:
  "option_values (m\<lparr>msg_payload := p\<rparr>) n = option_values m n"
  by (simp add: option_values_def)

lemma option_uint_eq:
  "option_uint m n = (case option_values m n of [] \<Rightarrow> None
     | v # _ \<Rightarrow> if length v > 4 then None else Some (uint_of_bytes v))"
  by (simp add: option_uint_def first_option_def split: list.splits)

lemma option_uint_cong:
  "option_values m n = option_values m' n \<Longrightarrow> option_uint m n = option_uint m' n"
  by (simp add: option_uint_eq)

lemma option_uint_set:
  "option_uint (set_option_uint n v m) k = (if k = n then Some v else option_uint m k)"
  using length_encode_uint [of v] by (simp add: option_uint_eq option_values_set)

lemma set_option_uint_fields [simp]:
  "msg_code (set_option_uint n v m) = msg_code m" "msg_token (set_option_uint n v m) = msg_token m"
  "msg_payload (set_option_uint n v m) = msg_payload m"
  "msg_code (push_option n b m) = msg_code m" "msg_token (push_option n b m) = msg_token m"
  "msg_payload (push_option n b m) = msg_payload m"
  by (simp_all add: set_option_uint_def push_option_def)

lemma response_fields [simp]:
  "msg_code (response c r) = c" "msg_token (response c r) = msg_token r"
  "msg_payload (response c r) = []" "msg_options (response c r) = []"
  by (simp_all add: response_def)

lemma encodable_response: "encodable (response c r)"
  by (simp add: encodable_def)

lemma encodable_set: "encodable m \<Longrightarrow> encodable (set_option_uint n v m)"
  using length_encode_uint [of v]
  by (auto simp: encodable_def set_option_uint_def push_option_def MAX_NIBBLE_VALUE_def)

lemma encodable_payload: "encodable m \<Longrightarrow> encodable (m\<lparr>msg_payload := p\<rparr>)"
  by (simp add: encodable_def)

lemma encodable_push: "encodable m \<Longrightarrow> length v \<le> MAX_NIBBLE_VALUE \<Longrightarrow> encodable (push_option n v m)"
  by (auto simp: encodable_def push_option_def)

lemmas encodable_intros = encodable_response encodable_set encodable_payload encodable_push

section \<open>Properties\<close>

text \<open>The options-and-payload region round-trips: decoding what \<open>encode_options_and_payload\<close>
  writes gives back every option (by number, repeated options in their order) and the payload,
  for any message whose option values have at most 65804 bytes, whatever order the options were
  pushed in.\<close>

theorem options_payload_roundtrip:
  assumes "encodable m" and "msg_options m0 = []" and "msg_payload m0 = []"
  shows "\<exists>m'. decode_options_and_payload (encode_options_and_payload m) m0 = Inr m'
    \<and> msg_options m' = sort_key fst (msg_options m)
    \<and> (\<forall>n. option_values m' n = option_values m n)
    \<and> msg_payload m' = msg_payload m \<and> msg_code m' = msg_code m0 \<and> msg_token m' = msg_token m0"
  using decode_encode_message [OF assms] option_values_sort [of m]
  by (auto simp: option_values_def)

theorem options_payload_roundtrip_witness:
  "\<exists>m'. decode_options_and_payload (encode_options_and_payload
       \<lparr>msg_code = 1, msg_token = [7], msg_options = [(60, [1]), (11, [2]), (11, [3])],
        msg_payload = [9]\<rparr>) default_message = Inr m'
     \<and> option_values m' 11 = [[2], [3]]"
proof -
  let ?m = "\<lparr>msg_code = 1, msg_token = [7], msg_options = [(60, [1]), (11, [2]), (11, [3])],
    msg_payload = [9]\<rparr> :: message"
  have "encodable ?m" by (simp add: encodable_def MAX_NIBBLE_VALUE_def)
  from options_payload_roundtrip [OF this, of default_message]
  obtain m' where "decode_options_and_payload (encode_options_and_payload ?m) default_message
      = Inr m'" "\<forall>n. option_values m' n = option_values ?m n"
    by (auto simp: default_message_def)
  then show ?thesis by (auto simp: option_values_def)
qed

text \<open>C32. Whatever bytes arrive, an accepted options-and-payload region has its option numbers in
  ascending order (no number wraps past 65535), holds no more option and payload bytes than the
  input had, and is a normal form: encoding it again decodes to the same message.\<close>

theorem decoded_message_is_normal:
  assumes "decode_options_and_payload buf m0 = Inr m" and "msg_options m0 = []"
    and "msg_payload m0 = []"
  shows "sorted (map fst (msg_options m))
    \<and> options_size (msg_options m) + length (msg_payload m) \<le> length buf
    \<and> decode_options_and_payload (encode_options_and_payload m) m0 = Inr m"
proof -
  from decode_options_loop_yields [OF assms(1) [unfolded decode_options_and_payload_def]] assms(2,3)
  have *: "sorted (map fst (msg_options m))" "encodable m" "msg_code m = msg_code m0"
    "msg_token m = msg_token m0"
    "options_size (msg_options m) + length (msg_payload m) \<le> length buf"
    by (auto simp: encodable_def)
  have "m0\<lparr>msg_options := sort_key fst (msg_options m), msg_payload := msg_payload m\<rparr> = m"
    using * by (simp add: sort_key_id_if_sorted)
  with * decode_encode_message [OF *(2) assms(2,3)] show ?thesis by simp
qed

theorem decoded_message_is_normal_witness:
  "decode_options_and_payload [0xB1, 5, 0xFF, 7] default_message
     = Inr (default_message\<lparr>msg_options := [(11, [5])], msg_payload := [7]\<rparr>)
   \<and> decode_options_and_payload (encode_options_and_payload
       (default_message\<lparr>msg_options := [(11, [5])], msg_payload := [7]\<rparr>)) default_message
     = Inr (default_message\<lparr>msg_options := [(11, [5])], msg_payload := [7]\<rparr>)"
proof -
  have d: "decode_options_and_payload [0xB1, 5, 0xFF, 7] default_message
      = Inr (default_message\<lparr>msg_options := [(11, [5])], msg_payload := [7]\<rparr>)"
    by (simp add: decode_options_and_payload_def decode_options_loop.simps read_nibble_ext_def
        push_option_def default_message_def)
  from decoded_message_is_normal [OF d] d show ?thesis by (simp add: default_message_def)
qed

text \<open>A delta that would carry the option number past 65535 is rejected as a bad encoding, it
  never wraps onto a smaller number: the extended delta is added at 32 bits before the check.\<close>

theorem option_number_overflow_rejected:
  assumes "byte \<noteq> 0xFF"
    and "read_nibble_ext (drop_bit 4 byte) buf = Inr (delta, buf1)"
    and "read_nibble_ext (byte AND 0x0F) buf1 = Inr (len, buf2)"
    and "unat len \<le> length buf2"
  shows "decode_options_loop number (byte # buf) m =
    (if unat number + unat delta > 65535 then Inl BadOptionEncoding
     else decode_options_loop (of_nat (unat number + unat delta)) (drop (unat len) buf2)
            (push_option (of_nat (unat number + unat delta)) (take (unat len) buf2) m))"
proof -
  have u: "unat (ucast number + delta) = unat number + unat delta"
    using read_nibble_ext_bound [OF assms(2)] unat_lt_u16 [of number]
    by (simp add: unat_word_ariths MAX_NIBBLE_VALUE_def)
  have "unat (ucast (ucast number + delta :: u32) :: u16) = (unat number + unat delta) mod 65536"
    by (simp only: unat_ucast_u32_u16 u)
  then have "ucast (ucast number + delta :: u32) = (of_nat (unat number + unat delta) :: u16)"
    by (simp only: word_unat_eq_iff unat_of_nat) simp
  moreover have "(ucast number + delta > (0xFFFF :: u32)) = (unat number + unat delta > 65535)"
    by (simp add: word_less_nat_alt u)
  ultimately show ?thesis
    using assms by (simp add: decode_options_loop.simps(2) Let_def)
qed

theorem option_number_overflow_rejected_witness:
  "decode_options_loop 0 [0xE0, 0xFF, 0xFF] default_message = Inl BadOptionEncoding"
proof -
  have r: "read_nibble_ext (drop_bit 4 0xE0) [0xFF, 0xFF] = Inr (65804, [])"
    by (simp add: read_nibble_ext_def u16_from_be_bytes_def)
  show ?thesis
    using option_number_overflow_rejected [of "0xE0" "[0xFF, 0xFF]" "65804" "[]" 0 "[]" 0 default_message, OF _ r]
    by (simp add: read_nibble_ext_def)
qed

text \<open>A uint option reads back the 32-bit value that was set, replacing earlier values of the
  same number and leaving every other option alone; its encoding has no leading zero byte.\<close>

theorem set_option_uint_reads_back:
  "option_uint (set_option_uint n v m) k = (if k = n then Some v else option_uint m k)
   \<and> option_values (set_option_uint n v m) k = (if k = n then [encode_uint v] else option_values m k)
   \<and> length (encode_uint v) \<le> 4 \<and> (encode_uint v = [] \<longleftrightarrow> v = 0) \<and> hd (encode_uint v @ [1]) \<noteq> 0"
proof -
  have "v = 0" if "encode_uint v = []"
    using uint_of_bytes_encode_uint [of v] that by (simp add: uint_of_bytes_def)
  moreover have "encode_uint 0 = []"
    by (simp add: encode_uint_def u32_to_be_bytes_def)
  moreover have "hd (dropWhile (\<lambda>b. b = 0) xs @ [1]) \<noteq> 0" for xs :: bytes
    by (induction xs) auto
  ultimately show ?thesis
    using length_encode_uint by (auto simp: option_uint_set option_values_set encode_uint_def)
qed

end
