(* ===== verification/Coap_Block.thy ===== *)
theory Coap_Block
  imports Rust_Str
begin

text \<open>
  \<open>loft/src/coap/block.rs\<close>: the RFC 7959 Block1/Block2 option value, block offsets and byte ranges,
  and the \<open>Content-Range\<close> parser of the firmware path. A block's \<open>num\<close> is a \<^typ>\<open>u32\<close> whose top
  four bits the wire value drops; sizes and offsets are \<open>nat\<close> (the sources compute them as
  \<open>usize\<close> and \<open>u64\<close>; for every size exponent that occurs, at most 6, they stay below \<open>2 ^ 42 + 2 ^ 10\<close>).
\<close>

record block =
  blk_num :: u32
  blk_more :: bool
  blk_szx :: u8

definition MAX_SZX :: u8 where "MAX_SZX = 6"

definition size_for :: "u8 \<Rightarrow> nat" where
  "size_for szx = 2 ^ (unat szx + 4)"

definition block_size :: "block \<Rightarrow> nat" where
  "block_size b = size_for (blk_szx b)"

definition block_offset :: "block \<Rightarrow> nat" where
  "block_offset b = unat (blk_num b) * block_size b"

definition block_decode :: "u32 \<Rightarrow> block option" where
  "block_decode value =
     (let szx = (ucast (value AND 0x7) :: u8)
      in Some \<lparr>blk_num = drop_bit 4 value, blk_more = (value AND 0x8 \<noteq> 0),
               blk_szx = min szx MAX_SZX\<rparr>)"

definition block_encode :: "block \<Rightarrow> u32" where
  "block_encode b =
     push_bit 4 (blk_num b) OR push_bit 3 (if blk_more b then 1 else 0)
     OR ucast (min (blk_szx b) MAX_SZX)"

definition saturating_mul :: "u32 \<Rightarrow> u32 \<Rightarrow> u32" where
  "saturating_mul a b = (if unat a * unat b < 2 ^ 32 then a * b else - 1)"

definition capped :: "block \<Rightarrow> u8 \<Rightarrow> block" where
  "capped b max_szx =
     (if blk_szx b \<le> max_szx then b
      else \<lparr>blk_num = saturating_mul (blk_num b) (push_bit (unat (blk_szx b - max_szx)) 1),
            blk_more = blk_more b, blk_szx = max_szx\<rparr>)"

definition byte_range :: "block \<Rightarrow> nat \<times> nat" where
  "byte_range b = (block_offset b, block_offset b + block_size b - 1)"

definition more_after :: "block \<Rightarrow> nat \<Rightarrow> bool" where
  "more_after b tot \<longleftrightarrow> block_offset b + block_size b < tot"

definition parse_content_range :: "bytes \<Rightarrow> (nat \<times> nat \<times> nat) option" where
  "parse_content_range value =
     (case strip_prefix (ascii ''bytes '') (trim value) of None \<Rightarrow> None
      | Some rest \<Rightarrow> (case split_once 47 rest of None \<Rightarrow> None
      | Some (rng, tot) \<Rightarrow> (case split_once 45 rng of None \<Rightarrow> None
      | Some (start, end') \<Rightarrow> (case parse_u64 (trim start) of None \<Rightarrow> None
      | Some s \<Rightarrow> (case parse_u64 (trim end') of None \<Rightarrow> None
      | Some e \<Rightarrow> (case parse_u64 (trim tot) of None \<Rightarrow> None
      | Some t \<Rightarrow> Some (s, e, t)))))))"

section \<open>Sizes\<close>

lemma size_for_pos [simp]: "0 < size_for s"
  by (simp add: size_for_def)

lemma block_size_pos [simp]: "0 < block_size b"
  by (simp add: block_size_def)

lemma size_for_le: "s \<le> MAX_SZX \<Longrightarrow> 16 \<le> size_for s \<and> size_for s \<le> 1024"
proof -
  assume "s \<le> MAX_SZX"
  then have "unat s + 4 \<le> 10" by (simp add: MAX_SZX_def word_le_nat_alt)
  then have "(2::nat) ^ (unat s + 4) \<le> 2 ^ 10" by (rule power_increasing) simp
  moreover have "(2::nat) ^ 4 \<le> 2 ^ (unat s + 4)" by (rule power_increasing) simp_all
  ultimately show ?thesis by (simp add: size_for_def)
qed

lemma size_for_mono: "s \<le> t \<Longrightarrow> size_for s \<le> size_for t"
  by (simp add: size_for_def word_le_nat_alt power_increasing)

lemma size_for_split: "t \<le> s \<Longrightarrow> size_for s = 2 ^ unat (s - t) * size_for t"
  by (simp add: size_for_def unat_sub word_le_nat_alt flip: power_add)

section \<open>The option value\<close>

lemma block_decode_szx: "block_decode v = Some b \<Longrightarrow> blk_szx b \<le> MAX_SZX"
  by (auto simp: block_decode_def)

lemma block_decode_num: "block_decode v = Some b \<Longrightarrow> unat (blk_num b) < 2 ^ 28"
  using unat_lt_u32 [of v]
  by (auto simp: block_decode_def unsigned_drop_bit_eq drop_bit_eq_div unat_div)

lemma bit_above:
  assumes "unat (x :: 'a :: len word) < 2 ^ k" and "k \<le> n"
  shows "\<not> bit x n"
proof -
  have "unat x = take_bit k (unat x)" using assms(1) by (simp add: take_bit_nat_eq_self)
  then have "bit (unat x) n = bit (take_bit k (unat x)) n" by simp
  then have "\<not> bit (unat x) n" using assms(2) by (simp add: bit_take_bit_iff)
  then show ?thesis by (simp add: bit_unsigned_iff)
qed

lemma bit_3_and_8: "(v AND 8 \<noteq> 0) = bit (v :: u32) 3"
  using bit_iff_and_push_bit_not_eq_0 [of v 3] by (simp add: push_bit_eq_mult)

lemma block_decode_encode_gen:
  "block_decode (block_encode b)
    = Some \<lparr>blk_num = take_bit 28 (blk_num b), blk_more = blk_more b,
            blk_szx = min (blk_szx b) MAX_SZX\<rparr>"
proof -
  let ?s = "min (blk_szx b) MAX_SZX"
  have "unat ?s \<le> 6" by (simp add: MAX_SZX_def min_def word_le_nat_alt)
  then have s3: "\<not> bit ?s n" if "3 \<le> n" for n
    using that by (intro bit_above [of _ 3]) auto
  have low: "(ucast (block_encode b AND 7) :: u8) = ?s"
  proof (rule bit_word_eqI)
    fix n assume "n < LENGTH(8)"
    have m7: "(7 :: u32) = mask 3" by (simp add: mask_eq_exp_minus_1)
    have "bit (7 :: u32) n \<longleftrightarrow> n < 3"
      unfolding m7 bit_mask_iff using \<open>n < LENGTH(8)\<close> by auto
    then show "bit (ucast (block_encode b AND 7) :: u8) n = bit ?s n"
      using s3 [of n] \<open>n < LENGTH(8)\<close> by (auto simp: block_encode_def bit_simps not_le [symmetric])
  qed
  have more: "(block_encode b AND 8 \<noteq> 0) = blk_more b"
    using s3 [of 3] by (auto simp: bit_3_and_8 block_encode_def bit_simps)
  have high: "drop_bit 4 (block_encode b) = take_bit 28 (blk_num b)"
  proof (rule bit_word_eqI)
    fix n assume "n < LENGTH(32)"
    then show "bit (drop_bit 4 (block_encode b)) n = bit (take_bit 28 (blk_num b)) n"
      using s3 [of "4 + n"] by (auto simp: block_encode_def bit_simps)
  qed
  show ?thesis
    using low more high by (simp add: block_decode_def)
qed

lemma block_decode_encode:
  assumes "unat (blk_num b) < 2 ^ 28" and "blk_szx b \<le> MAX_SZX"
  shows "block_decode (block_encode b) = Some b"
proof -
  have "take_bit 28 (blk_num b) = blk_num b"
    using assms(1) by (simp add: word_unat_eq_iff unsigned_take_bit_eq take_bit_nat_eq_self)
  then show ?thesis using assms(2) by (simp add: block_decode_encode_gen)
qed

section \<open>Properties\<close>

text \<open>The Block option value round-trips for every block the wire can carry (28-bit number, size
  exponent at most 6), and in general it keeps exactly the low 28 bits of the number and caps the
  exponent at 6.\<close>

theorem block_option_roundtrip:
  assumes "unat (blk_num b) < 2 ^ 28" and "blk_szx b \<le> MAX_SZX"
  shows "block_decode (block_encode b) = Some b
    \<and> (\<forall>b'. block_decode (block_encode b')
        = Some \<lparr>blk_num = take_bit 28 (blk_num b'), blk_more = blk_more b',
                blk_szx = min (blk_szx b') MAX_SZX\<rparr>)"
  using block_decode_encode [OF assms] block_decode_encode_gen by blast

theorem block_option_roundtrip_witness:
  "block_decode (block_encode \<lparr>blk_num = 100000, blk_more = True, blk_szx = 2\<rparr>)
    = Some \<lparr>blk_num = 100000, blk_more = True, blk_szx = 2\<rparr>"
  using block_option_roundtrip [of "\<lparr>blk_num = 100000, blk_more = True, blk_szx = 2\<rparr>"]
  by (simp add: MAX_SZX_def)

lemma unat_shift_one: "k \<le> 6 \<Longrightarrow> unat (push_bit k 1 :: u32) = 2 ^ k"
proof -
  assume "k \<le> 6"
  then have "k \<in> {0, 1, 2, 3, 4, 5, 6}" by auto
  then show ?thesis by auto
qed

lemma capped_unsaturated:
  assumes "max_szx < blk_szx b" and "blk_szx b \<le> MAX_SZX"
    and "unat (blk_num b) * 2 ^ unat (blk_szx b - max_szx) < 2 ^ 32"
  shows "unat (blk_num (capped b max_szx)) = unat (blk_num b) * 2 ^ unat (blk_szx b - max_szx)"
proof -
  let ?k = "unat (blk_szx b - max_szx)"
  have "?k \<le> 6"
    using assms(1,2) by (simp add: unat_sub word_le_nat_alt word_less_nat_alt MAX_SZX_def)
  then have p: "unat (push_bit ?k 1 :: u32) = 2 ^ ?k" by (rule unat_shift_one)
  show ?thesis
    using assms p by (simp add: capped_def saturating_mul_def unat_word_ariths not_le [symmetric])
qed

text \<open>Re-expressing a requested block at a smaller size keeps the byte offset it asked for, and
  never enlarges the size; a number too large for 32 bits saturates at the largest one, so the
  offset stays past 64 GiB instead of wrapping to a small one.\<close>

theorem capped_keeps_offset:
  assumes "blk_szx b \<le> MAX_SZX"
  shows "blk_szx (capped b max_szx) = min (blk_szx b) max_szx
    \<and> blk_more (capped b max_szx) = blk_more b
    \<and> (if unat (blk_num b) * 2 ^ unat (blk_szx b - min (blk_szx b) max_szx) < 2 ^ 32
       then block_offset (capped b max_szx) = block_offset b
       else blk_num (capped b max_szx) = - 1 \<and> (2 ^ 32 - 1) * 16 \<le> block_offset (capped b max_szx))"
proof (cases "blk_szx b \<le> max_szx")
  case True
  then show ?thesis using unat_lt_u32 [of "blk_num b"] by (simp add: capped_def)
next
  case False
  then have lt: "max_szx < blk_szx b" by simp
  then have m: "min (blk_szx b) max_szx = max_szx" by simp
  have szx: "blk_szx (capped b max_szx) = max_szx" using False by (simp add: capped_def)
  let ?k = "unat (blk_szx b - max_szx)"
  show ?thesis
  proof (cases "unat (blk_num b) * 2 ^ ?k < 2 ^ 32")
    case True
    have "block_offset (capped b max_szx) = block_offset b"
      using capped_unsaturated [OF lt assms True] size_for_split [of max_szx "blk_szx b"] lt
      by (simp add: block_offset_def block_size_def szx)
    with True m szx False show ?thesis by (simp add: capped_def)
  next
    case sat: False
    have "?k \<le> 6"
      using lt assms by (simp add: unat_sub word_le_nat_alt word_less_nat_alt MAX_SZX_def)
    then have p: "unat (push_bit ?k 1 :: u32) = 2 ^ ?k" by (rule unat_shift_one)
    have num: "blk_num (capped b max_szx) = - 1"
      using False sat p by (simp add: capped_def saturating_mul_def)
    have "max_szx \<le> MAX_SZX" using lt assms by simp
    then have "16 \<le> block_size (capped b max_szx)"
      using size_for_le by (simp add: block_size_def szx)
    then have "(2 ^ 32 - 1) * 16 \<le> block_offset (capped b max_szx)"
      by (simp add: block_offset_def num unsigned_minus_1_eq_mask mask_eq_exp_minus_1)
    with num sat m szx False show ?thesis by (simp add: capped_def)
  qed
qed

theorem capped_keeps_offset_witness:
  "block_offset (capped \<lparr>blk_num = 7, blk_more = False, blk_szx = 6\<rparr> 4) = 7168"
  using capped_keeps_offset [of "\<lparr>blk_num = 7, blk_more = False, blk_szx = 6\<rparr>" 4]
  by (simp add: MAX_SZX_def block_offset_def [of "\<lparr>blk_num = 7, blk_more = False, blk_szx = 6\<rparr>"]
      block_size_def size_for_def)

text \<open>The encoded value of a capped block can name another block: number \<open>2 ^ 27\<close> asked for at
  1024 bytes becomes number \<open>2 ^ 28\<close> at 512 bytes, past the 28 bits the option has, and its option
  value reads back as block 0.\<close>

theorem capped_number_wraps_when_encoded:
  "block_decode (2 ^ 31 + 6) = Some \<lparr>blk_num = 2 ^ 27, blk_more = False, blk_szx = 6\<rparr>
   \<and> capped \<lparr>blk_num = 2 ^ 27, blk_more = False, blk_szx = 6\<rparr> 5
       = \<lparr>blk_num = 2 ^ 28, blk_more = False, blk_szx = 5\<rparr>
   \<and> block_decode (block_encode \<lparr>blk_num = 2 ^ 28, blk_more = False, blk_szx = 5\<rparr>)
       = Some \<lparr>blk_num = 0, blk_more = False, blk_szx = 5\<rparr>"
  by (simp add: block_decode_encode_gen) (simp add: block_decode_def capped_def saturating_mul_def
      MAX_SZX_def)

lemma digit_ne: "is_digit d \<Longrightarrow> d \<noteq> 45 \<and> d \<noteq> 47"
  by (auto simp: is_digit_def)

text \<open>The text of a well-formed header.\<close>

definition content_range_text :: "nat \<Rightarrow> nat \<Rightarrow> nat \<Rightarrow> bytes" where
  "content_range_text s e t =
     ascii ''bytes '' @ show_unsigned s @ 45 # show_unsigned e @ 47 # show_unsigned t"

lemma parse_content_range_text:
  assumes "s < 2 ^ 64" and "e < 2 ^ 64" and "t < 2 ^ 64"
  shows "parse_content_range (content_range_text s e t) = Some (s, e, t)"
proof -
  let ?v = "ascii ''bytes '' @ show_unsigned s @ 45 # show_unsigned e @ 47 # show_unsigned t"
  have "is_digit (last ?v)"
    using show_unsigned_digits [of t] show_unsigned_digit_set last_in_set by fastforce
  then have "trim ?v = ?v"
    using whitespace_not_digit by (intro trim_plain) (auto simp: whitespace_def)
  moreover have "strip_prefix (ascii ''bytes '') ?v
      = Some (show_unsigned s @ 45 # show_unsigned e @ 47 # show_unsigned t)"
    by (simp add: strip_prefix_def)
  moreover have "split_once 47 (show_unsigned s @ 45 # show_unsigned e @ 47 # show_unsigned t)
      = Some (show_unsigned s @ 45 # show_unsigned e, show_unsigned t)"
    using split_once_append [of 47 "show_unsigned s @ 45 # show_unsigned e" "show_unsigned t"]
    by (auto dest!: show_unsigned_digit_set digit_ne)
  moreover have "split_once 45 (show_unsigned s @ 45 # show_unsigned e)
      = Some (show_unsigned s, show_unsigned e)"
    by (rule split_once_append) (auto dest!: show_unsigned_digit_set digit_ne)
  ultimately show ?thesis
    using assms
    by (simp add: content_range_text_def parse_content_range_def trim_show_unsigned parse_u64_def parse_show
        del: ascii_Cons ascii_Nil append.simps)
qed

text \<open>The \<open>Content-Range\<close> parser reads back the three numbers of a well-formed header.\<close>

theorem content_range_roundtrip:
  assumes "s < 2 ^ 64" and "e < 2 ^ 64" and "t < 2 ^ 64"
  shows "parse_content_range
      (ascii ''bytes '' @ show_unsigned s @ 45 # show_unsigned e @ 47 # show_unsigned t)
    = Some (s, e, t)"
  using parse_content_range_text [OF assms] unfolding content_range_text_def .

theorem content_range_roundtrip_witness:
  "parse_content_range
     (ascii ''bytes '' @ show_unsigned 1024 @ 45 # show_unsigned 2047 @ 47 # show_unsigned 523776)
   = Some (1024, 2047, 523776)"
  by (rule content_range_roundtrip) simp_all

end
