(* ===== verification/Upstream.thy ===== *)
theory Upstream
  imports Rust_Str
begin

text \<open>
  \<open>loft/src/upstream.rs\<close>: the client for dovecote's device routes. The HTTP library is a parameter,
  \<open>send\<close>: it takes the request the code builds and yields an error or a reply. A reply's \<open>rp_header\<close>
  is the library's header lookup followed by its \<open>to_str\<close> (None when absent or not a string), and
  \<open>rp_bytes\<close> the result of reading the body. Texts are their UTF-8 bytes.
\<close>

datatype upstream_method = Get | Post

record upstream_response =
  up_status :: nat
  up_body :: bytes
  up_content_range :: "bytes option"
  up_firmware_size :: "nat option"
  up_firmware_sha256 :: "bytes option"

record http_request =
  rq_method :: upstream_method
  rq_url :: bytes
  rq_headers :: "(bytes \<times> bytes) list"
  rq_body :: "bytes option"

record http_reply =
  rp_status :: nat
  rp_header :: "bytes \<Rightarrow> bytes option"
  rp_bytes :: "bytes + bytes"

text \<open>\<open>base_url.trim_end_matches('/')\<close> of \<open>Dovecote::new\<close>; the timeouts are the library's to keep.\<close>

definition dovecote_base_url :: "bytes \<Rightarrow> bytes" where
  "dovecote_base_url base = trim_end_matches 47 base"

definition device_http_request ::
  "bytes \<Rightarrow> upstream_method \<Rightarrow> bytes \<Rightarrow> bytes \<Rightarrow> bytes \<Rightarrow> (nat \<times> nat) option \<Rightarrow> (bytes \<times> bytes) option
   \<Rightarrow> http_request" where
  "device_http_request base_url method pigeon_id leaf bearer byte_range body =
     \<lparr>rq_method = method,
      rq_url = base_url @ ascii ''/device/pigeons/'' @ pigeon_id @ ascii ''/'' @ leaf,
      rq_headers =
        [(ascii ''Authorization'', ascii ''Bearer '' @ bearer)]
        @ (case byte_range of None \<Rightarrow> []
           | Some (start, end') \<Rightarrow>
               [(ascii ''Range'', ascii ''bytes='' @ show_unsigned start @ ascii ''-'' @ show_unsigned end')])
        @ (case body of None \<Rightarrow> [] | Some (_, content_type) \<Rightarrow> [(ascii ''Content-Type'', content_type)]),
      rq_body = map_option fst body\<rparr>"

definition device_request ::
  "(http_request \<Rightarrow> bytes + http_reply) \<Rightarrow> bytes \<Rightarrow> upstream_method \<Rightarrow> bytes \<Rightarrow> bytes \<Rightarrow> bytes
   \<Rightarrow> (nat \<times> nat) option \<Rightarrow> (bytes \<times> bytes) option \<Rightarrow> bytes + upstream_response" where
  "device_request send base_url method pigeon_id leaf bearer byte_range body =
     (case send (device_http_request base_url method pigeon_id leaf bearer byte_range body) of
        Inl e \<Rightarrow> Inl (ascii ''upstream: '' @ e)
      | Inr reply \<Rightarrow>
          (case rp_bytes reply of
             Inl e \<Rightarrow> Inl (ascii ''upstream body: '' @ e)
           | Inr bs \<Rightarrow>
               Inr \<lparr>up_status = rp_status reply,
                    up_body = bs,
                    up_content_range = rp_header reply (ascii ''Content-Range''),
                    up_firmware_size =
                      Option.bind (rp_header reply (ascii ''X-Firmware-Size'')) parse_u64,
                    up_firmware_sha256 = rp_header reply (ascii ''X-Firmware-Sha256'')\<rparr>))"

lemma device_request_Inr:
  assumes "device_request send base m pid leaf tok r b = Inr u"
  shows "\<exists>rp. send (device_http_request base m pid leaf tok r b) = Inr rp
    \<and> rp_bytes rp = Inr (up_body u) \<and> up_status u = rp_status rp
    \<and> up_firmware_size u = Option.bind (rp_header rp (ascii ''X-Firmware-Size'')) parse_u64"
  using assms unfolding device_request_def by (auto split: sum.splits)

section \<open>Properties\<close>

text \<open>Every device request is authorised by the bearer token it was given and by nothing else, goes
  to the path of the pigeon it was given, carries a body exactly when one is passed, and a failed
  exchange or body read is an error, never a response; a malformed firmware size reads as absent.\<close>

theorem device_request_authorised:
  "(\<exists>more. rq_headers (device_http_request base m pid leaf tok r b)
        = (ascii ''Authorization'', ascii ''Bearer '' @ tok) # more
      \<and> ascii ''Authorization'' \<notin> fst ` set more)
   \<and> rq_url (device_http_request base m pid leaf tok r b)
      = base @ ascii ''/device/pigeons/'' @ pid @ ascii ''/'' @ leaf
   \<and> (rq_body (device_http_request base m pid leaf tok r b) = None \<longleftrightarrow> b = None)
   \<and> (\<forall>u. device_request send base m pid leaf tok r b = Inr u \<longrightarrow>
        (\<exists>rp. send (device_http_request base m pid leaf tok r b) = Inr rp
          \<and> rp_bytes rp = Inr (up_body u) \<and> up_status u = rp_status rp
          \<and> (\<forall>n. up_firmware_size u = Some n \<longrightarrow> n < 2 ^ 64
               \<and> (\<exists>t. rp_header rp (ascii ''X-Firmware-Size'') = Some t \<and> parse_u64 t = Some n))))"
proof (intro conjI allI impI)
  show "\<exists>more. rq_headers (device_http_request base m pid leaf tok r b)
        = (ascii ''Authorization'', ascii ''Bearer '' @ tok) # more
      \<and> ascii ''Authorization'' \<notin> fst ` set more"
    by (auto simp: device_http_request_def split: option.splits)
  fix u assume "device_request send base m pid leaf tok r b = Inr u"
  from device_request_Inr [OF this] show "\<exists>rp. send (device_http_request base m pid leaf tok r b)
        = Inr rp
      \<and> rp_bytes rp = Inr (up_body u) \<and> up_status u = rp_status rp
      \<and> (\<forall>n. up_firmware_size u = Some n \<longrightarrow> n < 2 ^ 64
           \<and> (\<exists>t. rp_header rp (ascii ''X-Firmware-Size'') = Some t \<and> parse_u64 t = Some n))"
    by (auto simp: bind_eq_Some_conv parse_u64_def dest: parse_unsigned_bound)
qed (simp_all add: device_http_request_def)

theorem device_request_authorised_witness:
  "rq_url (device_http_request (ascii ''https://x'') Get (ascii ''p1'') (ascii ''state'') [116] None None)
   = ascii ''https://x/device/pigeons/p1/state''"
  using device_request_authorised [of "ascii ''https://x''" Get "ascii ''p1''" "ascii ''state''" "[116]"
      None None]
  by (simp add: ascii_def)

end
