(* ===== verification/Socket_Addr.thy ===== *)
theory Socket_Addr
  imports Rust_Str
begin

text \<open>
  The standard library's addresses: \<open>IpAddr\<close> and \<open>SocketAddr\<close>, their octets, the fold of an IPv4-mapped
  address, and \<open>FromStr for SocketAddr\<close> as the library's recursive-descent parser. A \<open>SocketAddr\<close> is its
  address and port; the scope id a literal may carry is kept beside it, for binding. Lemmas: octets
  and port determine the address, and literals are read back.
\<close>

section \<open>Addresses\<close>

datatype ip_addr = V4 "32 word" | V6 "128 word"

record socket_addr =
  sa_ip :: ip_addr
  sa_port :: u16

text \<open>\<open>Ipv6Addr::to_ipv4_mapped\<close>: \<open>::ffff:a.b.c.d\<close>, and \<open>IpAddr::to_canonical\<close>.\<close>

definition to_ipv4_mapped :: "128 word \<Rightarrow> 32 word option" where
  "to_ipv4_mapped a = (if drop_bit 32 a = 0xFFFF then Some (ucast a) else None)"

fun to_canonical :: "ip_addr \<Rightarrow> ip_addr" where
  "to_canonical (V4 a) = V4 a"
| "to_canonical (V6 a) = (case to_ipv4_mapped a of Some v4 \<Rightarrow> V4 v4 | None \<Rightarrow> V6 a)"

lemma to_canonical_idem [simp]: "to_canonical (to_canonical a) = to_canonical a"
  by (cases a) (auto split: option.split)

text \<open>\<open>Ipv4Addr::octets\<close>, \<open>Ipv6Addr::octets\<close>, and addresses made from octets.\<close>

definition v6_octets :: "128 word \<Rightarrow> bytes" where
  "v6_octets a = map (\<lambda>i. ucast (drop_bit (8 * (15 - i)) a)) [0..<16]"

fun ip_octets :: "ip_addr \<Rightarrow> bytes" where
  "ip_octets (V4 a) = u32_to_be_bytes a"
| "ip_octets (V6 a) = v6_octets a"

definition v6_from_octets :: "bytes \<Rightarrow> 128 word" where
  "v6_from_octets = word_rcat"

lemma length_v6_octets [simp]: "length (v6_octets a) = 16"
  by (simp add: v6_octets_def del: upt_rec_numeral)

lemma v6_octets_roundtrip: "v6_from_octets (v6_octets a) = a"
proof (rule bit_word_eqI)
  fix n assume n: "n < LENGTH(128)"
  then have "n div 8 < 16" by auto
  then have "[0..<16] ! (15 - n div 8) = 15 - n div 8" by (subst nth_upt) auto
  then have nth: "rev (v6_octets a) ! (n div 8) = ucast (drop_bit (8 * (n div 8)) a)"
    using \<open>n div 8 < 16\<close> by (simp add: v6_octets_def rev_nth del: upt_rec_numeral)
  have "bit (v6_from_octets (v6_octets a)) n
      \<longleftrightarrow> bit (horner_sum uint (2 ^ LENGTH(8)) (rev (v6_octets a)) :: int) n"
    using n by (simp add: v6_from_octets_def word_rcat_def bit_word_of_int_iff)
  also have "\<dots> \<longleftrightarrow> bit (ucast (drop_bit (8 * (n div 8)) a) :: u8) (n mod 8)"
    unfolding bit_horner_sum_uint_exp_iff using nth \<open>n div 8 < 16\<close> by simp
  also have "\<dots> \<longleftrightarrow> bit a n"
    by (simp add: bit_simps)
  finally show "bit (v6_from_octets (v6_octets a)) n = bit a n" .
qed

lemma length_ip_octets: "length (ip_octets ip) = (case ip of V4 _ \<Rightarrow> 4 | V6 _ \<Rightarrow> 16)"
  by (cases ip) simp_all

lemma u32_to_be_bytes_inj:
  assumes "u32_to_be_bytes x = u32_to_be_bytes y"
  shows "x = y"
proof -
  define dec where
    "dec = (\<lambda>bs :: bytes. u32_from_be_bytes (bs ! 0) (bs ! 1) (bs ! 2) (bs ! 3))"
  have "dec (u32_to_be_bytes z) = z" for z
    unfolding dec_def u32_to_be_bytes_def by (simp add: u32_be_roundtrip)
  with arg_cong [OF assms, of dec] show ?thesis by simp
qed

lemma u16_to_be_bytes_inj:
  assumes "u16_to_be_bytes x = u16_to_be_bytes y"
  shows "x = y"
proof -
  define dec where "dec = (\<lambda>bs :: bytes. u16_from_be_bytes (bs ! 0) (bs ! 1))"
  have "dec (u16_to_be_bytes z) = z" for z
    unfolding dec_def u16_to_be_bytes_def by (simp add: u16_be_roundtrip)
  with arg_cong [OF assms, of dec] show ?thesis by simp
qed

lemma v6_octets_inj: "v6_octets x = v6_octets y \<Longrightarrow> x = y"
  by (drule arg_cong [of _ _ v6_from_octets]) (simp only: v6_octets_roundtrip)

lemma ip_octets_inj:
  assumes eq: "ip_octets a = ip_octets b"
  shows "a = b"
proof -
  have len: "(case a of V4 _ \<Rightarrow> 4 | V6 _ \<Rightarrow> 16) = (case b of V4 _ \<Rightarrow> 4 | V6 _ \<Rightarrow> (16 :: nat))"
    using length_ip_octets [of a] length_ip_octets [of b] eq by simp
  show ?thesis
  proof (cases a)
    case (V4 x)
    with len obtain y where "b = V4 y" by (cases b) auto
    with V4 eq u32_to_be_bytes_inj [of x y] show ?thesis by simp
  next
    case (V6 x)
    with len obtain y where "b = V6 y" by (cases b) auto
    with V6 eq v6_octets_inj [of x y] show ?thesis by simp
  qed
qed

text \<open>
  The encoding of an address both DTLS listeners bind their cookies to: the octets, then the
  port. Equal encodings come from equal addresses.
\<close>

lemma socket_addr_bytes_inj:
  assumes "ip_octets (sa_ip p) @ u16_to_be_bytes (sa_port p)
    = ip_octets (sa_ip r) @ u16_to_be_bytes (sa_port r)"
  shows "p = (r :: socket_addr)"
proof -
  have "length (ip_octets (sa_ip p)) = length (ip_octets (sa_ip r))"
    using arg_cong [OF assms, of length] by simp
  with assms have "sa_ip p = sa_ip r" "sa_port p = sa_port r"
    using ip_octets_inj u16_to_be_bytes_inj by auto
  then show ?thesis by (simp add: socket_addr.equality)
qed

section \<open>Parsing\<close>

text \<open>
  \<open>FromStr for SocketAddr\<close>, as the standard library parses it: a value read is returned with the rest
  of the text, a failed reader leaves the text as it was. \<open>read_separator\<close> reads its separator before
  every element but the first.
\<close>

definition to_digit :: "nat \<Rightarrow> u8 \<Rightarrow> nat option" where
  "to_digit radix b = (case hex_digit b of
     Some d \<Rightarrow> if d < radix then Some d else None
   | None \<Rightarrow> None)"

fun read_given_char :: "u8 \<Rightarrow> bytes \<Rightarrow> bytes option" where
  "read_given_char t [] = None"
| "read_given_char t (c # s) = (if c = t then Some s else None)"

fun read_digits :: "nat \<Rightarrow> nat option \<Rightarrow> nat \<Rightarrow> nat \<Rightarrow> nat \<Rightarrow> bytes \<Rightarrow> (nat \<times> nat \<times> bytes) option" where
  "read_digits radix max_digits bound result count [] = Some (result, count, [])"
| "read_digits radix max_digits bound result count (b # s) = (case to_digit radix b of
     None \<Rightarrow> Some (result, count, b # s)
   | Some d \<Rightarrow>
       if (case max_digits of Some m \<Rightarrow> m < count + 1 | None \<Rightarrow> bound \<le> result * radix + d) then None
       else read_digits radix max_digits bound (result * radix + d) (count + 1) s)"

definition read_number :: "nat \<Rightarrow> nat option \<Rightarrow> bool \<Rightarrow> nat \<Rightarrow> bytes \<Rightarrow> (nat \<times> bytes) option" where
  "read_number radix max_digits allow_zero_prefix bound s =
     (case read_digits radix max_digits bound 0 0 s of
        None \<Rightarrow> None
      | Some (result, count, rest) \<Rightarrow>
          if count = 0 then None
          else if \<not> allow_zero_prefix \<and> take 1 s = [48] \<and> 1 < count then None
          else if result < bound then Some (result, rest) else None)"

definition read_separator :: "u8 \<Rightarrow> nat \<Rightarrow> (bytes \<Rightarrow> 'a option) \<Rightarrow> bytes \<Rightarrow> 'a option" where
  "read_separator sep i inner s =
     (if 0 < i then Option.bind (read_given_char sep s) inner else inner s)"

fun read_octets :: "nat list \<Rightarrow> bytes \<Rightarrow> (bytes \<times> bytes) option" where
  "read_octets [] s = Some ([], s)"
| "read_octets (i # is) s = (case read_separator 46 i (read_number 10 (Some 3) False 256) s of
     None \<Rightarrow> None
   | Some (n, s1) \<Rightarrow> (case read_octets is s1 of
       None \<Rightarrow> None
     | Some (ns, s2) \<Rightarrow> Some (of_nat n # ns, s2)))"

definition read_ipv4_addr :: "bytes \<Rightarrow> (bytes \<times> bytes) option" where
  "read_ipv4_addr = read_octets [0, 1, 2, 3]"

text \<open>\<open>read_groups\<close>: the groups read, whether the last two were a dotted address, and the rest.\<close>

fun read_groups :: "nat \<Rightarrow> nat list \<Rightarrow> bytes \<Rightarrow> u16 list \<times> bool \<times> bytes" where
  "read_groups limit [] s = ([], False, s)"
| "read_groups limit (i # is) s =
     (case (if i < limit - 1 then read_separator 58 i read_ipv4_addr s else None) of
        Some (v4, s1) \<Rightarrow>
          ([u16_from_be_bytes (v4 ! 0) (v4 ! 1), u16_from_be_bytes (v4 ! 2) (v4 ! 3)], True, s1)
      | None \<Rightarrow> (case read_separator 58 i (read_number 16 (Some 4) True 65536) s of
          None \<Rightarrow> ([], False, s)
        | Some (g, s1) \<Rightarrow> (case read_groups limit is s1 of (gs, v4, s2) \<Rightarrow> (of_nat g # gs, v4, s2))))"

definition read_ipv6_addr :: "bytes \<Rightarrow> (u16 list \<times> bytes) option" where
  "read_ipv6_addr s = (case read_groups 8 [0..<8] s of (head, head_ipv4, s1) \<Rightarrow>
     if length head = 8 then Some (head, s1)
     else if head_ipv4 then None
     else (case Option.bind (read_given_char 58 s1) (read_given_char 58) of
         None \<Rightarrow> None
       | Some s2 \<Rightarrow>
           let limit = 8 - (length head + 1) in
           (case read_groups limit [0..<limit] s2 of (tail, _, s3) \<Rightarrow>
             Some (head @ replicate (8 - length head - length tail) 0 @ tail, s3))))"

definition read_port :: "bytes \<Rightarrow> (nat \<times> bytes) option" where
  "read_port s = Option.bind (read_given_char 58 s) (read_number 10 None True 65536)"

definition read_scope_id :: "bytes \<Rightarrow> (nat \<times> bytes) option" where
  "read_scope_id s = Option.bind (read_given_char 37 s) (read_number 10 None True (2 ^ 32))"

text \<open>A socket address with the scope id of an IPv6 one, which binding passes on.\<close>

type_synonym scoped_addr = "socket_addr \<times> u32"

definition read_socket_addr_v4 :: "bytes \<Rightarrow> (scoped_addr \<times> bytes) option" where
  "read_socket_addr_v4 s = (case read_ipv4_addr s of
     None \<Rightarrow> None
   | Some (v4, s1) \<Rightarrow> (case read_port s1 of
       None \<Rightarrow> None
     | Some (port, s2) \<Rightarrow>
         Some ((\<lparr>sa_ip = V4 (u32_from_be_bytes (v4 ! 0) (v4 ! 1) (v4 ! 2) (v4 ! 3)), sa_port = of_nat port\<rparr>,
                0), s2)))"

definition read_socket_addr_v6 :: "bytes \<Rightarrow> (scoped_addr \<times> bytes) option" where
  "read_socket_addr_v6 s = (case Option.bind (read_given_char 91 s) read_ipv6_addr of
     None \<Rightarrow> None
   | Some (groups, s1) \<Rightarrow>
       (case (case read_scope_id s1 of Some (n, s2) \<Rightarrow> (n, s2) | None \<Rightarrow> (0, s1)) of (scope_id, s2) \<Rightarrow>
       (case Option.bind (read_given_char 93 s2) read_port of
          None \<Rightarrow> None
        | Some (port, s3) \<Rightarrow>
            Some ((\<lparr>sa_ip = V6 (v6_from_octets (concat (map u16_to_be_bytes groups))),
                   sa_port = of_nat port\<rparr>, of_nat scope_id), s3))))"

definition parse_socket_addr :: "bytes \<Rightarrow> scoped_addr option" where
  "parse_socket_addr s =
     (case (case read_socket_addr_v4 s of None \<Rightarrow> read_socket_addr_v6 s | r \<Rightarrow> r) of
        Some (a, []) \<Rightarrow> Some a
      | _ \<Rightarrow> None)"

section \<open>Literals read back\<close>

abbreviation digits_value :: "nat \<Rightarrow> nat \<Rightarrow> bytes \<Rightarrow> nat" where
  "digits_value radix acc ds \<equiv> foldl (\<lambda>a b. a * radix + the (to_digit radix b)) acc ds"

lemma digits_value_mono: "0 < radix \<Longrightarrow> acc \<le> digits_value radix acc ds"
proof (induction ds arbitrary: acc)
  case (Cons b ds)
  have "acc \<le> acc * radix" using Cons.prems by simp
  also have "\<dots> \<le> acc * radix + the (to_digit radix b)" by simp
  also have "\<dots> \<le> digits_value radix (acc * radix + the (to_digit radix b)) ds" using Cons by simp
  finally show ?case by simp
qed simp

lemma read_digits_text:
  assumes "\<forall>b \<in> set ds. to_digit radix b \<noteq> None" and "case rest of [] \<Rightarrow> True | c # _ \<Rightarrow> to_digit radix c = None"
    and "0 < radix"
    and "case max_digits of Some m \<Rightarrow> count + length ds \<le> m | None \<Rightarrow> digits_value radix acc ds < bound"
  shows "read_digits radix max_digits bound acc count (ds @ rest)
    = Some (digits_value radix acc ds, count + length ds, rest)"
  using assms
proof (induction ds arbitrary: acc count)
  case Nil
  then show ?case by (cases rest) auto
next
  case (Cons b ds)
  then obtain v where v: "to_digit radix b = Some v" by auto
  have "acc * radix + v \<le> digits_value radix (acc * radix + v) ds" using Cons.prems(3) by (rule digits_value_mono)
  with Cons v show ?case by (cases max_digits) auto
qed

lemma read_number_text:
  assumes "\<forall>b \<in> set ds. to_digit radix b \<noteq> None" and "case rest of [] \<Rightarrow> True | c # _ \<Rightarrow> to_digit radix c = None"
    and "0 < radix" and "ds \<noteq> []" and "digits_value radix 0 ds < bound"
    and "case max_digits of Some m \<Rightarrow> length ds \<le> m | None \<Rightarrow> True"
    and "allow_zero_prefix \<or> length ds = 1 \<or> hd ds \<noteq> 48"
  shows "read_number radix max_digits allow_zero_prefix bound (ds @ rest)
    = Some (digits_value radix 0 ds, rest)"
proof -
  have "read_digits radix max_digits bound 0 0 (ds @ rest) = Some (digits_value radix 0 ds, length ds, rest)"
    using read_digits_text [OF assms(1-3), where max_digits = max_digits and count = 0 and acc = 0 and bound = bound] assms(5,6) by (cases max_digits) auto
  moreover have "take 1 (ds @ rest) = [hd ds]" using assms(4) by (cases ds) auto
  ultimately show ?thesis using assms(4,5,7) by (auto simp: read_number_def)
qed

text \<open>The digits \<open>Display\<close> and \<open>{:x}\<close> write.\<close>

lemma to_digit_decimal: "d < 10 \<Longrightarrow> 10 \<le> radix \<Longrightarrow> to_digit radix (of_nat (48 + d)) = Some d"
  using digit_byte [of d] by (simp add: to_digit_def hex_digit_def is_digit_def)

lemma show_unsigned_value:
  "(\<forall>b \<in> set (show_unsigned n). to_digit 10 b \<noteq> None) \<and> digits_value 10 0 (show_unsigned n) = n
    \<and> show_unsigned n \<noteq> [] \<and> (length (show_unsigned n) = 1 \<or> hd (show_unsigned n) \<noteq> 48)"
proof (induction n rule: show_unsigned.induct)
  case (1 n)
  show ?case
  proof (cases "n < 10")
    case True
    then have "show_unsigned n = [of_nat (48 + n)]" by (subst show_unsigned.simps) simp
    then show ?thesis using to_digit_decimal [OF True, of 10] by simp
  next
    case False
    have s: "show_unsigned n = show_unsigned (n div 10) @ [of_nat (48 + n mod 10)]"
      using False by (subst show_unsigned.simps) simp
    have "length (show_unsigned (n div 10)) = 1 \<Longrightarrow> hd (show_unsigned (n div 10)) \<noteq> 48"
    proof (cases "n div 10 < 10")
      case True
      then have h: "show_unsigned (n div 10) = [of_nat (48 + n div 10)]" by (subst show_unsigned.simps) simp
      have "unat (of_nat (48 + n div 10) :: u8) = 48 + n div 10" using digit_byte(1) [OF True] .
      moreover have "0 < n div 10" using False by (simp add: div_greater_zero_iff)
      ultimately have "(of_nat (48 + n div 10) :: u8) \<noteq> 48" by auto
      then show ?thesis using h by simp
    next
      case False
      then have "show_unsigned (n div 10) = show_unsigned (n div 10 div 10) @ [of_nat (48 + n div 10 mod 10)]"
        by (subst show_unsigned.simps) simp
      then show "length (show_unsigned (n div 10)) = 1 \<Longrightarrow> hd (show_unsigned (n div 10)) \<noteq> 48"
        using show_unsigned_digits [of "n div 10 div 10"] by simp
    qed
    then show ?thesis
      unfolding s using 1 [OF False] to_digit_decimal [of "n mod 10" 10] by (auto simp: hd_append)
  qed
qed

lemma show_unsigned_length: "n < 10 ^ Suc k \<Longrightarrow> length (show_unsigned n) \<le> Suc k"
proof (induction k arbitrary: n)
  case 0
  then show ?case by (subst show_unsigned.simps) simp
next
  case (Suc k)
  show ?case
  proof (cases "n < 10")
    case True
    then show ?thesis by (subst show_unsigned.simps) simp
  next
    case False
    have "n div 10 < 10 ^ Suc k" using Suc.prems by (simp add: less_mult_imp_div_less)
    from Suc.IH [OF this] False show ?thesis by (subst show_unsigned.simps) simp
  qed
qed

lemma show_unsigned_short: "n < 256 \<Longrightarrow> length (show_unsigned n) \<le> 3"
  using show_unsigned_length [of n 2] by simp

lemma hex_byte:
  assumes "d < 16"
  shows "to_digit 16 (of_nat (if d < 10 then 48 + d else 87 + d)) = Some d"
proof (cases "d < 10")
  case True
  then show ?thesis using to_digit_decimal [OF True, of 16] by simp
next
  case False
  have u: "unat (of_nat (87 + d) :: u8) = 87 + d" using assms by (simp only: unat_of_nat) simp
  have "hex_digit (of_nat (87 + d)) = Some d"
    unfolding hex_digit_def word_le_nat_alt u using assms False by simp
  then show ?thesis using False assms by (simp add: to_digit_def)
qed

lemma hex_digits_value:
  "(\<forall>b \<in> set (hex_digits n). to_digit 16 b \<noteq> None) \<and> digits_value 16 0 (hex_digits n) = n \<and> hex_digits n \<noteq> []"
proof (induction n rule: hex_digits.induct)
  case (1 n)
  let ?d = "of_nat (if n mod 16 < 10 then 48 + n mod 16 else 87 + n mod 16) :: u8"
  have d: "to_digit 16 ?d = Some (n mod 16)" by (rule hex_byte) simp
  show ?case
  proof (cases "n < 16")
    case True
    then have "hex_digits n = [?d]" by (subst hex_digits.simps) (simp only: Let_def if_True)
    then show ?thesis using d True by (simp only: list.set foldl.simps) simp
  next
    case False
    then have s: "hex_digits n = hex_digits (n div 16) @ [?d]"
      by (subst hex_digits.simps) (simp only: Let_def if_False)
    show ?thesis
      unfolding s using 1 [OF refl False] d
      by (simp only: set_append foldl_append list.set foldl.simps) (simp del: of_nat_add)
  qed
qed

lemma hex_digits_length: "n < 16 ^ Suc k \<Longrightarrow> length (hex_digits n) \<le> Suc k"
proof (induction k arbitrary: n)
  case 0
  then show ?case by (subst hex_digits.simps) (simp add: Let_def)
next
  case (Suc k)
  show ?case
  proof (cases "n < 16")
    case True
    then show ?thesis by (subst hex_digits.simps) (simp add: Let_def)
  next
    case False
    have "n div 16 < 16 ^ Suc k" using Suc.prems by (simp add: less_mult_imp_div_less)
    from Suc.IH [OF this] False show ?thesis by (subst hex_digits.simps) (simp add: Let_def)
  qed
qed

lemma hex_digits_short: "n < 65536 \<Longrightarrow> length (hex_digits n) \<le> 4"
  using hex_digits_length [of n 3] by simp

lemma non_digits [simp]:
  "to_digit r 46 = None" "to_digit r 58 = None" "to_digit r 93 = None" "to_digit r 37 = None"
  by (simp_all add: to_digit_def hex_digit_def)

lemma read_octet:
  assumes "n < 256" and "to_digit 10 c = None"
  shows "read_number 10 (Some 3) False 256 (show_unsigned n @ c # s) = Some (n, c # s)"
  using read_number_text [of "show_unsigned n" 10 "c # s" 256 "Some 3" False] assms
    show_unsigned_value [of n] show_unsigned_short [of n] by simp

lemma read_decimal:
  assumes "n < bound" and "case s of [] \<Rightarrow> True | c # _ \<Rightarrow> to_digit 10 c = None"
  shows "read_number 10 None True bound (show_unsigned n @ s) = Some (n, s)"
  using read_number_text [of "show_unsigned n" 10 s bound None True] assms show_unsigned_value [of n] by simp

lemma read_group:
  assumes "n < 65536" and "to_digit 16 c = None"
  shows "read_number 16 (Some 4) True 65536 (hex_digits n @ c # s) = Some (n, c # s)"
  using read_number_text [of "hex_digits n" 16 "c # s" 65536 "Some 4" True] assms
    hex_digits_value [of n] hex_digits_short [of n] by simp

section \<open>Round trips\<close>

text \<open>\<open>Display\<close> of an IPv4 socket address.\<close>

definition show_octets :: "u8 \<Rightarrow> u8 \<Rightarrow> u8 \<Rightarrow> u8 \<Rightarrow> bytes" where
  "show_octets a b c d = show_unsigned (unat a) @ 46 # show_unsigned (unat b) @ 46 # show_unsigned (unat c)
     @ 46 # show_unsigned (unat d)"

lemma read_octets_text:
  "read_ipv4_addr (show_octets a b c d @ 58 # s) = Some ([a, b, c, d], 58 # s)"
  using unat_lt_u8 [of a] unat_lt_u8 [of b] unat_lt_u8 [of c] unat_lt_u8 [of d]
  by (simp add: read_ipv4_addr_def show_octets_def read_separator_def read_octet)

lemma read_port_text: "read_port (58 # show_unsigned (unat p)) = Some (unat (p :: u16), [])"
  using read_decimal [of "unat p" 65536 "[]"] unat_lt_u16 [of p] by (simp add: read_port_def)

lemma parse_v4_text:
  "parse_socket_addr (show_octets a b c d @ 58 # show_unsigned (unat port))
    = Some (\<lparr>sa_ip = V4 (u32_from_be_bytes a b c d), sa_port = port\<rparr>, 0)"
  by (simp add: parse_socket_addr_def read_socket_addr_v4_def read_octets_text read_port_text)

text \<open>The full form of an IPv6 literal: eight groups, then the scope id if there is one.\<close>

fun show_groups :: "u16 list \<Rightarrow> bytes" where
  "show_groups [] = []"
| "show_groups [g] = hex_digits (unat g)"
| "show_groups (g # gs) = hex_digits (unat g) @ 58 # show_groups gs"

definition show_scope :: "u32 option \<Rightarrow> bytes" where
  "show_scope scope = (case scope of None \<Rightarrow> [] | Some n \<Rightarrow> 37 # show_unsigned (unat n))"

definition show_v6 :: "u16 list \<Rightarrow> u32 option \<Rightarrow> u16 \<Rightarrow> bytes" where
  "show_v6 groups scope port =
     91 # show_groups groups @ show_scope scope @ 93 # 58 # show_unsigned (unat port)"

text \<open>Without a dot there is no dotted address.\<close>

lemma read_digits_suffix:
  "read_digits radix max_digits bound acc count s = Some (n, k, rest) \<Longrightarrow> set rest \<subseteq> set s"
  by (induction s arbitrary: acc count) (fastforce split: option.splits if_splits)+

lemma read_number_suffix: "read_number radix m z bound s = Some (n, rest) \<Longrightarrow> set rest \<subseteq> set s"
  unfolding read_number_def
  by (cases "read_digits radix m bound 0 0 s") (use read_digits_suffix in \<open>force split: if_splits\<close>)+

lemma read_given_absent: "t \<notin> set s \<Longrightarrow> read_given_char t s = None"
  by (cases s) auto

lemma no_dot_no_ipv4: "46 \<notin> set s \<Longrightarrow> read_ipv4_addr s = None"
  using read_given_absent [of 46] read_number_suffix [of 10 "Some 3" False 256 s]
  by (fastforce simp: read_ipv4_addr_def read_separator_def split: option.split)

lemma read_given_suffix: "read_given_char t s = Some r \<Longrightarrow> set r \<subseteq> set s"
  by (cases s) (auto split: if_splits)

lemma no_dot_separated: "46 \<notin> set s \<Longrightarrow> read_separator sep i read_ipv4_addr s = None"
  by (cases "read_given_char sep s")
    (use read_given_suffix [of sep s] in \<open>auto simp: read_separator_def intro!: no_dot_no_ipv4\<close>)

lemma show_unsigned_bytes: "46 \<notin> set (show_unsigned n)"
  using show_unsigned_value [of n] non_digits(1) by metis

lemma hex_digits_bytes: "46 \<notin> set (hex_digits n)"
  using hex_digits_value [of n] non_digits(1) by metis

lemma show_groups_bytes: "46 \<notin> set (show_groups gs)"
  by (induction gs rule: show_groups.induct) (simp_all add: hex_digits_bytes)

text \<open>Reading the groups from the i-th on: the first without a separator before it.\<close>

lemma read_groups_text:
  assumes "46 \<notin> set s" and "to_digit 16 c = None" and "46 \<noteq> c"
  shows "read_groups limit [i..<i + length gs]
      ((if 0 < i \<and> gs \<noteq> [] then [58] else []) @ show_groups gs @ c # s) = (gs, False, c # s)"
proof (induction gs arbitrary: i)
  case (Cons g gs)
  let ?more = "(if gs \<noteq> [] then [58] else []) @ show_groups gs @ c # s"
  have tg: "show_groups (g # gs) @ c # s = hex_digits (unat g) @ ?more"
    by (cases gs) simp_all
  have dots: "46 \<notin> set ((if 0 < i then [58] else []) @ hex_digits (unat g) @ ?more)"
    using assms show_groups_bytes hex_digits_bytes by auto
  obtain c' s' where m: "?more = c' # s'" "to_digit 16 c' = None"
    using assms(2) by (cases gs) auto
  have num: "read_separator 58 i (read_number 16 (Some 4) True 65536)
      ((if 0 < i then [58] else []) @ hex_digits (unat g) @ ?more) = Some (unat g, ?more)"
    using read_group [of "unat g" c' s'] m unat_lt_u16 [of g] by (simp add: read_separator_def)
  have upt: "[i..<i + length (g # gs)] = i # [Suc i..<Suc i + length gs]"
    by (subst upt_conv_Cons) simp_all
  have rest: "read_groups limit [Suc i..<Suc i + length gs] ?more = (gs, False, c # s)"
    using Cons.IH [of "Suc i"] by simp
  have lhs: "(if 0 < i \<and> g # gs \<noteq> [] then [58] else []) @ show_groups (g # gs) @ c # s
      = (if 0 < i then [58] else []) @ hex_digits (unat g) @ ?more"
    unfolding tg by simp
  show ?case
    unfolding lhs upt read_groups.simps
    by (simp only: no_dot_separated [OF dots] num rest if_cancel option.case prod.case) simp
qed simp

lemma read_scope_text:
  "(case read_scope_id (show_scope scope @ 93 # s) of Some (n, s2) \<Rightarrow> (n, s2)
      | None \<Rightarrow> (0, show_scope scope @ 93 # s))
    = (case scope of None \<Rightarrow> 0 | Some n \<Rightarrow> unat n, 93 # s)"
  using read_decimal [of _ "2 ^ 32" "93 # s"] unat_lt_u32
  by (cases scope) (simp_all add: read_scope_id_def show_scope_def)

lemma parse_v6_text:
  assumes "length groups = 8"
  shows "parse_socket_addr (show_v6 groups scope port)
    = Some (\<lparr>sa_ip = V6 (v6_from_octets (concat (map u16_to_be_bytes groups))), sa_port = port\<rparr>,
        case scope of None \<Rightarrow> 0 | Some n \<Rightarrow> n)"
proof -
  let ?close = "93 # 58 # show_unsigned (unat port)"
  obtain c s where cs: "show_scope scope @ ?close = c # s" "to_digit 16 c = None" "46 \<noteq> c" "46 \<notin> set s"
    using show_unsigned_bytes by (cases scope) (auto simp: show_scope_def)
  have "read_groups 8 [0..<8] (show_groups groups @ show_scope scope @ ?close)
      = (groups, False, show_scope scope @ ?close)"
    using read_groups_text [OF cs(4,2,3), of 8 0 groups] assms by (simp only: cs(1)) simp
  then have g: "read_ipv6_addr (show_groups groups @ show_scope scope @ ?close)
      = Some (groups, show_scope scope @ ?close)"
    using assms by (simp add: read_ipv6_addr_def del: upt_rec_numeral)
  have "read_ipv4_addr (show_v6 groups scope port) = None"
    by (rule no_dot_no_ipv4)
      (use show_groups_bytes show_unsigned_bytes in \<open>auto simp: show_v6_def show_scope_def split: option.splits\<close>)
  then show ?thesis
    by (simp add: parse_socket_addr_def read_socket_addr_v4_def read_socket_addr_v6_def show_v6_def g
        read_scope_text read_port_text split: option.split)
qed

text \<open>Only a bracketed literal is an IPv6 address.\<close>

lemma parse_v6_bracketed:
  assumes "parse_socket_addr s = Some (a, scope)" and "sa_ip a = V6 x"
  shows "\<exists>r. s = 91 # r"
proof -
  have "read_socket_addr_v4 s = Some ((a, scope), []) \<or> read_socket_addr_v6 s = Some ((a, scope), [])"
    using assms(1) by (auto simp: parse_socket_addr_def split: option.splits list.splits)
  moreover have "read_socket_addr_v4 s \<noteq> Some ((a, scope), [])"
    using assms(2) by (auto simp: read_socket_addr_v4_def split: option.splits)
  ultimately show ?thesis
    by (cases s) (auto simp: read_socket_addr_v6_def split: option.splits if_splits)
qed

end
