(* ===== verification/Listen.thy ===== *)
theory Listen
  imports Socket_Addr
begin

text \<open>
  \<open>loft/src/listen.rs\<close>: which sockets a listener creates for its configured address, and
  \<open>canonical_peer\<close>, the form in which every listener keys, counts and logs a peer. Flow info and scope
  id of an IPv6 peer play no part in what is keyed: \<open>SocketAddr::new\<close> clears them.
\<close>

definition canonical_peer :: "socket_addr \<Rightarrow> socket_addr" where
  "canonical_peer peer = \<lparr>sa_ip = to_canonical (sa_ip peer), sa_port = sa_port peer\<rparr>"

lemma canonical_peer_idem [simp]: "canonical_peer (canonical_peer p) = canonical_peer p"
  by (simp add: canonical_peer_def)

section \<open>Binding\<close>

text \<open>
  The calls the binders make, in order; each may fail and ends the binding with its error. An IPv6
  address is bound with its scope id.
\<close>

datatype sock_type = DGRAM | STREAM

datatype sock_call =
    NewSocket sock_type
  | SetOnlyV6 bool
  | SetReuseAddress bool
  | BindV6 socket_addr u32
  | ListenBacklog nat
  | StdBind sock_type bytes

fun is_ipv6 :: "socket_addr \<Rightarrow> bool" where
  "is_ipv6 a = (case sa_ip a of V6 _ \<Rightarrow> True | V4 _ \<Rightarrow> False)"

definition ipv6_literal :: "bytes \<Rightarrow> scoped_addr option" where
  "ipv6_literal addr = (case parse_socket_addr addr of
     Some a \<Rightarrow> if is_ipv6 (fst a) then Some a else None
   | None \<Rightarrow> None)"

definition dual_stack :: "sock_type \<Rightarrow> sock_call list" where
  "dual_stack ty = [NewSocket ty, SetOnlyV6 False]"

definition bind_udp :: "bytes \<Rightarrow> sock_call list" where
  "bind_udp addr = (case ipv6_literal addr of
     Some (v6, scope) \<Rightarrow> dual_stack DGRAM @ [BindV6 v6 scope]
   | None \<Rightarrow> [StdBind DGRAM addr])"

definition bind_tcp :: "bytes \<Rightarrow> sock_call list" where
  "bind_tcp addr = (case ipv6_literal addr of
     Some (v6, scope) \<Rightarrow> dual_stack STREAM @ [SetReuseAddress True, BindV6 v6 scope, ListenBacklog 128]
   | None \<Rightarrow> [StdBind STREAM addr])"

text \<open>Running the calls against the system: \<open>?\<close> stops at the first error.\<close>

fun run_calls :: "(sock_call \<Rightarrow> 'e option) \<Rightarrow> sock_call list \<Rightarrow> sock_call list \<times> 'e option" where
  "run_calls sys [] = ([], None)"
| "run_calls sys (c # cs) = (case sys c of
     Some e \<Rightarrow> ([c], Some e)
   | None \<Rightarrow> (case run_calls sys cs of (done_calls, e) \<Rightarrow> (c # done_calls, e)))"

lemma run_calls_prefix:
  "run_calls sys cs = (done_calls, e) \<Longrightarrow> \<exists>rest. cs = done_calls @ rest \<and> (e = None \<longrightarrow> rest = [])"
  by (induction cs arbitrary: done_calls) (auto split: option.splits prod.splits)

lemma bracketed_literal: "ipv6_literal addr = Some v6 \<Longrightarrow> \<exists>r. addr = 91 # r"
  using parse_v6_bracketed [of addr "fst v6" "snd v6"]
  by (auto simp: ipv6_literal_def split: option.splits if_splits ip_addr.splits)

lemma unbracketed_binds_as_std: "hd addr \<noteq> 91 \<Longrightarrow> ipv6_literal addr = None"
  using bracketed_literal [of addr] by (cases "ipv6_literal addr") auto

section \<open>Properties\<close>

text \<open>A listener never binds an IPv6 literal as an IPv6-only socket: before any bind the socket
  has been created and made dual-stack, so a failure to make it dual-stack means no socket is
  bound; every other address is bound by the standard library alone. An IPv6 literal is what
  parses as a bracketed address, with its scope id; a dotted address never is one.\<close>

theorem ipv6_listeners_are_dual_stack:
  assumes "run_calls sys (bind_udp addr) = (cu, eu)" and "run_calls sys (bind_tcp addr) = (ct, et)"
  shows "(BindV6 a sc \<in> set cu \<longrightarrow> cu = [NewSocket DGRAM, SetOnlyV6 False, BindV6 a sc]
        \<and> sys (SetOnlyV6 False) = None)
    \<and> (BindV6 a sc \<in> set ct \<longrightarrow>
        take 4 ct = [NewSocket STREAM, SetOnlyV6 False, SetReuseAddress True, BindV6 a sc]
        \<and> sys (SetOnlyV6 False) = None)
    \<and> (ipv6_literal addr = None \<longrightarrow> cu = [StdBind DGRAM addr] \<and> ct = [StdBind STREAM addr])
    \<and> (\<forall>v6. ipv6_literal addr = Some v6 \<longrightarrow> (\<exists>r. addr = 91 # r))
    \<and> (\<forall>groups scope port. length groups = 8 \<and> addr = show_v6 groups scope port \<longrightarrow>
          ipv6_literal addr = Some (\<lparr>sa_ip = V6 (v6_from_octets (concat (map u16_to_be_bytes groups))),
            sa_port = port\<rparr>, case scope of None \<Rightarrow> 0 | Some n \<Rightarrow> n))
    \<and> (\<forall>b c d e port. addr = show_octets b c d e @ 58 # show_unsigned (unat (port :: u16)) \<longrightarrow>
          ipv6_literal addr = None)"
proof (intro conjI allI impI; (elim conjE)?)
  show "\<exists>r. addr = 91 # r" if "ipv6_literal addr = Some v6" for v6
    using that by (rule bracketed_literal)
qed (use assms parse_v4_text parse_v6_text in
    \<open>auto simp: bind_udp_def bind_tcp_def dual_stack_def ipv6_literal_def split: option.splits\<close>)

theorem ipv6_listeners_are_dual_stack_witness:
  "run_calls (\<lambda>_. None :: unit option) (bind_udp (show_v6 (replicate 8 0) None 5684))
   = ([NewSocket DGRAM, SetOnlyV6 False,
       BindV6 \<lparr>sa_ip = V6 (v6_from_octets (concat (map u16_to_be_bytes (replicate 8 0)))), sa_port = 5684\<rparr> 0],
      None)"
proof -
  let ?addr = "show_v6 (replicate 8 0) None 5684"
  have "ipv6_literal ?addr
      = Some (\<lparr>sa_ip = V6 (v6_from_octets (concat (map u16_to_be_bytes (replicate 8 0)))), sa_port = 5684\<rparr>, 0)"
    using ipv6_listeners_are_dual_stack [of "\<lambda>_. None :: unit option" ?addr, OF surjective_pairing surjective_pairing]
    by (metis (no_types) length_replicate option.case(1))
  then show ?thesis by (simp add: bind_udp_def dual_stack_def)
qed

end
