(* ===== verification/Quota.thy ===== *)
theory Quota
  imports Listen "HOL-Library.Multiset"
begin

text \<open>
  \<open>loft/src/quota.rs\<close>: connection admission, a global ceiling plus a fair share per source address
  bucket, with a permit whose drop is the only release. The locale \<open>admission\<close> is the contract the
  listeners rely on; it proves once, for any interleaving of acquisitions and drops, that the
  books equal the permits held. The hash table of the code is the one of the prelude.
\<close>

definition MAX_CONNECTIONS :: nat where "MAX_CONNECTIONS = 4096"
definition MAX_CONNECTIONS_PER_IP :: nat where "MAX_CONNECTIONS_PER_IP = 256"

record counts =
  ct_total :: nat
  ct_per_ip :: "(ip_addr, nat) hash_map"

record conn_quota =
  max_total :: nat
  max_per_ip :: nat

definition new_counts :: counts where
  "new_counts = \<lparr>ct_total = 0, ct_per_ip = []\<rparr>"

fun bucket :: "ip_addr \<Rightarrow> ip_addr" where
  "bucket (V4 a) = V4 a"
| "bucket (V6 a) = (case to_ipv4_mapped a of
     Some v4 \<Rightarrow> V4 v4
   | None \<Rightarrow> V6 (a AND push_bit 64 (- 1)))"

text \<open>The masked address by its first 64 bits.\<close>

lemma bucket_v6:
  "bucket (V6 a) = (case to_ipv4_mapped a of
     Some v4 \<Rightarrow> V4 v4
   | None \<Rightarrow> V6 (push_bit 64 (drop_bit 64 a)))"
proof -
  have "a AND push_bit 64 (- 1) = push_bit 64 (drop_bit 64 a)"
    by (rule bit_word_eqI) (auto simp: bit_simps)
  then show ?thesis by (simp split: option.splits)
qed

definition is_full :: "conn_quota \<Rightarrow> counts \<Rightarrow> bool" where
  "is_full q c \<longleftrightarrow> max_total q \<le> ct_total c"

text \<open>A permit is the bucket it counts under.\<close>

datatype conn_permit = ConnPermit (permit_ip: ip_addr)

definition try_acquire :: "conn_quota \<Rightarrow> ip_addr \<Rightarrow> counts \<Rightarrow> conn_permit option \<times> counts" where
  "try_acquire q ip0 c =
     (let ip = bucket ip0 in
      if max_total q \<le> ct_total c then (None, c)
      else
        let held = (case hm_get (ct_per_ip c) ip of Some n \<Rightarrow> n | None \<Rightarrow> 0) in
        if max_per_ip q \<le> held then (None, c)
        else (Some (ConnPermit ip),
              \<lparr>ct_total = ct_total c + 1, ct_per_ip = hm_insert ip (held + 1) (ct_per_ip c)\<rparr>))"

text \<open>
  \<open>ConnPermit::drop\<close>. The subtractions are on \<open>usize\<close>; \<open>books_match\<close> below shows that neither
  is ever applied to zero.
\<close>

definition permit_drop :: "conn_permit \<Rightarrow> counts \<Rightarrow> counts" where
  "permit_drop p c =
     \<lparr>ct_total = ct_total c - 1,
      ct_per_ip = (case hm_get (ct_per_ip c) (permit_ip p) of
        None \<Rightarrow> ct_per_ip c
      | Some held \<Rightarrow>
          if held - 1 = 0 then hm_remove (permit_ip p) (ct_per_ip c)
          else hm_insert (permit_ip p) (held - 1) (ct_per_ip c))\<rparr>"

section \<open>The admission contract\<close>

text \<open>Connections come and go: the books and the permits alive, one step per lock acquisition.\<close>

inductive admission_step ::
  "('a \<Rightarrow> 's \<Rightarrow> 'p option \<times> 's) \<Rightarrow> ('p \<Rightarrow> 's \<Rightarrow> 's) \<Rightarrow> 's \<times> 'p list \<Rightarrow> 's \<times> 'p list \<Rightarrow> bool"
  for acquire :: "'a \<Rightarrow> 's \<Rightarrow> 'p option \<times> 's" and release :: "'p \<Rightarrow> 's \<Rightarrow> 's"
where
  admitted: "acquire a s = (Some p, s') \<Longrightarrow> admission_step acquire release (s, ps) (s', p # ps)"
| refused: "acquire a s = (None, s') \<Longrightarrow> admission_step acquire release (s, ps) (s', ps)"
| dropped: "p \<in> set ps \<Longrightarrow>
    admission_step acquire release (s, ps) (release p s, remove1 p ps)"

inductive_cases admission_stepE: "admission_step acquire release (s, ps) (s', ps')"

locale admission =
  fixes acquire :: "'a \<Rightarrow> 's \<Rightarrow> 'p option \<times> 's"
    and release :: "'p \<Rightarrow> 's \<Rightarrow> 's"
    and held :: "'s \<Rightarrow> nat"
    and share :: "'s \<Rightarrow> 'p \<Rightarrow> nat"
    and ok :: "'s \<Rightarrow> bool"
    and limit :: nat
    and fair :: nat
  assumes admit: "ok s \<Longrightarrow> acquire a s = (Some p, s') \<Longrightarrow>
      ok s' \<and> held s < limit \<and> share s p < fair \<and> held s' = Suc (held s)
      \<and> (\<forall>p'. share s' p' = (if p' = p then Suc (share s p) else share s p'))"
    and refuse: "acquire a s = (None, s') \<Longrightarrow> s' = s"
    and drop: "ok s \<Longrightarrow> 0 < held s \<Longrightarrow> 0 < share s p \<Longrightarrow>
      ok (release p s) \<and> held (release p s) = held s - 1
      \<and> (\<forall>p'. share (release p s) p' = (if p' = p then share s p - 1 else share s p'))"
begin

lemma books:
  assumes "rtranclp (admission_step acquire release) (s0, []) (s, ps)"
    and "ok s0" and "held s0 = 0" and "\<And>p. share s0 p = 0"
  shows "ok s \<and> held s = length ps \<and> length ps \<le> limit
    \<and> (\<forall>p. share s p = count_list ps p \<and> count_list ps p \<le> fair)"
  using assms(1)
proof (induction "(s, ps)" arbitrary: s ps rule: rtranclp_induct)
  case base
  with assms(2-) show ?case by simp
next
  case (step y)
  obtain s1 ps1 where y: "y = (s1, ps1)" by (cases y)
  from step.hyps(3) [OF y] have IH: "ok s1" "held s1 = length ps1" "length ps1 \<le> limit"
    "\<And>p. share s1 p = count_list ps1 p" "\<And>p. count_list ps1 p \<le> fair" by auto
  note st = step.hyps(2) [unfolded y]
  show ?case
    using st
  proof (rule admission_stepE)
    fix a p assume "ps = p # ps1" "acquire a s1 = (Some p, s)"
    with IH admit [OF IH(1)] show ?thesis by (auto simp: Suc_le_eq)
  next
    fix a assume "ps = ps1" "acquire a s1 = (None, s)"
    then have "s = s1" using refuse by blast
    with IH \<open>ps = ps1\<close> show ?thesis by auto
  next
    fix p assume dropped: "s = release p s1" "ps = remove1 p ps1" "p \<in> set ps1"
    have c: "count_list (remove1 p ps1) p' = (if p' = p then count_list ps1 p - 1
        else count_list ps1 p')" for p'
      by (induction ps1) auto
    have pos: "0 < length ps1" "0 < count_list ps1 p"
      using dropped(3) count_list_0_iff [of ps1 p] by (auto simp: length_pos_if_in_set)
    have "ok s" "held s = length ps1 - 1"
      "\<And>p'. share s p' = (if p' = p then count_list ps1 p - 1 else count_list ps1 p')"
      using drop [OF IH(1), of p] IH pos dropped by auto
    with IH dropped c show ?thesis
      by (auto simp: length_remove1 intro: le_trans [OF diff_le_self])
  qed
qed

end

section \<open>The quota provides it\<close>

definition held_by :: "counts \<Rightarrow> conn_permit \<Rightarrow> nat" where
  "held_by c p = (case hm_get (ct_per_ip c) (permit_ip p) of Some n \<Rightarrow> n | None \<Rightarrow> 0)"

text \<open>No residue: an address bucket with no live connection has no entry.\<close>

definition counts_ok :: "counts \<Rightarrow> bool" where
  "counts_ok c \<longleftrightarrow> hm_ok (ct_per_ip c) \<and> (\<forall>b. hm_get (ct_per_ip c) b \<noteq> Some 0)"

interpretation quota: admission "try_acquire q" permit_drop ct_total held_by counts_ok
  "max_total q" "max_per_ip q" for q
proof unfold_locales
  fix s s' :: counts and a p
  show "counts_ok s \<Longrightarrow> try_acquire q a s = (Some p, s') \<Longrightarrow>
      counts_ok s' \<and> ct_total s < max_total q \<and> held_by s p < max_per_ip q
      \<and> ct_total s' = Suc (ct_total s)
      \<and> (\<forall>p'. held_by s' p' = (if p' = p then Suc (held_by s p) else held_by s p'))"
    by (auto simp: try_acquire_def Let_def counts_ok_def held_by_def table_simps conn_permit.expand
        split: if_splits)
  show "try_acquire q a s = (None, s') \<Longrightarrow> s' = s"
    by (auto simp: try_acquire_def Let_def split: if_splits)
  show "counts_ok s \<Longrightarrow> 0 < ct_total s \<Longrightarrow> 0 < held_by s p \<Longrightarrow>
      counts_ok (permit_drop p s) \<and> ct_total (permit_drop p s) = ct_total s - 1
      \<and> (\<forall>p'. held_by (permit_drop p s) p' = (if p' = p then held_by s p - 1 else held_by s p'))"
    by (auto simp: permit_drop_def counts_ok_def held_by_def table_simps conn_permit.expand
        split: option.splits)
qed

text \<open>The books of a quota that started empty, whatever connections came and went.\<close>

lemma books_match:
  assumes "rtranclp (admission_step (try_acquire q) permit_drop) (new_counts, []) (c, ps)"
  shows "counts_ok c" and "ct_total c = length ps" and "length ps \<le> max_total q"
    and "held_by c p = count_list ps p" and "count_list ps p \<le> max_per_ip q"
  using quota.books [OF assms] by (auto simp: new_counts_def counts_ok_def held_by_def)

abbreviation admission_reaches :: "conn_quota \<Rightarrow> counts \<Rightarrow> conn_permit list \<Rightarrow> bool" where
  "admission_reaches q c ps \<equiv>
     rtranclp (admission_step (try_acquire q) permit_drop) (new_counts, []) (c, ps)"

text \<open>A counts value is booked for a bag of permits when some history of the quota leads to it.\<close>

definition booked :: "conn_quota \<Rightarrow> counts \<Rightarrow> conn_permit multiset \<Rightarrow> bool" where
  "booked q c P \<longleftrightarrow> (\<exists>ps. admission_reaches q c ps \<and> mset ps = P)"

lemma booked_new: "booked q new_counts {#}"
  unfolding booked_def by (intro exI [of _ "[]"]) simp

lemma booked_acquire:
  assumes "booked q c P" and "try_acquire q ip c = (Some p, c')"
  shows "booked q c' (add_mset p P)"
proof -
  from assms(1) obtain ps where ps: "admission_reaches q c ps" "mset ps = P"
    unfolding booked_def by blast
  from ps(1) admission_step.admitted [of "try_acquire q", OF assms(2)] have "admission_reaches q c' (p # ps)"
    by (rule rtranclp.rtrancl_into_rtrancl)
  with ps(2) show ?thesis unfolding booked_def by (intro exI [of _ "p # ps"]) simp
qed

lemma booked_drop:
  assumes "booked q c P" and "p \<in># P"
  shows "booked q (permit_drop p c) (P - {#p#})"
proof -
  from assms obtain ps where ps: "admission_reaches q c ps" "mset ps = P" "p \<in> set ps"
    unfolding booked_def by auto
  from ps(1) admission_step.dropped [of p ps "try_acquire q" permit_drop c, OF ps(3)]
  have "admission_reaches q (permit_drop p c) (remove1 p ps)"
    by (rule rtranclp.rtrancl_into_rtrancl)
  with ps(2) show ?thesis unfolding booked_def by (intro exI [of _ "remove1 p ps"]) simp
qed

lemma booked_bounds:
  assumes "booked q c P"
  shows "ct_total c = size P" and "size P \<le> max_total q" and "count P p \<le> max_per_ip q"
    and "held_by c p = count P p"
proof -
  from assms obtain ps where ps: "admission_reaches q c ps" "mset ps = P"
    unfolding booked_def by blast
  then show "ct_total c = size P" "size P \<le> max_total q" "count P p \<le> max_per_ip q"
    "held_by c p = count P p"
    using books_match [OF ps(1)] by (auto simp: count_mset)
qed

section \<open>What admission promises\<close>

text \<open>
  The specification has no table: a bag of live connections, each charged to its bucket, that one
  may join where there is room and leave at any time. A part of the program keeps the books when,
  whatever other permits of the same quota live beside its own, its step moves the bag by at most
  one step of the specification and leaves the counts booked for the new bag.
\<close>

inductive fair_step :: "conn_quota \<Rightarrow> conn_permit multiset \<Rightarrow> conn_permit multiset \<Rightarrow> bool" for q where
  join: "size P < max_total q \<Longrightarrow> count P p < max_per_ip q \<Longrightarrow> fair_step q P (add_mset p P)"
| leave: "fair_step q (add_mset p P) P"

definition keeps_books ::
  "conn_quota \<Rightarrow> counts \<Rightarrow> conn_permit multiset \<Rightarrow> counts \<Rightarrow> conn_permit multiset \<Rightarrow> bool" where
  "keeps_books q c P c' P' \<longleftrightarrow> (\<forall>others. booked q c (P + others) \<longrightarrow>
     booked q c' (P' + others) \<and> (P' = P \<or> fair_step q (P + others) (P' + others)))"

lemma keeps_booksD:
  assumes "keeps_books q c P c' P'" and "booked q c P"
  shows "booked q c' P'" and "P' = P \<or> fair_step q P P'"
  using assms unfolding keeps_books_def by (metis add.right_neutral)+

lemma keeps_books_same [simp]: "keeps_books q c P c P"
  by (simp add: keeps_books_def)

lemma keeps_books_acquire:
  assumes "try_acquire q ip c = (Some p, c')"
  shows "keeps_books q c P c' (add_mset p P)"
  unfolding keeps_books_def
proof (intro allI impI)
  fix others assume "booked q c (P + others)"
  from booked_acquire [OF this assms] have b: "booked q c' (add_mset p (P + others))" .
  have "fair_step q (P + others) (add_mset p (P + others))"
    using booked_bounds(2) [OF b] booked_bounds(3) [OF b, of p] by (intro fair_step.join) auto
  with b show "booked q c' (add_mset p P + others)
      \<and> (add_mset p P = P \<or> fair_step q (P + others) (add_mset p P + others))" by simp
qed

lemma keeps_books_drop:
  assumes "p \<in># P"
  shows "keeps_books q c P (permit_drop p c) (P - {#p#})"
  unfolding keeps_books_def
proof (intro allI impI)
  fix others assume b: "booked q c (P + others)"
  from assms obtain R where R: "P = add_mset p R" by (metis insert_DiffM)
  from booked_drop [OF b, of p] have "booked q (permit_drop p c) (R + others)" by (simp add: R)
  moreover have "fair_step q (P + others) (R + others)"
    using fair_step.leave [of q p "R + others"] by (simp add: R)
  ultimately show "booked q (permit_drop p c) (P - {#p#} + others)
      \<and> (P - {#p#} = P \<or> fair_step q (P + others) (P - {#p#} + others))" by (simp add: R)
qed

text \<open>An admission whose thread cannot be spawned is undone.\<close>

lemma keeps_books_undone:
  assumes "try_acquire q ip c = (Some p, c')"
  shows "keeps_books q c P (permit_drop p c') P"
  unfolding keeps_books_def
proof (intro allI impI)
  fix others assume "booked q c (P + others)"
  from booked_drop [OF booked_acquire [OF this assms], of p]
  show "booked q (permit_drop p c') (P + others)
      \<and> (P = P \<or> fair_step q (P + others) (P + others))" by simp
qed

text \<open>With nothing live, everything is admitted.\<close>

lemma booked_empty_admits:
  assumes "booked q c {#}" and "0 < max_total q" and "0 < max_per_ip q"
  shows "ct_total c = 0" and "\<not> is_full q c" and "fst (try_acquire q ip c) \<noteq> None"
proof -
  have b: "held_by c (ConnPermit (bucket ip)) = 0"
    using booked_bounds(4) [OF assms(1)] by simp
  show z: "ct_total c = 0" using booked_bounds(1) [OF assms(1)] by simp
  then show "\<not> is_full q c" using assms(2) by (simp add: is_full_def)
  show "fst (try_acquire q ip c) \<noteq> None"
    using b z assms(2,3) by (auto simp: try_acquire_def held_by_def Let_def split: option.splits)
qed

lemma slash64_eq_iff:
  "(a AND push_bit 64 (- 1) = b AND push_bit 64 (- 1)) \<longleftrightarrow> drop_bit 64 a = drop_bit 64 (b :: 128 word)"
proof
  assume eq: "a AND push_bit 64 (- 1) = b AND push_bit 64 (- 1)"
  show "drop_bit 64 a = drop_bit 64 b"
  proof (rule bit_word_eqI)
    fix n assume "n < LENGTH(128)"
    have "bit (a AND push_bit 64 (- 1)) (64 + n) = bit (b AND push_bit 64 (- 1)) (64 + n)"
      using eq by simp
    then show "bit (drop_bit 64 a) n = bit (drop_bit 64 b) n"
      by (auto simp: bit_simps dest: bit_imp_le_length)
  qed
next
  assume eq: "drop_bit 64 a = drop_bit 64 b"
  show "a AND push_bit 64 (- 1) = b AND push_bit 64 (- 1)"
  proof (rule bit_word_eqI)
    fix n assume "n < LENGTH(128)"
    have "bit (drop_bit 64 a) (n - 64) = bit (drop_bit 64 b) (n - 64)" using eq by simp
    then show "bit (a AND push_bit 64 (- 1)) n = bit (b AND push_bit 64 (- 1)) n"
      by (auto simp: bit_simps)
  qed
qed

section \<open>Properties\<close>

text \<open>C17. The books never drift: after any interleaving of admissions, refusals and permit drops,
  the total equals the number of live permits and stays within the ceiling, each source bucket's
  count equals its live permits and stays within the fair share, a bucket without live permits
  has no entry, and no drop of a live permit subtracts from zero.\<close>

theorem quota_books_match_permits:
  assumes "rtranclp (admission_step (try_acquire q) permit_drop) (new_counts, []) (c, ps)"
  shows "ct_total c = length ps \<and> length ps \<le> max_total q
    \<and> (\<forall>b. count_list ps (ConnPermit b) \<le> max_per_ip q
         \<and> hm_get (ct_per_ip c) b = (if count_list ps (ConnPermit b) = 0 then None
                                    else Some (count_list ps (ConnPermit b))))
    \<and> (\<forall>p \<in> set ps. 0 < ct_total c \<and> (\<exists>n > 0. hm_get (ct_per_ip c) (permit_ip p) = Some n))"
proof -
  have g: "hm_get (ct_per_ip c) b = (if count_list ps (ConnPermit b) = 0 then None
      else Some (count_list ps (ConnPermit b)))" for b
  proof (cases "hm_get (ct_per_ip c) b")
    case (Some n)
    moreover from this have "n \<noteq> 0" using books_match(1) [OF assms] by (metis counts_ok_def)
    ultimately show ?thesis
      using books_match(4) [OF assms, of "ConnPermit b"] by (simp add: held_by_def)
  next
    case None
    then show ?thesis
      using books_match(4) [OF assms, of "ConnPermit b"] by (simp add: held_by_def)
  qed
  have "\<exists>n > 0. hm_get (ct_per_ip c) (permit_ip p) = Some n" if "p \<in> set ps" for p
    using g [of "permit_ip p"] that count_list_0_iff [of ps p] by (auto split: if_splits)
  moreover have "0 < length ps" if "p \<in> set ps" for p using that by (rule length_pos_if_in_set)
  ultimately show ?thesis using books_match(2,3,5) [OF assms] g by auto
qed

theorem quota_books_match_permits_witness:
  "ct_total (snd (try_acquire \<lparr>max_total = 2, max_per_ip = 1\<rparr> (V4 7) new_counts)) = 1"
proof -
  let ?q = "\<lparr>max_total = 2, max_per_ip = 1\<rparr>"
  have "try_acquire ?q (V4 7) new_counts
      = (Some (ConnPermit (V4 7)), snd (try_acquire ?q (V4 7) new_counts))"
    by (simp add: try_acquire_def new_counts_def Let_def)
  then have "rtranclp (admission_step (try_acquire ?q) permit_drop) (new_counts, [])
      (snd (try_acquire ?q (V4 7) new_counts), [ConnPermit (V4 7)])"
    by (intro r_into_rtranclp admission_step.admitted)
  from quota_books_match_permits [OF this] show ?thesis by simp
qed

text \<open>Admission is decided by the live connections alone: a source is admitted exactly when the
  table has room and its bucket holds fewer permits than the fair share; a refusal changes
  nothing, and the cheap probe \<open>is_full\<close> agrees with the ceiling.\<close>

theorem admission_decision:
  assumes "rtranclp (admission_step (try_acquire q) permit_drop) (new_counts, []) (c, ps)"
  shows "(fst (try_acquire q ip c) = Some (ConnPermit (bucket ip))
          \<longleftrightarrow> length ps < max_total q \<and> count_list ps (ConnPermit (bucket ip)) < max_per_ip q)
    \<and> (fst (try_acquire q ip c) = None \<or> fst (try_acquire q ip c) = Some (ConnPermit (bucket ip)))
    \<and> (fst (try_acquire q ip c) = None \<longrightarrow> snd (try_acquire q ip c) = c)
    \<and> (is_full q c \<longleftrightarrow> length ps = max_total q)"
proof -
  have "(case hm_get (ct_per_ip c) (bucket ip) of Some n \<Rightarrow> n | None \<Rightarrow> 0)
      = count_list ps (ConnPermit (bucket ip))"
    using books_match(4) [OF assms, of "ConnPermit (bucket ip)"] by (simp add: held_by_def)
  then show ?thesis
    using books_match(2,3) [OF assms] by (auto simp: try_acquire_def is_full_def Let_def)
qed

theorem admission_decision_witness:
  "fst (try_acquire \<lparr>max_total = 2, max_per_ip = 0\<rparr> (V4 7) new_counts) = None"
  using admission_decision [of "\<lparr>max_total = 2, max_per_ip = 0\<rparr>" new_counts "[]" "V4 7"] by auto

text \<open>Buckets: an IPv4 host has one bucket whichever family observed it, distinct IPv4 hosts have
  distinct buckets, two native IPv6 addresses share a bucket exactly when they agree on their
  first 64 bits, and no IPv6 host shares a bucket with an IPv4 one.\<close>

theorem bucket_is_host_or_slash64:
  "bucket (to_canonical ip) = bucket ip
   \<and> (bucket (V4 a) = bucket (V4 b) \<longleftrightarrow> a = b)
   \<and> (to_ipv4_mapped x = None \<and> to_ipv4_mapped y = None \<longrightarrow>
        (bucket (V6 x) = bucket (V6 y) \<longleftrightarrow> drop_bit 64 x = drop_bit 64 y)
        \<and> bucket (V6 x) \<noteq> bucket (V4 a))"
  using slash64_eq_iff by (cases ip) (auto split: option.splits)

theorem bucket_is_host_or_slash64_witness:
  "bucket (V6 (push_bit 96 0x20010DB8 OR 5)) = bucket (V6 (push_bit 96 0x20010DB8 OR 9))"
  using bucket_is_host_or_slash64 [of "V4 0" 0 0 "push_bit 96 0x20010DB8 OR 5"
      "push_bit 96 0x20010DB8 OR 9"]
  by (simp add: to_ipv4_mapped_def)

end
