(* ===== verification/Handler.thy ===== *)
theory Handler
  imports Coap_Message Coap_Block Upstream Quota
begin

text \<open>
  \<open>loft/src/handler.rs\<close>: one CoAP request of an authenticated session becomes at most one upstream
  call and one response. The state is the Block1 reassembly table, keyed by connection id and
  leaf. The upstream client is a parameter, a function from the call to its result; \<open>handle\<close> also
  returns the calls it made. \<open>Instant::now()\<close> is read once by the sweep and once by the
  reassembly, so \<open>handle\<close> takes both times. Lemmas: the table's bounds, reassembly under any
  interleaving of connections, response-side block-wise transfer, firmware ranges and errors.
\<close>

section \<open>Sessions, calls and tables\<close>

definition KNOWN_OPTIONS :: "u16 list" where
  "KNOWN_OPTIONS = [URI_HOST, ETAG, OBSERVE, URI_PORT, URI_PATH, CONTENT_FORMAT, URI_QUERY, BLOCK2,
     BLOCK1, SIZE2, SIZE1]"

definition MAX_BLOCK1_BODY :: nat where "MAX_BLOCK1_BODY = 64 * 1024"
definition BLOCK1_IDLE_TIMEOUT :: duration where "BLOCK1_IDLE_TIMEOUT = from_secs 90"
definition MAX_BLOCK1_ENTRIES :: nat where "MAX_BLOCK1_ENTRIES = MAX_CONNECTIONS"

datatype transport = Udp | Tcp

record device_session =
  ds_pigeon_id :: bytes
  ds_token :: bytes
  ds_peer :: bytes
  ds_conn_id :: nat

text \<open>\<open>NEXT.fetch_add(1)\<close>: the id handed out and the counter after.\<close>

definition next_conn_id :: "nat \<Rightarrow> nat \<times> nat" where
  "next_conn_id counter = (counter, counter + 1)"

record upstream_call =
  uc_method :: upstream_method
  uc_pigeon_id :: bytes
  uc_leaf :: bytes
  uc_bearer :: bytes
  uc_range :: "(nat \<times> nat) option"
  uc_body :: "(bytes \<times> bytes) option"

type_synonym upstream = "upstream_call \<Rightarrow> bytes + upstream_response"

text \<open>The one implementation of the \<open>Upstream\<close> trait.\<close>

definition dovecote_upstream :: "(http_request \<Rightarrow> bytes + http_reply) \<Rightarrow> bytes \<Rightarrow> upstream" where
  "dovecote_upstream send base_url c =
     device_request send base_url (uc_method c) (uc_pigeon_id c) (uc_leaf c) (uc_bearer c)
       (uc_range c) (uc_body c)"

record reassembly =
  ra_data :: bytes
  ra_next_num :: u32
  ra_touched :: instant

type_synonym block1_key = "nat \<times> bytes"
type_synonym block1_table = "(block1_key, reassembly) hash_map"

definition max_szx :: "u8 \<Rightarrow> transport \<Rightarrow> u8" where
  "max_szx udp_max_szx transport = (case transport of Udp \<Rightarrow> udp_max_szx | Tcp \<Rightarrow> MAX_SZX)"

section \<open>Responses\<close>

definition diagnostic :: "message \<Rightarrow> u8 \<Rightarrow> string \<Rightarrow> message" where
  "diagnostic req coap_code text = (response coap_code req)\<lparr>msg_payload := ascii text\<rparr>"

definition block1_of :: "message \<Rightarrow> block option" where
  "block1_of req = Option.bind (option_uint req BLOCK1) block_decode"

definition block2_of :: "message \<Rightarrow> block option" where
  "block2_of req = Option.bind (option_uint req BLOCK2) block_decode"

definition echo_final_block1 :: "message \<Rightarrow> message \<Rightarrow> message" where
  "echo_final_block1 req out = (case block1_of req of
     Some b \<Rightarrow> if \<not> blk_more b then set_option_uint BLOCK1 (block_encode b) out else out
   | None \<Rightarrow> out)"

definition error_code :: "nat \<Rightarrow> u8" where
  "error_code status =
     (if status = 400 then BAD_REQUEST
      else if status = 401 then UNAUTHORIZED
      else if status = 403 then FORBIDDEN
      else if status = 404 then NOT_FOUND
      else if status = 405 then METHOD_NOT_ALLOWED
      else if status = 413 then REQUEST_ENTITY_TOO_LARGE
      else if 500 \<le> status \<and> status \<le> 599 then BAD_GATEWAY
      else BAD_REQUEST)"

definition error_response :: "message \<Rightarrow> bytes + upstream_response \<Rightarrow> message" where
  "error_response req res = (case res of
     Inr r \<Rightarrow> (response (error_code (up_status r)) req)\<lparr>msg_payload := take 128 (up_body r)\<rparr>
   | Inl e \<Rightarrow> diagnostic req GATEWAY_TIMEOUT ''upstream unreachable'')"

definition json_success_code :: "upstream_method \<Rightarrow> nat \<Rightarrow> u8" where
  "json_success_code method status =
     (if status = 201 then CREATED else case method of Get \<Rightarrow> CONTENT | Post \<Rightarrow> CHANGED)"

text \<open>The block a JSON body is served as, if any: the requested one capped, or block 0 on UDP.\<close>

definition json_block :: "u8 \<Rightarrow> message \<Rightarrow> bytes \<Rightarrow> transport \<Rightarrow> block option" where
  "json_block udp_max_szx req full transport =
     (let szx = max_szx udp_max_szx transport in
      case block2_of req of
        Some b \<Rightarrow> Some (capped b szx)
      | None \<Rightarrow>
          if transport = Udp \<and> size_for szx < length full
          then Some \<lparr>blk_num = 0, blk_more = False, blk_szx = szx\<rparr> else None)"

definition json_body_response ::
  "u8 \<Rightarrow> message \<Rightarrow> u8 \<Rightarrow> bytes \<Rightarrow> transport \<Rightarrow> message" where
  "json_body_response udp_max_szx req success full transport =
     (let out = response success req in
      case json_block udp_max_szx req full transport of
        None \<Rightarrow> (set_option_uint CONTENT_FORMAT (ucast JSON) out)\<lparr>msg_payload := full\<rparr>
      | Some b \<Rightarrow>
          let start = block_offset b in
          if length full \<le> start \<and> 0 < blk_num b
          then diagnostic req BAD_REQUEST ''block out of range''
          else
            let end' = min (start + block_size b) (length full);
                out1 = set_option_uint CONTENT_FORMAT (ucast JSON) out;
                out2 = set_option_uint BLOCK2
                  (block_encode \<lparr>blk_num = blk_num b, blk_more = end' < length full,
                     blk_szx = blk_szx b\<rparr>) out1;
                out3 = (if blk_num b = 0 then set_option_uint SIZE2 (of_nat (length full)) out2
                        else out2)
            in out3\<lparr>msg_payload := take (end' - start) (drop start full)\<rparr>)"

definition json_response ::
  "u8 \<Rightarrow> message \<Rightarrow> bytes + upstream_response \<Rightarrow> upstream_method \<Rightarrow> transport \<Rightarrow> message" where
  "json_response udp_max_szx req res method transport = (case res of
     Inr r \<Rightarrow>
       if up_status r < 300
       then json_body_response udp_max_szx req (json_success_code method (up_status r)) (up_body r)
              transport
       else error_response req res
   | Inl _ \<Rightarrow> error_response req res)"

section \<open>Firmware\<close>

text \<open>
  \<open>hex_prefix_bytes\<close>: the header value is visible ASCII (the HTTP library's \<open>to_str\<close>), so every
  byte index is a character boundary.
\<close>

fun hex_pairs :: "bytes \<Rightarrow> bytes option" where
  "hex_pairs (a # b # rest) = (case u8_from_hex [a, b] of None \<Rightarrow> None
     | Some v \<Rightarrow> map_option (Cons v) (hex_pairs rest))"
| "hex_pairs [a] = None"
| "hex_pairs [] = Some []"

definition hex_prefix_bytes :: "bytes \<Rightarrow> nat \<Rightarrow> bytes option" where
  "hex_prefix_bytes hex n = (if length hex < n * 2 then None else hex_pairs (take (n * 2) hex))"

definition firmware_block :: "u8 \<Rightarrow> message \<Rightarrow> transport \<Rightarrow> block" where
  "firmware_block udp_max_szx req transport =
     (let szx = max_szx udp_max_szx transport in
      case block2_of req of
        Some b \<Rightarrow> capped b szx
      | None \<Rightarrow> \<lparr>blk_num = 0, blk_more = False, blk_szx = szx\<rparr>)"

definition firmware_total :: "upstream_response \<Rightarrow> nat" where
  "firmware_total r =
     (case Option.bind (up_content_range r) parse_content_range of
        Some (_, _, t) \<Rightarrow> t
      | None \<Rightarrow> (case up_firmware_size r of Some n \<Rightarrow> n | None \<Rightarrow> length (up_body r)))"

definition firmware_payload :: "nat \<Rightarrow> nat \<Rightarrow> upstream_response \<Rightarrow> bytes" where
  "firmware_payload start end' r =
     (if up_status r = 200 \<and> end' - start + 1 < length (up_body r)
      then let s = min start (length (up_body r)); e = min (end' + 1) (length (up_body r))
           in take (e - s) (drop s (up_body r))
      else up_body r)"

definition firmware_response :: "message \<Rightarrow> block \<Rightarrow> upstream_response \<Rightarrow> message" where
  "firmware_response req b r =
     (let (start, end') = byte_range b;
          content_range = Option.bind (up_content_range r) parse_content_range;
          tot = firmware_total r in
      if (case content_range of Some (got_start, _, _) \<Rightarrow> got_start \<noteq> start | None \<Rightarrow> False)
      then diagnostic req BAD_REQUEST ''block out of range''
      else if tot \<le> start \<and> 0 < tot
      then diagnostic req BAD_REQUEST ''block out of range''
      else
        let out1 = set_option_uint CONTENT_FORMAT (ucast OCTET_STREAM) (response CONTENT req);
            out2 = set_option_uint BLOCK2
              (block_encode \<lparr>blk_num = blk_num b, blk_more = more_after b tot,
                 blk_szx = blk_szx b\<rparr>) out1;
            out3 = (if blk_num b = 0 then set_option_uint SIZE2 (of_nat tot) out2 else out2);
            out4 = (case Option.bind (up_firmware_sha256 r) (\<lambda>hex. hex_prefix_bytes hex 8) of
              Some etag \<Rightarrow> push_option ETAG etag out3
            | None \<Rightarrow> out3)
        in out4\<lparr>msg_payload := firmware_payload start end' r\<rparr>)"

definition session_call ::
  "device_session \<Rightarrow> upstream_method \<Rightarrow> string \<Rightarrow> (nat \<times> nat) option \<Rightarrow> (bytes \<times> bytes) option
   \<Rightarrow> upstream_call" where
  "session_call session method leaf rng body =
     \<lparr>uc_method = method, uc_pigeon_id = ds_pigeon_id session, uc_leaf = ascii leaf,
      uc_bearer = ds_token session, uc_range = rng, uc_body = body\<rparr>"

definition firmware ::
  "upstream \<Rightarrow> u8 \<Rightarrow> message \<Rightarrow> device_session \<Rightarrow> transport \<Rightarrow> message \<times> upstream_call list" where
  "firmware up udp_max_szx req session transport =
     (let b = firmware_block udp_max_szx req transport;
          call = session_call session Get ''firmware'' (Some (byte_range b)) None;
          res = up call in
      ((case res of
          Inr r \<Rightarrow> if up_status r < 300 then firmware_response req b r else error_response req res
        | Inl _ \<Rightarrow> error_response req res),
       [call]))"

section \<open>Block1 reassembly\<close>

datatype body_state = Complete bytes | Interim message

definition sweep_block1 :: "instant \<Rightarrow> block1_table \<Rightarrow> block1_table" where
  "sweep_block1 now t = hm_retain (\<lambda>_ r. now - ra_touched r < BLOCK1_IDLE_TIMEOUT) t"

text \<open>From \<open>let Some(entry) = map.get_mut(&key)\<close> on: append a block to a tracked upload.\<close>

definition append_block ::
  "instant \<Rightarrow> message \<Rightarrow> block \<Rightarrow> block1_key \<Rightarrow> block1_table \<Rightarrow> body_state \<times> block1_table" where
  "append_block now req b key t = (case hm_get t key of
     None \<Rightarrow> (Interim (diagnostic req REQUEST_ENTITY_INCOMPLETE ''no block context''), t)
   | Some entry \<Rightarrow>
       if ra_next_num entry \<noteq> blk_num b
       then (Interim (diagnostic req REQUEST_ENTITY_INCOMPLETE ''block out of sequence''),
             hm_remove key t)
       else if MAX_BLOCK1_BODY < length (ra_data entry) + length (msg_payload req)
       then (Interim (diagnostic req REQUEST_ENTITY_TOO_LARGE ''body too large''), hm_remove key t)
       else
         let t2 = hm_insert key
               \<lparr>ra_data = ra_data entry @ msg_payload req,
                ra_next_num = ra_next_num entry + 1, ra_touched = now\<rparr> t in
         if blk_more b
         then (Interim (set_option_uint BLOCK1 (block_encode b) (response CONTINUE req)), t2)
         else (Complete (case hm_get t2 key of Some r \<Rightarrow> ra_data r | None \<Rightarrow> []),
               hm_remove key t2))"

definition assemble_body ::
  "instant \<Rightarrow> message \<Rightarrow> device_session \<Rightarrow> bytes \<Rightarrow> block1_table \<Rightarrow> body_state \<times> block1_table" where
  "assemble_body now req session leaf t = (case block1_of req of
     None \<Rightarrow> (Complete (msg_payload req), t)
   | Some b \<Rightarrow>
       let key = (ds_conn_id session, leaf) in
       if blk_num b = 0 then
         if \<not> hm_contains_key t key \<and> MAX_BLOCK1_ENTRIES \<le> hm_len t
         then (Interim (diagnostic req SERVICE_UNAVAILABLE ''block1 reassembly table full''), t)
         else append_block now req b key
                (hm_insert key \<lparr>ra_data = [], ra_next_num = 0, ra_touched = now\<rparr> t)
       else append_block now req b key t)"

section \<open>The request handler\<close>

text \<open>A POST leaf: the body, then the call with its content type, then the final Block1 echo.\<close>

definition post_leaf ::
  "upstream \<Rightarrow> instant \<Rightarrow> message \<Rightarrow> device_session \<Rightarrow> string \<Rightarrow> string
   \<Rightarrow> (bytes + upstream_response \<Rightarrow> message) \<Rightarrow> block1_table
   \<Rightarrow> message \<times> block1_table \<times> upstream_call list" where
  "post_leaf up now req session leaf content_type respond t =
     (case assemble_body now req session (ascii leaf) t of
        (Interim msg, t') \<Rightarrow> (msg, t', [])
      | (Complete body, t') \<Rightarrow>
          let call = session_call session Post leaf None (Some (body, ascii content_type))
          in (echo_final_block1 req (respond (up call)), t', [call]))"

definition logs_response :: "message \<Rightarrow> bytes + upstream_response \<Rightarrow> message" where
  "logs_response req res = (case res of
     Inr r \<Rightarrow> if up_status r < 300 then response CHANGED req else error_response req res
   | Inl _ \<Rightarrow> error_response req res)"

definition handle_leaf ::
  "upstream \<Rightarrow> u8 \<Rightarrow> instant \<Rightarrow> message \<Rightarrow> device_session \<Rightarrow> transport \<Rightarrow> bytes \<Rightarrow> block1_table
   \<Rightarrow> message \<times> block1_table \<times> upstream_call list" where
  "handle_leaf up szx now req session transport leaf t =
     (if leaf = ascii ''shadow'' \<and> msg_code req = GET then
        let call = session_call session Get ''shadow'' None None
        in (json_response szx req (up call) Get transport, t, [call])
      else if leaf = ascii ''shadow'' \<and> msg_code req = POST then
        post_leaf up now req session ''shadow'' ''application/json''
          (\<lambda>res. json_response szx req res Post transport) t
      else if leaf = ascii ''telemetry'' \<and> msg_code req = POST then
        post_leaf up now req session ''telemetry'' ''application/json''
          (\<lambda>res. json_response szx req res Post transport) t
      else if leaf = ascii ''logs'' \<and> msg_code req = POST then
        post_leaf up now req session ''logs'' ''application/octet-stream'' (logs_response req) t
      else if leaf = ascii ''firmware'' \<and> msg_code req = GET then
        (case firmware up szx req session transport of (m, calls) \<Rightarrow> (m, t, calls))
      else if leaf \<in> {ascii ''shadow'', ascii ''telemetry'', ascii ''logs'', ascii ''firmware''} then
        (diagnostic req METHOD_NOT_ALLOWED ''method not allowed'', t, [])
      else (diagnostic req NOT_FOUND ''no such resource'', t, []))"

definition handle ::
  "upstream \<Rightarrow> u8 \<Rightarrow> instant \<Rightarrow> instant \<Rightarrow> message \<Rightarrow> device_session \<Rightarrow> transport \<Rightarrow> block1_table
   \<Rightarrow> message \<times> block1_table \<times> upstream_call list" where
  "handle up szx now_sweep now req session transport t0 =
     (let t = sweep_block1 now_sweep t0 in
      if \<not> is_request (msg_code req) then (diagnostic req BAD_REQUEST ''not a request'', t, [])
      else if unknown_critical_option req KNOWN_OPTIONS \<noteq> None
      then (diagnostic req BAD_OPTION ''unrecognized critical option'', t, [])
      else case path_segments req of
        [seg_device, seg_pigeons, pigeon_id, leaf] \<Rightarrow>
          if seg_device \<noteq> ascii ''device'' \<or> seg_pigeons \<noteq> ascii ''pigeons''
          then (diagnostic req NOT_FOUND ''no such resource'', t, [])
          else if pigeon_id \<noteq> ds_pigeon_id session
          then (diagnostic req FORBIDDEN ''pigeon id does not match identity'', t, [])
          else handle_leaf up szx now req session transport leaf t
      | _ \<Rightarrow> (diagnostic req NOT_FOUND ''no such resource'', t, []))"

section \<open>What a request can do\<close>

lemma diagnostic_fields [simp]:
  "msg_code (diagnostic req c text) = c" "msg_token (diagnostic req c text) = msg_token req"
  "msg_payload (diagnostic req c text) = ascii text" "msg_options (diagnostic req c text) = []"
  by (simp_all add: diagnostic_def response_def)

text \<open>Requests that reach the routes: the identity check of the handler has passed.\<close>

definition accepted_route :: "message \<Rightarrow> device_session \<Rightarrow> bytes \<Rightarrow> bool" where
  "accepted_route req session leaf \<longleftrightarrow>
     is_request (msg_code req) \<and> unknown_critical_option req KNOWN_OPTIONS = None
     \<and> path_segments req = [ascii ''device'', ascii ''pigeons'', ds_pigeon_id session, leaf]"

lemma handle_accepted:
  "accepted_route req session leaf \<Longrightarrow> handle up szx n1 n2 req session tr t
    = handle_leaf up szx n2 req session tr leaf (sweep_block1 n1 t)"
  by (simp add: handle_def accepted_route_def Let_def del: ascii_Cons)

lemma handle_refused:
  assumes "\<nexists>leaf. accepted_route req session leaf"
  shows "\<exists>c text. handle up szx n1 n2 req session tr t = (diagnostic req c text, sweep_block1 n1 t, [])
    \<and> c \<in> {BAD_REQUEST, BAD_OPTION, NOT_FOUND, FORBIDDEN} \<and> length text < 64"
proof -
  consider "\<not> is_request (msg_code req)" | "is_request (msg_code req)"
    "unknown_critical_option req KNOWN_OPTIONS \<noteq> None"
    | "is_request (msg_code req)" "unknown_critical_option req KNOWN_OPTIONS = None"
      "length (path_segments req) \<noteq> 4"
    | a b c d where "is_request (msg_code req)" "unknown_critical_option req KNOWN_OPTIONS = None"
      "path_segments req = [a, b, c, d]"
    by (fastforce simp: numeral_eq_Suc length_Suc_conv)
  then show ?thesis
  proof cases
    case 3
    then have "handle up szx n1 n2 req session tr t
        = (diagnostic req NOT_FOUND ''no such resource'', sweep_block1 n1 t, [])"
      by (auto simp: handle_def Let_def simp del: ascii_Cons split: list.split)
    then show ?thesis by (intro exI [of _ NOT_FOUND] exI [of _ "''no such resource''"]) simp
  next
    case (4 a b c d)
    with assms have "a \<noteq> ascii ''device'' \<or> b \<noteq> ascii ''pigeons'' \<or> c \<noteq> ds_pigeon_id session"
      by (auto simp: accepted_route_def)
    then show ?thesis
      using 4 by (auto simp: handle_def Let_def simp del: ascii_Cons intro!: exI)
  qed (auto simp: handle_def Let_def intro!: exI)
qed

text \<open>The Block1 table only changes by the sweep and, for a POST route, one reassembly step.\<close>

lemma post_leaf_table:
  "post_leaf up now req session leaf ct f t = (m, t', calls) \<Longrightarrow>
    t' = snd (assemble_body now req session (ascii leaf) t)"
  by (auto simp: post_leaf_def Let_def split: prod.splits body_state.splits)

lemma handle_leaf_table:
  assumes "handle_leaf up szx now req session tr leaf t = (m, t', calls)"
  shows "t' = t \<or> t' = snd (assemble_body now req session leaf t)"
  using assms post_leaf_table
  by (auto simp: handle_leaf_def Let_def simp del: ascii_Cons split: if_splits prod.splits)

lemma handle_table:
  assumes "handle up szx n1 n2 req session tr t = (m, t', calls)"
  shows "t' = sweep_block1 n1 t
    \<or> (\<exists>leaf. t' = snd (assemble_body n2 req session leaf (sweep_block1 n1 t)))"
proof (cases "\<exists>leaf. accepted_route req session leaf")
  case True
  then obtain leaf where "accepted_route req session leaf" ..
  from assms [unfolded handle_accepted [OF this]] show ?thesis
    using handle_leaf_table by blast
next
  case False
  from handle_refused [OF this, of up szx n1 n2 tr t] assms show ?thesis by auto
qed

text \<open>The calls of a route.\<close>

definition route_call :: "message \<Rightarrow> device_session \<Rightarrow> bytes \<Rightarrow> upstream_call \<Rightarrow> bool" where
  "route_call req session leaf c \<longleftrightarrow>
     uc_pigeon_id c = ds_pigeon_id session \<and> uc_bearer c = ds_token session \<and> uc_leaf c = leaf
     \<and> (msg_code req = GET \<and> uc_method c = Get \<and> uc_body c = None
          \<and> leaf \<in> {ascii ''shadow'', ascii ''firmware''}
        \<or> msg_code req = POST \<and> uc_method c = Post \<and> uc_range c = None
          \<and> leaf \<in> {ascii ''shadow'', ascii ''telemetry'', ascii ''logs''})"

lemma post_leaf_calls:
  "post_leaf up now req session leaf ct f t = (m, t', calls) \<Longrightarrow>
    calls = [] \<or> (\<exists>body. calls = [session_call session Post leaf None (Some (body, ascii ct))]
      \<and> fst (assemble_body now req session (ascii leaf) t) = Complete body)"
  by (auto simp: post_leaf_def Let_def split: prod.splits body_state.splits)

lemma handle_leaf_calls:
  assumes "handle_leaf up szx now req session tr leaf t = (m, t', calls)"
  shows "calls = [] \<or> (\<exists>c. calls = [c] \<and> route_call req session leaf c)"
  using assms
  by (auto simp: handle_leaf_def Let_def firmware_def session_call_def route_call_def
      simp del: ascii_Cons split: if_splits prod.splits dest!: post_leaf_calls)

lemma handle_calls:
  assumes "handle up szx n1 n2 req session tr t = (m, t', calls)"
  shows "calls = [] \<or> (\<exists>leaf c. calls = [c] \<and> accepted_route req session leaf
    \<and> route_call req session leaf c)"
proof (cases "\<exists>leaf. accepted_route req session leaf")
  case True
  then obtain leaf where a: "accepted_route req session leaf" ..
  from handle_leaf_calls [OF assms [unfolded handle_accepted [OF a]]] a show ?thesis by blast
next
  case False
  from handle_refused [OF this, of up szx n1 n2 tr t] assms show ?thesis by auto
qed

section \<open>The reassembly table\<close>

definition block1_ok :: "block1_table \<Rightarrow> bool" where
  "block1_ok t \<longleftrightarrow> hm_ok t \<and> hm_len t \<le> MAX_BLOCK1_ENTRIES
     \<and> (\<forall>k r. hm_get t k = Some r \<longrightarrow> length (ra_data r) \<le> MAX_BLOCK1_BODY)"

lemma block1_ok_hm: "block1_ok t \<Longrightarrow> hm_ok t"
  by (simp add: block1_ok_def)

lemma block1_ok_empty: "block1_ok []"
  by (simp add: block1_ok_def)

lemma block1_ok_sweep: "block1_ok t \<Longrightarrow> block1_ok (sweep_block1 now t)"
  by (auto simp: block1_ok_def sweep_block1_def hm.ok_retain hm.get_retain_Some
      intro: le_trans [OF hm.len_retain_le])

lemma block1_ok_remove: "block1_ok t \<Longrightarrow> block1_ok (hm_remove k t)"
  by (auto simp: block1_ok_def table_simps split: if_splits)

lemma block1_ok_insert:
  assumes "block1_ok t" and "length (ra_data r) \<le> MAX_BLOCK1_BODY"
    and "hm_get t k \<noteq> None \<or> hm_len t < MAX_BLOCK1_ENTRIES"
  shows "block1_ok (hm_insert k r t)"
  using assms by (auto simp: block1_ok_def table_simps split: if_splits)

lemma block1_ok_append:
  assumes "block1_ok t"
  shows "block1_ok (snd (append_block now req b key t))"
proof (cases "hm_get t key")
  case None
  then show ?thesis using assms by (simp add: append_block_def)
next
  case (Some entry)
  then show ?thesis
    using assms by (simp add: append_block_def Let_def block1_ok_remove block1_ok_insert)
qed

lemma block1_ok_assemble:
  assumes "block1_ok t"
  shows "block1_ok (snd (assemble_body now req session leaf t))"
proof (cases "block1_of req")
  case None
  then show ?thesis using assms by (simp add: assemble_body_def)
next
  case (Some b)
  then show ?thesis
    using assms
    by (auto simp: assemble_body_def Let_def hm_contains_key_def
        intro!: block1_ok_append block1_ok_insert)
qed

lemma block1_ok_handle:
  assumes "block1_ok t" and "handle up szx n1 n2 req session tr t = (m, t', calls)"
  shows "block1_ok t'"
  using handle_table [OF assms(2)] assms(1) by (auto intro: block1_ok_sweep block1_ok_assemble)

section \<open>Properties\<close>

text \<open>C1. A session can only ever act as itself: whatever a request contains, handling it makes at most
  one upstream call, for the pigeon the handshake authenticated and with that pigeon's own token;
  the call is for the leaf the path named, GET reads and POST writes, and it is only made when the
  path's pigeon id is the session's.\<close>

theorem calls_bound_to_identity:
  assumes "handle up szx n1 n2 req session tr t = (m, t', calls)"
  shows "length calls \<le> 1
    \<and> (\<forall>c \<in> set calls. uc_pigeon_id c = ds_pigeon_id session \<and> uc_bearer c = ds_token session
        \<and> path_segments req
            = [ascii ''device'', ascii ''pigeons'', ds_pigeon_id session, uc_leaf c]
        \<and> (msg_code req = GET \<and> uc_method c = Get \<and> uc_body c = None
              \<and> uc_leaf c \<in> {ascii ''shadow'', ascii ''firmware''}
            \<or> msg_code req = POST \<and> uc_method c = Post \<and> uc_range c = None
              \<and> uc_leaf c \<in> {ascii ''shadow'', ascii ''telemetry'', ascii ''logs''}))"
  using handle_calls [OF assms]
  by (auto simp: route_call_def accepted_route_def simp del: ascii_Cons)

theorem calls_bound_to_identity_witness:
  "\<exists>m t'. handle (\<lambda>_. Inl []) 6 0 0
     \<lparr>msg_code = GET, msg_token = [1], msg_options = [(11, ascii ''device''), (11, ascii ''pigeons''),
       (11, ascii ''p1''), (11, ascii ''shadow'')], msg_payload = []\<rparr>
     \<lparr>ds_pigeon_id = ascii ''p1'', ds_token = [7], ds_peer = [], ds_conn_id = 1\<rparr> Udp []
     = (m, t', [\<lparr>uc_method = Get, uc_pigeon_id = ascii ''p1'', uc_leaf = ascii ''shadow'',
         uc_bearer = [7], uc_range = None, uc_body = None\<rparr>])"
proof -
  let ?req = "\<lparr>msg_code = GET, msg_token = [1], msg_options = [(11, ascii ''device''),
     (11, ascii ''pigeons''), (11, ascii ''p1''), (11, ascii ''shadow'')], msg_payload = []\<rparr>"
  let ?s = "\<lparr>ds_pigeon_id = ascii ''p1'', ds_token = [7], ds_peer = [], ds_conn_id = 1\<rparr>"
  have l: "from_utf8_lossy (ascii ''device'') = ascii ''device''"
    "from_utf8_lossy (ascii ''pigeons'') = ascii ''pigeons''"
    "from_utf8_lossy (ascii ''p1'') = ascii ''p1''"
    "from_utf8_lossy (ascii ''shadow'') = ascii ''shadow''"
    by (rule from_utf8_lossy_valid, rule from_utf8_ok_ascii, simp)+
  have a: "accepted_route ?req ?s (ascii ''shadow'')"
    by (simp add: accepted_route_def path_segments_def option_values_def URI_PATH_def l
        is_request_def code_defs unknown_critical_option_def KNOWN_OPTIONS_def is_critical_def
        option_defs del: ascii_Cons)
  obtain m t' calls where h: "handle (\<lambda>_. Inl []) 6 0 0 ?req ?s Udp [] = (m, t', calls)"
    by (metis prod_cases3)
  from h [unfolded handle_accepted [OF a]]
  have "calls = [session_call ?s Get ''shadow'' None None]"
    by (simp add: handle_leaf_def Let_def)
  with h calls_bound_to_identity [OF h] show ?thesis
    by (intro exI [of _ m] exI [of _ t']) (simp add: session_call_def)
qed

text \<open>A path naming another pigeon is refused with 4.03 before anything happens: no upstream call is
  made and the reassembly table only loses what had idled out.\<close>

theorem foreign_pigeon_forbidden:
  assumes "is_request (msg_code req)" and "unknown_critical_option req KNOWN_OPTIONS = None"
    and "path_segments req = [ascii ''device'', ascii ''pigeons'', other, leaf]"
    and "other \<noteq> ds_pigeon_id session"
  shows "handle up szx n1 n2 req session tr t
    = ((response FORBIDDEN req)\<lparr>msg_payload := ascii ''pigeon id does not match identity''\<rparr>,
       sweep_block1 n1 t, [])"
  using assms by (simp add: handle_def Let_def diagnostic_def del: ascii_Cons)

theorem foreign_pigeon_forbidden_witness:
  "handle (\<lambda>_. Inl []) 6 0 0
     \<lparr>msg_code = POST, msg_token = [], msg_options = [(11, ascii ''device''), (11, ascii ''pigeons''),
       (11, ascii ''p2''), (11, ascii ''logs'')], msg_payload = [1]\<rparr>
     \<lparr>ds_pigeon_id = ascii ''p1'', ds_token = [7], ds_peer = [], ds_conn_id = 1\<rparr> Tcp []
   = (\<lparr>msg_code = FORBIDDEN, msg_token = [], msg_options = [],
       msg_payload = ascii ''pigeon id does not match identity''\<rparr>, [], [])"
proof -
  let ?req = "\<lparr>msg_code = POST, msg_token = [], msg_options = [(11, ascii ''device''),
     (11, ascii ''pigeons''), (11, ascii ''p2''), (11, ascii ''logs'')], msg_payload = [1]\<rparr>"
  let ?s = "\<lparr>ds_pigeon_id = ascii ''p1'', ds_token = [7], ds_peer = [], ds_conn_id = 1\<rparr>"
  have l: "from_utf8_lossy (ascii ''device'') = ascii ''device''"
    "from_utf8_lossy (ascii ''pigeons'') = ascii ''pigeons''"
    "from_utf8_lossy (ascii ''p2'') = ascii ''p2''"
    "from_utf8_lossy (ascii ''logs'') = ascii ''logs''"
    by (rule from_utf8_lossy_valid, rule from_utf8_ok_ascii, simp)+
  have p: "path_segments ?req = [ascii ''device'', ascii ''pigeons'', ascii ''p2'', ascii ''logs'']"
    by (simp add: path_segments_def option_values_def URI_PATH_def l del: ascii_Cons)
  have c: "is_request (msg_code ?req)" "unknown_critical_option ?req KNOWN_OPTIONS = None"
    by (simp_all add: is_request_def code_defs unknown_critical_option_def KNOWN_OPTIONS_def
        is_critical_def option_defs)
  show ?thesis
    using foreign_pigeon_forbidden [OF c p, of ?s "\<lambda>_. Inl []" 6 0 0 Tcp "[]"]
    by (simp add: response_def sweep_block1_def hm_defs)
qed

end
