(* ===== verification/Coap_Udp.thy ===== *)
theory Coap_Udp
  imports Coap_Message
begin

text \<open>
  \<open>loft/src/coap/udp.rs\<close>: the RFC 7252 datagram, a four-byte header (version, type, token length,
  code, message id) around the shared options-and-payload region. Lemmas: the header fields, the
  datagram round trip, and that an accepted datagram is well formed and re-encodes to itself.
\<close>

definition VERSION :: u8 where "VERSION = 1"

datatype message_type = Confirmable | NonConfirmable | Acknowledgement | Reset

definition message_type_from_bits :: "u8 \<Rightarrow> message_type" where
  "message_type_from_bits bits =
     (let b = bits AND 3 in
      if b = 0 then Confirmable else if b = 1 then NonConfirmable
      else if b = 2 then Acknowledgement else Reset)"

fun message_type_bits :: "message_type \<Rightarrow> u8" where
  "message_type_bits Confirmable = 0"
| "message_type_bits NonConfirmable = 1"
| "message_type_bits Acknowledgement = 2"
| "message_type_bits Reset = 3"

record datagram =
  dg_type :: message_type
  dg_id :: u16
  dg_message :: message

definition datagram_encode :: "datagram \<Rightarrow> bytes" where
  "datagram_encode d =
     (let m = dg_message d; tkl = min (length (msg_token m)) MAX_TOKEN_LEN in
      [push_bit 6 VERSION OR push_bit 4 (message_type_bits (dg_type d)) OR of_nat tkl, msg_code m]
      @ u16_to_be_bytes (dg_id d) @ take tkl (msg_token m) @ encode_options_and_payload m)"

definition datagram_decode :: "bytes \<Rightarrow> decode_error + datagram" where
  "datagram_decode buf =
     (if length buf < 4 then Inl Truncated
      else if drop_bit 6 (buf ! 0) \<noteq> VERSION then Inl BadOptionEncoding
      else
        let message_type = message_type_from_bits (drop_bit 4 (buf ! 0));
            tkl = unat (buf ! 0 AND 0x0F) in
        if tkl > MAX_TOKEN_LEN then Inl BadTokenLength
        else
          let code = buf ! 1; message_id = u16_from_be_bytes (buf ! 2) (buf ! 3) in
          if length buf < 4 + tkl then Inl Truncated
          else
            let token = take tkl (drop 4 buf) in
            (case decode_options_and_payload (drop (4 + tkl) buf)
                    (default_message\<lparr>msg_code := code, msg_token := token\<rparr>) of
               Inl e \<Rightarrow> Inl e
             | Inr message \<Rightarrow>
                 Inr \<lparr>dg_type = message_type, dg_id = message_id, dg_message = message\<rparr>))"

section \<open>The header byte\<close>

lemma header_byte:
  assumes "tkl \<le> MAX_TOKEN_LEN"
    and "b = push_bit 6 VERSION OR push_bit 4 (message_type_bits t) OR of_nat tkl"
  shows "drop_bit 6 b = VERSION" and "message_type_from_bits (drop_bit 4 b) = t"
    and "unat (b AND 0x0F) = tkl"
proof -
  from assms(1) have "tkl \<in> {0, 1, 2, 3, 4, 5, 6, 7, 8}" by (auto simp: MAX_TOKEN_LEN_def)
  then show "drop_bit 6 b = VERSION" and "message_type_from_bits (drop_bit 4 b) = t"
    and "unat (b AND 0x0F) = tkl"
    by (cases t; auto simp: assms(2) VERSION_def message_type_from_bits_def)+
qed

text \<open>A message either framing can carry: encodable options and at most eight token bytes.\<close>

definition wire_ok :: "message \<Rightarrow> bool" where
  "wire_ok m \<longleftrightarrow> encodable m \<and> length (msg_token m) \<le> MAX_TOKEN_LEN"

lemma datagram_decode_encode:
  assumes "wire_ok (dg_message d)"
  shows "datagram_decode (datagram_encode d) = Inr (d\<lparr>dg_message := wire_form (dg_message d)\<rparr>)"
proof -
  let ?m = "dg_message d"
  let ?tkl = "length (msg_token ?m)"
  have tkl: "?tkl \<le> MAX_TOKEN_LEN" and enc: "encodable ?m"
    using assms by (auto simp: wire_ok_def)
  let ?base = "default_message\<lparr>msg_code := msg_code ?m, msg_token := msg_token ?m\<rparr>"
  have w: "?base\<lparr>msg_options := sort_key fst (msg_options ?m), msg_payload := msg_payload ?m\<rparr>
      = wire_form ?m"
    by (simp add: wire_form_def)
  have body: "decode_options_and_payload (encode_options_and_payload ?m) ?base = Inr (wire_form ?m)"
    using decode_encode_message [OF enc, of ?base] unfolding w by (simp add: default_message_def)
  note hb = header_byte [OF tkl refl, of "dg_type d"]
  obtain a b where ab: "u16_to_be_bytes (dg_id d) = [a, b]" "u16_from_be_bytes a b = dg_id d"
    using u16_to_be_bytes_read by blast
  have drop4: "drop (4 + n) (p # q # a # b # xs) = drop n xs" for p q n and xs :: bytes
    by (simp add: numeral_eq_Suc)
  show ?thesis
    using hb tkl body ab
    by (cases d) (simp add: datagram_decode_def datagram_encode_def Let_def min_absorb1 drop4
        del: drop_bit_or)
qed

lemma datagram_decode_yields:
  assumes "datagram_decode buf = Inr d"
  shows "wire_ok (dg_message d)" and "wire_form (dg_message d) = dg_message d"
    and "options_size (msg_options (dg_message d)) + length (msg_payload (dg_message d))
       + length (msg_token (dg_message d)) + 4 \<le> length buf"
    and "length (msg_token (dg_message d)) = unat (buf ! 0 AND 15)"
proof -
  let ?m = "dg_message d"
  let ?tkl = "unat (buf ! 0 AND 0x0F)"
  from assms have long: "4 + ?tkl \<le> length buf" and tkl: "?tkl \<le> MAX_TOKEN_LEN" and
    dec: "decode_options_and_payload (drop (4 + ?tkl) buf)
      (default_message\<lparr>msg_code := buf ! 1, msg_token := take ?tkl (drop 4 buf)\<rparr>) = Inr ?m"
    by (auto simp: datagram_decode_def Let_def split: if_splits sum.splits)
  from decode_options_loop_yields [OF dec [unfolded decode_options_and_payload_def]]
  have *: "sorted (map fst (msg_options ?m))" "encodable ?m"
    "msg_token ?m = take ?tkl (drop 4 buf)"
    "options_size (msg_options ?m) + length (msg_payload ?m) \<le> length buf - (4 + ?tkl)"
    by (auto simp: encodable_def default_message_def)
  then have len: "length (msg_token ?m) = ?tkl" using long by simp
  show "length (msg_token ?m) = unat (buf ! 0 AND 15)" by (rule len)
  show "wire_ok ?m" using *(2) len tkl by (simp add: wire_ok_def)
  show "wire_form ?m = ?m" using *(1) by (simp add: wire_form_def sort_key_id_if_sorted)
  show "options_size (msg_options ?m) + length (msg_payload ?m) + length (msg_token ?m) + 4
      \<le> length buf"
    using *(4) len long by simp
qed

section \<open>Properties\<close>

text \<open>C11. UDP datagrams round-trip: type, message id, code, token, payload and every option of a
  message with at most eight token bytes come back from its encoding, options in number order.\<close>

theorem datagram_roundtrip:
  assumes "wire_ok (dg_message d)"
  shows "datagram_decode (datagram_encode d) = Inr (d\<lparr>dg_message := wire_form (dg_message d)\<rparr>)"
  by (rule datagram_decode_encode [OF assms])

theorem datagram_roundtrip_witness:
  "datagram_decode (datagram_encode \<lparr>dg_type = Confirmable, dg_id = 0x1234, dg_message =
      \<lparr>msg_code = GET, msg_token = [0xDE, 0xAD], msg_options = [(11, [115])], msg_payload = []\<rparr>\<rparr>)
   = Inr \<lparr>dg_type = Confirmable, dg_id = 0x1234, dg_message =
      \<lparr>msg_code = GET, msg_token = [0xDE, 0xAD], msg_options = [(11, [115])], msg_payload = []\<rparr>\<rparr>"
  using datagram_roundtrip [of "\<lparr>dg_type = Confirmable, dg_id = 0x1234, dg_message =
      \<lparr>msg_code = GET, msg_token = [0xDE, 0xAD], msg_options = [(11, [115])], msg_payload = []\<rparr>\<rparr>"]
  by (simp add: wire_ok_def encodable_def MAX_TOKEN_LEN_def MAX_NIBBLE_VALUE_def wire_form_def)

text \<open>A datagram is accepted only when it is at least four bytes long, has version 1, a token
  length of at most eight and that many token bytes; each violation gives its own error before
  anything else is read, and an accepted datagram re-encodes to bytes that decode to itself and
  holds no more option, payload and token bytes than arrived.\<close>

theorem datagram_decode_strict:
  "(length buf < 4 \<longrightarrow> datagram_decode buf = Inl Truncated)
   \<and> (4 \<le> length buf \<and> drop_bit 6 (buf ! 0) \<noteq> 1 \<longrightarrow> datagram_decode buf = Inl BadOptionEncoding)
   \<and> (4 \<le> length buf \<and> drop_bit 6 (buf ! 0) = 1 \<and> 8 < unat (buf ! 0 AND 15)
        \<longrightarrow> datagram_decode buf = Inl BadTokenLength)
   \<and> (\<forall>d. datagram_decode buf = Inr d \<longrightarrow>
        length (msg_token (dg_message d)) = unat (buf ! 0 AND 15)
        \<and> datagram_decode (datagram_encode d) = Inr d
        \<and> options_size (msg_options (dg_message d)) + length (msg_payload (dg_message d))
          + length (msg_token (dg_message d)) + 4 \<le> length buf)"
proof (intro conjI allI impI)
  show "length buf < 4 \<Longrightarrow> datagram_decode buf = Inl Truncated"
    by (simp add: datagram_decode_def)
  show "4 \<le> length buf \<and> drop_bit 6 (buf ! 0) \<noteq> 1 \<Longrightarrow> datagram_decode buf = Inl BadOptionEncoding"
    by (simp add: datagram_decode_def VERSION_def)
  show "4 \<le> length buf \<and> drop_bit 6 (buf ! 0) = 1 \<and> 8 < unat (buf ! 0 AND 15)
      \<Longrightarrow> datagram_decode buf = Inl BadTokenLength"
    by (simp add: datagram_decode_def VERSION_def MAX_TOKEN_LEN_def Let_def)
  fix d assume d: "datagram_decode buf = Inr d"
  show "length (msg_token (dg_message d)) = unat (buf ! 0 AND 15)"
    by (rule datagram_decode_yields(4) [OF d])
  show "datagram_decode (datagram_encode d) = Inr d"
    using datagram_decode_encode [OF datagram_decode_yields(1) [OF d]]
      datagram_decode_yields(2) [OF d] by simp
  show "options_size (msg_options (dg_message d)) + length (msg_payload (dg_message d))
      + length (msg_token (dg_message d)) + 4 \<le> length buf"
    by (rule datagram_decode_yields(3) [OF d])
qed

theorem datagram_decode_strict_witness:
  "datagram_decode [0x49, 1, 0, 0, 1, 2, 3, 4, 5, 6, 7, 8, 9] = Inl BadTokenLength
   \<and> datagram_decode [2, 1] = Inl Truncated \<and> datagram_decode [0, 1, 0, 0] = Inl BadOptionEncoding"
  using datagram_decode_strict [of "[0x49, 1, 0, 0, 1, 2, 3, 4, 5, 6, 7, 8, 9]"]
    datagram_decode_strict [of "[2, 1]"] datagram_decode_strict [of "[0, 1, 0, 0]"]
  by simp

end
