(* ===== verification/Block2_Transfer.thy ===== *)
theory Block2_Transfer
  imports Handler Coap_Udp "HOL-Library.Multiset"
begin

text \<open>
  The response side of \<open>loft/src/handler.rs\<close>: block-wise JSON bodies and firmware, upstream errors,
  and the size of what goes into one datagram. The lemmas reduce a response to the slice of the
  body it carries and to its Block2 option; the properties say that the slices tile the body.
\<close>

section \<open>Slices\<close>

lemma slices_tile: "concat (map (\<lambda>i. take k (drop (i * k) xs)) [0..<n]) = take (n * k) xs"
proof (induction n)
  case (Suc n)
  have "take (n * k) xs @ take k (drop (n * k) xs) = take (n * k + k) xs"
    by (simp add: take_add)
  with Suc show ?case by (simp add: add.commute)
qed simp

text \<open>The number of blocks of size \<open>k\<close> a body of \<open>len\<close> bytes needs.\<close>

definition blocks_for :: "nat \<Rightarrow> nat \<Rightarrow> nat" where
  "blocks_for k len = (len + k - 1) div k"

lemma blocks_for_cover: "0 < k \<Longrightarrow> len \<le> blocks_for k len * k"
proof -
  assume k: "0 < k"
  have "len + k - 1 = blocks_for k len * k + (len + k - 1) mod k"
    unfolding blocks_for_def by (rule div_mult_mod_eq [symmetric])
  moreover have "(len + k - 1) mod k < k" using k by (rule mod_less_divisor)
  ultimately show ?thesis by linarith
qed

lemma blocks_for_in: "0 < k \<Longrightarrow> i < blocks_for k len \<Longrightarrow> i * k < len"
proof -
  assume k: "0 < k" and i: "i < blocks_for k len"
  then have "Suc i * k \<le> blocks_for k len * k" by (intro mult_right_mono) auto
  also have "\<dots> \<le> len + k - 1" unfolding blocks_for_def by (rule div_times_less_eq_dividend)
  finally show ?thesis using k by simp
qed

section \<open>Served blocks\<close>

text \<open>The block a request asks for, as it is served under a ceiling.\<close>

definition same_offset :: "block \<Rightarrow> u8 \<Rightarrow> bool" where
  "same_offset b szx \<longleftrightarrow> unat (blk_num b) * 2 ^ unat (blk_szx b - min (blk_szx b) szx) < 2 ^ 28"

lemma capped_szx: "blk_szx (capped b szx) = min (blk_szx b) szx"
  by (simp add: capped_def min_def)

lemma capped_num:
  assumes "blk_szx b \<le> MAX_SZX" and "same_offset b szx"
  shows "unat (blk_num (capped b szx)) = unat (blk_num b) * 2 ^ unat (blk_szx b - min (blk_szx b) szx)"
proof (cases "blk_szx b \<le> szx")
  case True
  then show ?thesis by (simp add: capped_def min_def)
next
  case False
  then have lt: "szx < blk_szx b" by simp
  then have m: "min (blk_szx b) szx = szx" by simp
  show ?thesis
    using capped_unsaturated [OF lt assms(1)] assms(2) by (simp add: same_offset_def m)
qed

lemma capped_offset:
  assumes "blk_szx b \<le> MAX_SZX" and "same_offset b szx"
  shows "block_offset (capped b szx) = block_offset b"
  using capped_num [OF assms] size_for_split [of "min (blk_szx b) szx" "blk_szx b"]
  by (simp add: block_offset_def block_size_def capped_szx)

lemma capped_encodes:
  assumes "blk_szx b \<le> MAX_SZX" and "same_offset b szx"
  shows "block_decode (block_encode \<lparr>blk_num = blk_num (capped b szx), blk_more = m,
      blk_szx = blk_szx (capped b szx)\<rparr>)
    = Some \<lparr>blk_num = blk_num (capped b szx), blk_more = m, blk_szx = min (blk_szx b) szx\<rparr>"
  using assms capped_num [OF assms]
  by (subst block_decode_encode) (auto simp: capped_szx same_offset_def min_def)

lemma capped_id: "blk_szx b \<le> szx \<Longrightarrow> capped b szx = b"
  by (simp add: capped_def)

lemma block2_of_set: "block2_of (set_option_uint BLOCK2 v m) = block_decode v"
  by (simp add: block2_of_def option_uint_set)

lemma block2_of_cong: "option_values m BLOCK2 = option_values m' BLOCK2 \<Longrightarrow> block2_of m = block2_of m'"
  unfolding block2_of_def using option_uint_cong by metis

lemma block2_of_other [simp]:
  "n \<noteq> BLOCK2 \<Longrightarrow> block2_of (set_option_uint n v m) = block2_of m"
  "n \<noteq> BLOCK2 \<Longrightarrow> block2_of (push_option n p m) = block2_of m"
  "block2_of (m\<lparr>msg_payload := p\<rparr>) = block2_of m"
  by (rule block2_of_cong, simp add: option_values_set option_values_push)+

lemma block2_of_szx: "block2_of req = Some b \<Longrightarrow> blk_szx b \<le> MAX_SZX"
  by (auto simp: block2_of_def bind_eq_Some_conv dest: block_decode_szx)

lemma option_number_ne [simp]:
  "SIZE2 \<noteq> BLOCK2" "ETAG \<noteq> BLOCK2" "CONTENT_FORMAT \<noteq> BLOCK2" "BLOCK1 \<noteq> BLOCK2"
  by (simp_all add: option_defs)

text \<open>A JSON response to a request for block \<open>b\<close>.\<close>

lemma json_block_response:
  assumes b: "block2_of req = Some b" and so: "same_offset b (max_szx szx tr)"
    and r: "r = json_body_response szx req success full tr"
  shows "if length full \<le> block_offset b \<and> 0 < blk_num b
    then r = diagnostic req BAD_REQUEST ''block out of range''
    else msg_code r = success \<and> msg_token r = msg_token req
      \<and> msg_payload r
          = take (size_for (min (blk_szx b) (max_szx szx tr))) (drop (block_offset b) full)
      \<and> block2_of r = Some \<lparr>blk_num = blk_num (capped b (max_szx szx tr)),
          blk_more = block_offset b + size_for (min (blk_szx b) (max_szx szx tr)) < length full,
          blk_szx = min (blk_szx b) (max_szx szx tr)\<rparr>"
proof -
  let ?c = "capped b (max_szx szx tr)" and ?k = "size_for (min (blk_szx b) (max_szx szx tr))"
  have szx: "blk_szx b \<le> MAX_SZX" using b by (rule block2_of_szx)
  have off: "block_offset ?c = block_offset b" using szx so by (rule capped_offset)
  have size: "block_size ?c = ?k" by (simp add: block_size_def capped_szx)
  have num: "(blk_num ?c = 0) = (blk_num b = 0)"
    using capped_num [OF szx so] by (simp add: unat_eq_0 [symmetric] del: unat_eq_0)
  have sl: "take (min (block_offset b + ?k) (length full) - block_offset b)
      (drop (block_offset b) full) = take ?k (drop (block_offset b) full)"
    by (simp add: min_def)
  have more: "(min (block_offset b + ?k) (length full) < length full)
      = (block_offset b + ?k < length full)"
    by auto
  show ?thesis
    using b num capped_encodes [OF szx so]
    by (auto simp: r json_body_response_def json_block_def Let_def off size sl more block2_of_set
        word_neq_0_conv)
qed

section \<open>Firmware\<close>

text \<open>
  An upstream that serves the image: for a range inside it, either 206 with that slice and the
  matching \<open>Content-Range\<close>, or 200 with the whole image.
\<close>

definition serves_image :: "upstream \<Rightarrow> bytes \<Rightarrow> bool" where
  "serves_image up img \<longleftrightarrow> (\<forall>c s e. uc_leaf c = ascii ''firmware'' \<and> uc_range c = Some (s, e)
     \<and> s < length img \<and> s \<le> e \<longrightarrow> (\<exists>r. up c = Inr r \<and>
       (up_status r = 206 \<and> up_body r = take (e + 1 - s) (drop s img)
          \<and> up_content_range r = Some (content_range_text s (min e (length img - 1)) (length img))
        \<or> up_status r = 200 \<and> up_body r = img \<and> up_content_range r = None
          \<and> up_firmware_size r \<in> {None, Some (length img)})))"

lemma option_number_etag: "block2_of (case x of None \<Rightarrow> m | Some e \<Rightarrow> push_option ETAG e m) = block2_of m"
  by (simp split: option.split)

lemma firmware_response_served:
  assumes "parse_ok": "Option.bind (up_content_range r) parse_content_range \<in> {None, Some (block_offset b, e, tot)}"
    and "firmware_total r = tot" and "block_offset b < tot"
    and "m = firmware_response req b r"
  shows "msg_code m = CONTENT \<and> msg_token m = msg_token req
    \<and> msg_payload m = firmware_payload (block_offset b) (block_offset b + block_size b - 1) r
    \<and> block2_of m = block_decode (block_encode \<lparr>blk_num = blk_num b, blk_more = more_after b tot,
        blk_szx = blk_szx b\<rparr>)"
  using assms
  by (auto simp: firmware_response_def byte_range_def Let_def block2_of_set
      split: option.split)

lemma serves_imageD:
  "serves_image up img \<Longrightarrow> uc_leaf c = ascii ''firmware'' \<Longrightarrow> uc_range c = Some (s, e) \<Longrightarrow>
    s < length img \<Longrightarrow> s \<le> e \<Longrightarrow> \<exists>r. up c = Inr r \<and>
       (up_status r = 206 \<and> up_body r = take (e + 1 - s) (drop s img)
          \<and> up_content_range r = Some (content_range_text s (min e (length img - 1)) (length img))
        \<or> up_status r = 200 \<and> up_body r = img \<and> up_content_range r = None
          \<and> up_firmware_size r \<in> {None, Some (length img)})"
  unfolding serves_image_def by blast

lemma firmware_block_served:
  assumes up: "serves_image up img" and small: "length img < 2 ^ 64"
    and inside: "block_offset b < length img"
    and call: "uc_leaf c = ascii ''firmware''" "uc_range c = Some (byte_range b)"
  shows "\<exists>r. up c = Inr r \<and> up_status r < 300
    \<and> Option.bind (up_content_range r) parse_content_range
        \<in> {None, Some (block_offset b, min (block_offset b + block_size b - 1) (length img - 1),
             length img)}
    \<and> firmware_total r = length img
    \<and> firmware_payload (block_offset b) (block_offset b + block_size b - 1) r
        = take (block_size b) (drop (block_offset b) img)"
proof -
  let ?s = "block_offset b" and ?k = "block_size b"
  have k: "0 < ?k" by simp
  then have le: "?s \<le> ?s + ?k - 1" by linarith
  have kk: "?s + ?k - 1 + 1 - ?s = ?k" "?s + ?k - 1 - ?s + 1 = ?k" "?s + ?k - 1 + 1 = ?s + ?k"
    using k by linarith+
  obtain r where r: "up c = Inr r" and
    *: "up_status r = 206 \<and> up_body r = take ?k (drop ?s img)
          \<and> up_content_range r
            = Some (content_range_text ?s (min (?s + ?k - 1) (length img - 1)) (length img))
        \<or> up_status r = 200 \<and> up_body r = img \<and> up_content_range r = None
          \<and> up_firmware_size r \<in> {None, Some (length img)}"
    using serves_imageD [OF up call(1) call(2) [unfolded byte_range_def] inside le, unfolded kk(1)]
    by (elim exE conjE) (rule that)
  from * show ?thesis
  proof
    assume a: "up_status r = 206 \<and> up_body r = take ?k (drop ?s img)
      \<and> up_content_range r
        = Some (content_range_text ?s (min (?s + ?k - 1) (length img - 1)) (length img))"
    have "parse_content_range (content_range_text ?s (min (?s + ?k - 1) (length img - 1)) (length img))
        = Some (?s, min (?s + ?k - 1) (length img - 1), length img)"
      using inside small by (intro parse_content_range_text) (auto simp: min_less_iff_disj)
    with a r show ?thesis by (auto simp: firmware_total_def firmware_payload_def)
  next
    assume a: "up_status r = 200 \<and> up_body r = img \<and> up_content_range r = None
      \<and> up_firmware_size r \<in> {None, Some (length img)}"
    have "firmware_payload ?s (?s + ?k - 1) r = take ?k (drop ?s img)"
    proof (cases "?k < length img")
      case True
      have m: "take (min (?s + ?k) (length img) - min ?s (length img)) (drop (min ?s (length img)) img)
          = take ?k (drop ?s img)"
        using inside by (simp add: min_def)
      show ?thesis
        unfolding firmware_payload_def Let_def kk using a True m by simp
    next
      case False
      have "?s = 0"
      proof (rule ccontr)
        assume "?s \<noteq> 0"
        then have "?k \<le> ?s" by (simp add: block_offset_def)
        with False inside show False by simp
      qed
      then show ?thesis unfolding firmware_payload_def kk using a False by simp
    qed
    with a r show ?thesis by (auto simp: firmware_total_def)
  qed
qed

section \<open>The size of a response\<close>

text \<open>An upper bound on the encoded options: five bytes of header for each, and the values.\<close>

definition options_cost :: "(u16 \<times> bytes) list \<Rightarrow> nat" where
  "options_cost opts = sum_list (map (\<lambda>(n, v). 5 + length v) opts)"

lemma options_cost_Nil [simp]: "options_cost [] = 0"
  by (simp add: options_cost_def)

lemma nibble_ext_length: "nibble_ext v = (n, ext) \<Longrightarrow> length ext \<le> 2"
  by (auto simp: nibble_ext_def split: if_splits)

lemma encode_option_list_length: "length (encode_option_list prev opts) \<le> options_cost opts"
proof (induction opts arbitrary: prev)
  case (Cons o' opts)
  obtain n v where o': "o' = (n, v)" by fastforce
  obtain dn de where d: "nibble_ext (ucast (n - prev)) = (dn, de)" by fastforce
  obtain ln le where l: "nibble_ext (of_nat (length v)) = (ln, le)" by fastforce
  show ?case
    using Cons [of n] nibble_ext_length [OF d] nibble_ext_length [OF l]
    by (simp add: o' d l options_cost_def)
qed (simp add: options_cost_def)

lemma options_cost_sort: "options_cost (sort_key f opts) = options_cost opts"
proof -
  have "mset (map (\<lambda>(n, v). 5 + length v) (sort_key f opts))
      = mset (map (\<lambda>(n, v). 5 + length v) opts)" by (simp only: mset_map mset_sort)
  then show ?thesis unfolding options_cost_def by (metis sum_mset_sum_list)
qed

lemma options_cost_filter: "options_cost (filter P opts) \<le> options_cost opts"
  by (induction opts) (auto simp: options_cost_def)

lemma options_cost_set: "options_cost (msg_options (set_option_uint n v m)) \<le> options_cost (msg_options m) + 9"
  using options_cost_filter [of "\<lambda>(n', _). n' \<noteq> n" "msg_options m"] length_encode_uint [of v]
  by (auto simp: set_option_uint_def push_option_def options_cost_def)

lemma options_cost_push:
  "options_cost (msg_options (push_option n v m)) = options_cost (msg_options m) + 5 + length v"
  by (simp add: push_option_def options_cost_def)

lemma options_cost_response [simp]: "options_cost (msg_options (response c r)) = 0"
  "options_cost (msg_options (diagnostic r c text)) = 0"
  by simp_all

lemma datagram_length:
  "length (datagram_encode d) \<le> 13 + options_cost (msg_options (dg_message d))
     + length (msg_payload (dg_message d))"
  using encode_option_list_length [of 0 "sort_key fst (msg_options (dg_message d))"]
    min.cobounded2 [of "length (msg_token (dg_message d))" 8]
  by (auto simp: datagram_encode_def Let_def encode_options_and_payload_def options_cost_sort
      MAX_TOKEN_LEN_def simp del: min.cobounded2)

definition small_response :: "nat \<Rightarrow> message \<Rightarrow> bool" where
  "small_response k m \<longleftrightarrow> options_cost (msg_options m) \<le> 40 \<and> length (msg_payload m) \<le> max k 128"

lemma hex_pairs_length: "hex_pairs xs = Some ys \<Longrightarrow> 2 * length ys = length xs"
  by (induction xs arbitrary: ys rule: hex_pairs.induct) (auto split: option.splits)

lemma hex_prefix_bytes_length: "hex_prefix_bytes hex n = Some v \<Longrightarrow> length v = n"
  by (auto simp: hex_prefix_bytes_def split: if_splits dest!: hex_pairs_length)

lemma small_diagnostic: "length text \<le> 128 \<Longrightarrow> small_response k (diagnostic req c text)"
  by (simp add: small_response_def ascii_def)

lemma small_error: "small_response k (error_response req res)"
  by (auto simp: error_response_def small_response_def options_cost_def ascii_def split: sum.split)

lemma options_cost_set3:
  "options_cost (msg_options (set_option_uint a x (set_option_uint b y (set_option_uint c z m))))
    \<le> options_cost (msg_options m) + 27"
  using options_cost_set [of a x "set_option_uint b y (set_option_uint c z m)"]
    options_cost_set [of b y "set_option_uint c z m"] options_cost_set [of c z m] by simp

lemma options_cost_set2:
  "options_cost (msg_options (set_option_uint b y (set_option_uint c z m)))
    \<le> options_cost (msg_options m) + 27"
  using options_cost_set [of b y "set_option_uint c z m"] options_cost_set [of c z m] by simp

lemma options_cost_set1:
  "options_cost (msg_options (set_option_uint c z m)) \<le> options_cost (msg_options m) + 27"
  using options_cost_set [of c z m] by simp

lemmas options_cost_sets =
  options_cost_set1 [of _ _ "response c r" for c r, simplified]
  options_cost_set2 [of _ _ _ _ "response c r" for c r, simplified]
  options_cost_set3 [of _ _ _ _ _ _ "response c r" for c r, simplified]

lemma json_body_small:
  assumes "tr = Udp"
  shows "options_cost (msg_options (json_body_response szx req success full tr)) \<le> 27
    \<and> length (msg_payload (json_body_response szx req success full tr)) \<le> max (size_for szx) 128"
proof (cases "json_block szx req full tr")
  case None
  then have "length full \<le> size_for szx"
    using assms by (auto simp: json_block_def max_szx_def Let_def split: option.splits if_splits)
  with None show ?thesis
    using options_cost_sets(1) by (auto simp: json_body_response_def Let_def)
next
  case (Some b)
  then have "blk_szx b \<le> szx"
    using assms by (auto simp: json_block_def max_szx_def capped_szx Let_def
        split: option.splits if_splits)
  then have size: "block_size b \<le> size_for szx"
    unfolding block_size_def by (rule size_for_mono)
  show ?thesis
  proof (cases "length full \<le> block_offset b \<and> 0 < blk_num b")
    case True
    with Some show ?thesis by (simp add: json_body_response_def)
  next
    case False
    with Some size show ?thesis
      using options_cost_sets by (auto simp: json_body_response_def Let_def)
  qed
qed

lemma firmware_response_small:
  assumes "length (firmware_payload (block_offset b) (block_offset b + block_size b - 1) r) \<le> k"
  shows "small_response k (firmware_response req b r)"
proof -
  have push: "options_cost (msg_options
        (case Option.bind (up_firmware_sha256 r) (\<lambda>hex. hex_prefix_bytes hex 8) of
           Some etag \<Rightarrow> push_option ETAG etag m | None \<Rightarrow> m)) \<le> options_cost (msg_options m) + 13" for m
    by (auto simp: options_cost_push bind_eq_Some_conv dest!: hex_prefix_bytes_length
        split: option.split)
  show ?thesis
  proof (cases "\<exists>text. firmware_response req b r = diagnostic req BAD_REQUEST text \<and> length text < 64")
    case True
    then show ?thesis by (auto intro!: small_diagnostic)
  next
    case False
    let ?out2 = "set_option_uint BLOCK2 (block_encode \<lparr>blk_num = blk_num b,
        blk_more = more_after b (firmware_total r), blk_szx = blk_szx b\<rparr>)
      (set_option_uint CONTENT_FORMAT (ucast OCTET_STREAM) (response CONTENT req))"
    let ?out3 = "if blk_num b = 0 then set_option_uint SIZE2 (of_nat (firmware_total r)) ?out2 else ?out2"
    have "firmware_response req b r
        = (case Option.bind (up_firmware_sha256 r) (\<lambda>hex. hex_prefix_bytes hex 8) of
            Some etag \<Rightarrow> push_option ETAG etag ?out3 | None \<Rightarrow> ?out3)
          \<lparr>msg_payload := firmware_payload (block_offset b) (block_offset b + block_size b - 1) r\<rparr>"
      using False by (auto simp: firmware_response_def byte_range_def Let_def split: if_splits)
    moreover have "options_cost (msg_options ?out3) \<le> 27" using options_cost_sets by simp
    ultimately show ?thesis
      using assms push [of ?out3] by (simp add: small_response_def)
  qed
qed

text \<open>An upstream whose partial answers are no longer than the range it was asked for.\<close>

definition honours_ranges :: "upstream \<Rightarrow> bool" where
  "honours_ranges up \<longleftrightarrow> (\<forall>c r s e. up c = Inr r \<and> uc_range c = Some (s, e) \<and> up_status r \<noteq> 200 \<longrightarrow>
     length (up_body r) \<le> e - s + 1)"

lemma firmware_small:
  assumes "honours_ranges up"
  shows "small_response (size_for szx) (fst (firmware up szx req session Udp))"
proof -
  let ?b = "firmware_block szx req Udp"
  let ?s = "block_offset ?b" and ?k = "block_size ?b"
  have "blk_szx ?b \<le> szx"
    by (simp add: firmware_block_def max_szx_def capped_szx split: option.split)
  then have k: "?k \<le> size_for szx" unfolding block_size_def by (rule size_for_mono)
  have pos: "0 < ?k" by simp
  let ?call = "session_call session Get ''firmware'' (Some (byte_range ?b)) None"
  have "length (firmware_payload ?s (?s + ?k - 1) r) \<le> size_for szx"
    if r: "up ?call = Inr r" for r
  proof (cases "up_status r = 200 \<and> ?s + ?k - 1 - ?s + 1 < length (up_body r)")
    case True
    have "min (?s + ?k - 1 + 1) (length (up_body r)) - min ?s (length (up_body r)) \<le> ?k"
      using pos by (auto simp: min_def)
    with True k show ?thesis by (simp add: firmware_payload_def Let_def)
  next
    case False
    have "length (up_body r) \<le> ?s + ?k - 1 - ?s + 1"
    proof (cases "up_status r = 200")
      case True
      with False show ?thesis by simp
    next
      case other: False
      have "uc_range ?call = Some (?s, ?s + ?k - 1)" by (simp add: session_call_def byte_range_def)
      with assms r other show ?thesis unfolding honours_ranges_def by blast
    qed
    then have "length (up_body r) \<le> ?k" using pos by linarith
    with False k show ?thesis by (simp add: firmware_payload_def)
  qed
  then show ?thesis
    using small_error
    by (auto simp: firmware_def Let_def intro!: firmware_response_small split: sum.split)
qed

lemma small_response_mono_cost:
  "options_cost (msg_options m) \<le> 27 \<Longrightarrow> length (msg_payload m) \<le> max k 128 \<Longrightarrow>
    small_response k m \<and> small_response k (echo_final_block1 req m)"
  using options_cost_set [of BLOCK1 _ m]
  by (auto simp: small_response_def echo_final_block1_def
      intro: le_trans [OF options_cost_set] split: option.split)

lemma json_response_cost:
  "options_cost (msg_options (json_response szx req res m Udp)) \<le> 27
    \<and> length (msg_payload (json_response szx req res m Udp)) \<le> max (size_for szx) 128"
  using json_body_small
  by (auto simp: json_response_def error_response_def ascii_def split: sum.split)

lemma logs_response_cost:
  "options_cost (msg_options (logs_response req res)) \<le> 27
    \<and> length (msg_payload (logs_response req res)) \<le> max k 128"
  by (auto simp: logs_response_def error_response_def ascii_def split: sum.split)

lemma assemble_interim_small:
  "fst (assemble_body now req session leaf t) = Interim m \<Longrightarrow> small_response k m"
proof -
  assume a: "fst (assemble_body now req session leaf t) = Interim m"
  have app: "small_response k m'" if "fst (append_block now req b key u) = Interim m'" for b key u m'
    using that options_cost_sets(1)
    by (auto simp: append_block_def Let_def small_response_def ascii_def
        split: option.splits if_splits intro: le_trans [OF options_cost_set1])
  from a show ?thesis
    by (auto simp: assemble_body_def Let_def split: option.splits if_splits
        intro: app small_diagnostic)
qed

lemma post_leaf_small:
  assumes "\<And>res. options_cost (msg_options (f res)) \<le> 27 \<and> length (msg_payload (f res)) \<le> max k 128"
  shows "small_response k (fst (post_leaf up now req session leaf ct f t))"
proof (cases "assemble_body now req session (ascii leaf) t")
  case (Pair st t')
  show ?thesis
  proof (cases st)
    case (Interim m)
    with Pair assemble_interim_small [of now req session "ascii leaf" t m k] show ?thesis
      by (simp add: post_leaf_def)
  next
    case (Complete body)
    with Pair assms small_response_mono_cost show ?thesis
      by (simp add: post_leaf_def Let_def)
  qed
qed

lemma handle_small_gen:
  assumes "small_response k (fst (firmware up szx req session Udp))" and "size_for szx \<le> k"
  shows "small_response k (fst (handle up szx n1 n2 req session Udp t))"
proof (cases "\<exists>leaf. accepted_route req session leaf")
  case True
  then obtain leaf where a: "accepted_route req session leaf" ..
  have cost: "options_cost (msg_options (json_response szx req res m Udp)) \<le> 27
      \<and> length (msg_payload (json_response szx req res m Udp)) \<le> max k 128" for res m
    using json_response_cost [of szx req res m] assms(2) by (auto simp: le_max_iff_disj)
  have json: "small_response k (json_response szx req res m Udp)" for res m
    using cost small_response_mono_cost by blast
  have diag: "small_response k (diagnostic req c w)" if "length w < 64" for c w
    using that by (intro small_diagnostic) simp
  show ?thesis
    unfolding handle_accepted [OF a]
    using json diag assms(1) post_leaf_small [OF cost] post_leaf_small [OF logs_response_cost]
    by (auto simp: handle_leaf_def Let_def simp del: ascii_Cons split: prod.split)
next
  case False
  from handle_refused [OF this, of up szx n1 n2 Udp t] show ?thesis
    by (auto intro!: small_diagnostic)
qed

lemma handle_small:
  assumes "honours_ranges up"
  shows "small_response (size_for szx) (fst (handle up szx n1 n2 req session Udp t))"
  using firmware_small [OF assms] by (rule handle_small_gen) simp

lemma firmware_small_some: "\<exists>k. small_response k (fst (firmware up szx req session Udp))"
proof (cases "up (session_call session Get ''firmware''
    (Some (byte_range (firmware_block szx req Udp))) None)")
  case (Inl e)
  then show ?thesis by (simp add: firmware_def Let_def small_error)
next
  case (Inr r)
  then show ?thesis
    using firmware_response_small [OF order_refl, of "firmware_block szx req Udp" r req] small_error
    by (auto simp: firmware_def Let_def)
qed

lemma small_response_mono: "small_response k m \<Longrightarrow> k \<le> k' \<Longrightarrow> small_response k' m"
  by (auto simp: small_response_def le_max_iff_disj)

lemma handle_options_cost:
  "options_cost (msg_options (fst (handle up szx n1 n2 req session Udp t))) \<le> 40"
proof -
  obtain k where k: "small_response k (fst (firmware up szx req session Udp))"
    using firmware_small_some by blast
  have "small_response (max k (size_for szx)) (fst (handle up szx n1 n2 req session Udp t))"
    by (rule handle_small_gen [OF small_response_mono [OF k]]) simp_all
  then show ?thesis by (simp add: small_response_def)
qed

section \<open>Tokens\<close>

lemma response_tokens:
  "msg_token (error_response req res) = msg_token req"
  "msg_token (json_body_response szx req c full tr) = msg_token req"
  "msg_token (firmware_response req b r) = msg_token req"
  "msg_token (logs_response req res) = msg_token req"
  "msg_token (echo_final_block1 req m) = msg_token m"
  by (auto simp: error_response_def json_body_response_def firmware_response_def logs_response_def
      echo_final_block1_def byte_range_def Let_def split: sum.split option.split)

lemma json_response_token: "msg_token (json_response szx req res m tr) = msg_token req"
  by (auto simp: json_response_def response_tokens split: sum.split)

lemma firmware_token: "msg_token (fst (firmware up szx req s tr)) = msg_token req"
  by (auto simp: firmware_def Let_def response_tokens split: sum.split)

lemma assemble_interim_token:
  "fst (assemble_body now req session leaf t) = Interim m \<Longrightarrow> msg_token m = msg_token req"
  by (auto simp: assemble_body_def append_block_def Let_def split: option.splits if_splits)

lemma post_leaf_token:
  "(\<And>res. msg_token (f res) = msg_token req) \<Longrightarrow>
    msg_token (fst (post_leaf up now req session leaf ct f t)) = msg_token req"
  using assemble_interim_token [of now req session "ascii leaf" t]
  by (auto simp: post_leaf_def Let_def response_tokens split: prod.splits body_state.splits)

lemma handle_token: "msg_token (fst (handle up szx n1 n2 req session tr t)) = msg_token req"
proof (cases "\<exists>leaf. accepted_route req session leaf")
  case True
  then obtain leaf where a: "accepted_route req session leaf" ..
  show ?thesis
    unfolding handle_accepted [OF a]
    using json_response_token post_leaf_token firmware_token [of up szx req session tr]
    by (auto simp: handle_leaf_def Let_def response_tokens simp del: ascii_Cons split: prod.split)
next
  case False
  from handle_refused [OF this, of up szx n1 n2 tr t] show ?thesis by auto
qed

lemma options_cost_encodable: "options_cost (msg_options m) \<le> 40 \<Longrightarrow> encodable m"
proof -
  assume c: "options_cost (msg_options m) \<le> 40"
  have "5 + length v \<le> options_cost (msg_options m)" if "(n, v) \<in> set (msg_options m)" for n v
  proof -
    have "5 + length v \<in> set (map (\<lambda>(n, v). 5 + length v) (msg_options m))" using that by force
    then show ?thesis unfolding options_cost_def by (rule member_le_sum_list) simp
  qed
  with c show ?thesis by (fastforce simp: encodable_def MAX_NIBBLE_VALUE_def)
qed

lemma handle_wire_ok:
  "wire_ok req \<Longrightarrow> wire_ok (fst (handle up szx n1 n2 req session Udp t))"
  by (simp add: wire_ok_def handle_token options_cost_encodable handle_options_cost)

section \<open>One block of a transfer\<close>

lemma next_block_in:
  assumes "0 < k"
  shows "i * k + k < len \<longleftrightarrow> Suc i < blocks_for k len"
proof
  assume "Suc i < blocks_for k len"
  from blocks_for_in [OF assms this] show "i * k + k < len" by (simp add: add.commute)
next
  assume "i * k + k < len"
  also have "\<dots> \<le> blocks_for k len * k" by (rule blocks_for_cover [OF assms])
  finally have "Suc i * k < blocks_for k len * k" by (simp add: add.commute)
  then show "Suc i < blocks_for k len" by (simp only: mult_less_cancel2)
qed

lemma blocks_tile:
  assumes "0 < k" and "blocks_for k (length xs) \<le> n" and "\<forall>i < n. f i = take k (drop (i * k) xs)"
  shows "concat (map f [0..<n]) = xs"
proof -
  have "map f [0..<n] = map (\<lambda>i. take k (drop (i * k) xs)) [0..<n]" using assms(3) by simp
  then have "concat (map f [0..<n]) = take (n * k) xs" by (simp only: slices_tile)
  moreover have "blocks_for k (length xs) * k \<le> n * k" using assms(2) by (rule mult_right_mono) simp
  then have "length xs \<le> n * k" using blocks_for_cover [OF assms(1), of "length xs"] by linarith
  ultimately show ?thesis by simp
qed

lemma json_block_answered:
  assumes "szx' \<le> max_szx szx tr" and "n = max 1 (blocks_for (size_for szx') (length full))"
    and "n \<le> 2 ^ 28" and "i < n"
    and "block2_of req = Some \<lparr>blk_num = of_nat i, blk_more = mb, blk_szx = szx'\<rparr>"
  shows "msg_code (json_body_response szx req success full tr) = success"
    and "msg_payload (json_body_response szx req success full tr)
      = take (size_for szx') (drop (i * size_for szx') full)"
    and "block2_of (json_body_response szx req success full tr)
      = Some \<lparr>blk_num = of_nat i, blk_more = (Suc i < n), blk_szx = szx'\<rparr>"
proof -
  let ?k = "size_for szx'" and ?b = "\<lparr>blk_num = of_nat i, blk_more = mb, blk_szx = szx'\<rparr> :: block"
  have k: "0 < ?k" by simp
  have m: "min szx' (max_szx szx tr) = szx'" using assms(1) by simp
  have u: "unat (of_nat i :: u32) = i" using assms(3,4) by (simp add: unat_of_nat)
  then have off: "block_offset ?b = i * ?k" by (simp add: block_offset_def block_size_def)
  have so: "same_offset ?b (max_szx szx tr)" using assms(3,4) u by (simp add: same_offset_def m)
  have inside: "\<not> (length full \<le> i * ?k \<and> 0 < (of_nat i :: u32))"
  proof (cases "i = 0")
    case False
    with assms(2,4) have "i < blocks_for ?k (length full)" by simp
    then show ?thesis using blocks_for_in [OF k] by (simp add: not_le)
  qed simp
  have more: "(i * ?k + ?k < length full) = (Suc i < n)"
    unfolding next_block_in [OF k] assms(2) by auto
  have cap: "capped ?b (max_szx szx tr) = ?b" using assms(1) by (intro capped_id) simp
  note r = json_block_response [OF assms(5) so refl, of full success]
  show "msg_code (json_body_response szx req success full tr) = success"
    "msg_payload (json_body_response szx req success full tr)
      = take (size_for szx') (drop (i * size_for szx') full)"
    "block2_of (json_body_response szx req success full tr)
      = Some \<lparr>blk_num = of_nat i, blk_more = (Suc i < n), blk_szx = szx'\<rparr>"
    using r inside more by (simp_all add: off m cap)
qed

text \<open>The request whose Block2 option the handler takes as it stands: the one upstream call, and the answer.\<close>

lemma firmware_call_answered:
  assumes "serves_image up img" and "length img < 2 ^ 64" and "block_offset b < length img"
    and "firmware_block szx req tr = b"
  shows "\<exists>r. firmware up szx req s tr
        = (firmware_response req b r, [session_call s Get ''firmware'' (Some (byte_range b)) None])
      \<and> Option.bind (up_content_range r) parse_content_range
        \<in> {None, Some (block_offset b, min (block_offset b + block_size b - 1) (length img - 1), length img)}
      \<and> firmware_total r = length img
      \<and> firmware_payload (block_offset b) (block_offset b + block_size b - 1) r
          = take (block_size b) (drop (block_offset b) img)"
proof -
  let ?call = "session_call s Get ''firmware'' (Some (byte_range b)) None"
  have "uc_leaf ?call = ascii ''firmware''" "uc_range ?call = Some (byte_range b)"
    by (simp_all add: session_call_def)
  from firmware_block_served [OF assms(1-3) this] obtain r where r: "up ?call = Inr r" "up_status r < 300"
    and ok: "Option.bind (up_content_range r) parse_content_range
        \<in> {None, Some (block_offset b, min (block_offset b + block_size b - 1) (length img - 1), length img)}"
      "firmware_total r = length img"
      "firmware_payload (block_offset b) (block_offset b + block_size b - 1) r
        = take (block_size b) (drop (block_offset b) img)"
    by blast
  have "firmware up szx req s tr = (firmware_response req b r, [?call])"
    using r by (simp add: firmware_def Let_def assms(4))
  with ok show ?thesis by blast
qed

lemma firmware_block_answered:
  assumes "serves_image up img" and "length img < 2 ^ 64" and "szx' \<le> max_szx szx tr" and "szx' \<le> MAX_SZX"
    and "n = blocks_for (size_for szx') (length img)" and "n \<le> 2 ^ 28" and "i < n"
    and "block2_of req = Some \<lparr>blk_num = of_nat i, blk_more = mb, blk_szx = szx'\<rparr>"
  shows "msg_code (fst (firmware up szx req s tr)) = CONTENT"
    and "msg_payload (fst (firmware up szx req s tr)) = take (size_for szx') (drop (i * size_for szx') img)"
    and "block2_of (fst (firmware up szx req s tr))
      = Some \<lparr>blk_num = of_nat i, blk_more = (Suc i < n), blk_szx = szx'\<rparr>"
    and "map uc_range (snd (firmware up szx req s tr))
      = [Some (i * size_for szx', i * size_for szx' + size_for szx' - 1)]"
proof -
  let ?k = "size_for szx'" and ?b = "\<lparr>blk_num = of_nat i, blk_more = mb, blk_szx = szx'\<rparr> :: block"
  have k: "0 < ?k" by simp
  have u: "unat (of_nat i :: u32) = i" using assms(6,7) by (simp add: unat_of_nat)
  then have off: "block_offset ?b = i * ?k" and size: "block_size ?b = ?k"
    by (simp_all add: block_offset_def block_size_def)
  have inside: "block_offset ?b < length img" using blocks_for_in [OF k] assms(5,7) by (simp add: off)
  have fb: "firmware_block szx req tr = ?b"
    using assms(3,8) by (simp add: firmware_block_def Let_def capped_id)
  from firmware_call_answered [OF assms(1,2) inside fb, of s] obtain r
    where f: "firmware up szx req s tr
        = (firmware_response req ?b r, [session_call s Get ''firmware'' (Some (byte_range ?b)) None])"
      and range_ok: "Option.bind (up_content_range r) parse_content_range
        \<in> {None, Some (block_offset ?b, min (block_offset ?b + block_size ?b - 1) (length img - 1), length img)}"
      and served: "firmware_total r = length img"
        "firmware_payload (block_offset ?b) (block_offset ?b + block_size ?b - 1) r
          = take (block_size ?b) (drop (block_offset ?b) img)"
    by blast
  have more: "more_after ?b (length img) = (Suc i < n)"
    using next_block_in [OF k] by (simp add: more_after_def off size assms(5))
  have enc: "block_decode (block_encode \<lparr>blk_num = of_nat i, blk_more = Suc i < n, blk_szx = szx'\<rparr>)
      = Some \<lparr>blk_num = of_nat i, blk_more = Suc i < n, blk_szx = szx'\<rparr>"
    using assms(4,6,7) u by (intro block_decode_encode) simp_all
  note fr = firmware_response_served [OF range_ok served(1) inside refl, of req, unfolded served(2) more]
  show "msg_code (fst (firmware up szx req s tr)) = CONTENT"
    "msg_payload (fst (firmware up szx req s tr)) = take ?k (drop (i * ?k) img)"
    "block2_of (fst (firmware up szx req s tr))
      = Some \<lparr>blk_num = of_nat i, blk_more = (Suc i < n), blk_szx = szx'\<rparr>"
    "map uc_range (snd (firmware up szx req s tr)) = [Some (i * ?k, i * ?k + ?k - 1)]"
    using fr by (simp_all add: f off size enc session_call_def byte_range_def)
qed

section \<open>Properties\<close>

text \<open>A block of a JSON body is the slice its request asked for: a request whose number still names
  its offset at the served size gets exactly the bytes from that offset on, at the smaller of
  the requested and the allowed size, with a Block2 option that reads back that same offset and
  says whether bytes remain; a block past the end is refused with 4.00, never an empty success.\<close>

theorem json_block_is_requested_slice:
  assumes "block2_of req = Some b" and "same_offset b (max_szx szx tr)"
    and "r = json_body_response szx req success full tr"
  shows "if length full \<le> block_offset b \<and> 0 < blk_num b
    then msg_code r = BAD_REQUEST
    else msg_code r = success \<and> msg_token r = msg_token req
      \<and> msg_payload r
          = take (size_for (min (blk_szx b) (max_szx szx tr))) (drop (block_offset b) full)
      \<and> (\<exists>b'. block2_of r = Some b' \<and> block_offset b' = block_offset b
           \<and> blk_szx b' = min (blk_szx b) (max_szx szx tr)
           \<and> (blk_more b' \<longleftrightarrow> block_offset b + block_size b' < length full))"
proof -
  have off: "block_offset (capped b (max_szx szx tr)) = block_offset b"
    using block2_of_szx [OF assms(1)] assms(2) by (rule capped_offset)
  then have "block_offset \<lparr>blk_num = blk_num (capped b (max_szx szx tr)), blk_more = m,
      blk_szx = min (blk_szx b) (max_szx szx tr)\<rparr> = block_offset b" for m
    by (simp add: block_offset_def block_size_def capped_szx)
  with json_block_response [OF assms] show ?thesis by (auto simp: block_size_def)
qed

theorem json_block_is_requested_slice_witness:
  "msg_payload (json_body_response 0
     \<lparr>msg_code = GET, msg_token = [], msg_options = [(23, [0x10])], msg_payload = []\<rparr> CONTENT
     (replicate 16 1 @ [2, 3]) Udp) = [2, 3]"
proof -
  let ?r = "\<lparr>msg_code = GET, msg_token = [], msg_options = [(23, [0x10])], msg_payload = []\<rparr>"
  let ?b = "\<lparr>blk_num = 1, blk_more = False, blk_szx = 0\<rparr>"
  have b: "block2_of ?r = Some ?b"
    by (simp add: block2_of_def option_uint_def first_option_def option_values_def BLOCK2_def
        uint_of_bytes_def block_decode_def)
  have so: "same_offset ?b (max_szx 0 Udp)" by (simp add: same_offset_def max_szx_def)
  show ?thesis
    using json_block_is_requested_slice [OF b so refl, of "replicate 16 1 @ [2, 3]" CONTENT]
    by (simp add: block_offset_def block_size_def size_for_def max_szx_def)
qed

text \<open>C10. Fetching a JSON body block by block reproduces it: asking for blocks 0, 1, 2, ... at one size the
  transport allows, as many as the body needs, the payloads concatenate to the body, every
  answer is a success and exactly the last has no more bit.\<close>

theorem json_blocks_tile_body:
  assumes "szx' \<le> max_szx szx tr" and "szx' \<le> MAX_SZX"
    and "n = max 1 (blocks_for (size_for szx') (length full))" and "n \<le> 2 ^ 28"
    and "\<forall>i < n. block2_of (req i) = Some \<lparr>blk_num = of_nat i, blk_more = mb i, blk_szx = szx'\<rparr>"
  shows "concat (map (\<lambda>i. msg_payload (json_body_response szx (req i) success full tr)) [0..<n]) = full
    \<and> (\<forall>i < n. msg_code (json_body_response szx (req i) success full tr) = success
        \<and> block2_of (json_body_response szx (req i) success full tr)
          = Some \<lparr>blk_num = of_nat i, blk_more = (Suc i < n), blk_szx = szx'\<rparr>)"
proof -
  note each = json_block_answered [OF assms(1,3,4) _ assms(5) [rule_format], of _ success]
  have "concat (map (\<lambda>i. msg_payload (json_body_response szx (req i) success full tr)) [0..<n]) = full"
    by (rule blocks_tile [of "size_for szx'"]) (use assms(3) each(2) in simp_all)
  with each(1,3) show ?thesis by blast
qed

theorem json_blocks_tile_body_witness:
  "concat (map (\<lambda>i. msg_payload (json_body_response 6
     (set_option_uint BLOCK2 (block_encode \<lparr>blk_num = of_nat i, blk_more = False, blk_szx = 0\<rparr>)
        default_message) CONTENT (replicate 20 7) Tcp)) [0..<2]) = replicate 20 7"
proof -
  let ?req = "\<lambda>i. set_option_uint BLOCK2
    (block_encode \<lparr>blk_num = of_nat i, blk_more = False, blk_szx = 0\<rparr>) default_message"
  have b: "\<forall>i < 2. block2_of (?req i) = Some \<lparr>blk_num = of_nat i, blk_more = False, blk_szx = 0\<rparr>"
  proof (intro allI impI)
    fix i :: nat assume "i < 2"
    then have "unat (of_nat i :: u32) = i" by (simp add: unat_of_nat)
    with \<open>i < 2\<close> show "block2_of (?req i) = Some \<lparr>blk_num = of_nat i, blk_more = False, blk_szx = 0\<rparr>"
      by (simp add: block2_of_set) (subst block_decode_encode; simp)
  qed
  show ?thesis
    using json_blocks_tile_body [of 0 6 Tcp 2 "replicate 20 7" ?req "\<lambda>_. False" CONTENT] b
    by (simp add: max_szx_def MAX_SZX_def blocks_for_def size_for_def)
qed

text \<open>Firmware downloads reproduce the image: against an upstream that serves it (by ranges or
  whole), each block inside the image is answered 2.05 with exactly its slice of the image and a
  Block2 option whose more bit says whether image bytes remain, with one ranged call for exactly
  the block's bytes; blocks 0, 1, 2, ... concatenate to the image.\<close>

theorem firmware_blocks_tile_image:
  assumes "serves_image up img" and "length img < 2 ^ 64"
    and "szx' \<le> max_szx szx tr" and "szx' \<le> MAX_SZX"
    and "n = blocks_for (size_for szx') (length img)" and "n \<le> 2 ^ 28"
    and "\<forall>i < n. block2_of (req i) = Some \<lparr>blk_num = of_nat i, blk_more = mb i, blk_szx = szx'\<rparr>"
  shows "concat (map (\<lambda>i. msg_payload (fst (firmware up szx (req i) s tr))) [0..<n]) = img
    \<and> (\<forall>i < n. msg_code (fst (firmware up szx (req i) s tr)) = CONTENT
        \<and> block2_of (fst (firmware up szx (req i) s tr))
          = Some \<lparr>blk_num = of_nat i, blk_more = (Suc i < n), blk_szx = szx'\<rparr>
        \<and> map uc_range (snd (firmware up szx (req i) s tr))
          = [Some (i * size_for szx', i * size_for szx' + size_for szx' - 1)])"
proof -
  note each = firmware_block_answered [OF assms(1-6) _ assms(7) [rule_format], of _ s]
  have "concat (map (\<lambda>i. msg_payload (fst (firmware up szx (req i) s tr))) [0..<n]) = img"
    by (rule blocks_tile [of "size_for szx'"]) (use assms(5) each(2) in simp_all)
  with each(1,3,4) show ?thesis by blast
qed

text \<open>An upstream that ignores ranges and returns a three-byte image whole.\<close>

definition whole_image_upstream :: upstream where
  "whole_image_upstream c = Inr \<lparr>up_status = 200, up_body = [1, 2, 3], up_content_range = None,
     up_firmware_size = Some 3, up_firmware_sha256 = None\<rparr>"

theorem firmware_blocks_tile_image_witness:
  "msg_payload (fst (firmware whole_image_upstream 6
     \<lparr>msg_code = GET, msg_token = [], msg_options = [(23, [])], msg_payload = []\<rparr>
     \<lparr>ds_pigeon_id = [], ds_token = [], ds_peer = [], ds_conn_id = 1\<rparr> Udp)) = [1, 2, 3]"
proof -
  let ?r = "\<lparr>msg_code = GET, msg_token = [], msg_options = [(23, [])], msg_payload = []\<rparr>"
  have s: "serves_image whole_image_upstream [1, 2, 3]"
    by (simp add: serves_image_def whole_image_upstream_def)
  have b: "block2_of ?r = Some \<lparr>blk_num = 0, blk_more = False, blk_szx = 0\<rparr>"
    by (simp add: block2_of_def option_uint_def first_option_def option_values_def BLOCK2_def
        uint_of_bytes_def block_decode_def)
  show ?thesis
    using firmware_blocks_tile_image [OF s, of 0 6 Udp 1 "\<lambda>_. ?r" "\<lambda>_. False"] b
    by (simp add: max_szx_def MAX_SZX_def blocks_for_def size_for_def)
qed

text \<open>No datagram answer outgrows the link: with a datagram ceiling of \<open>size_for szx\<close> and an upstream
  whose partial answers keep to the range asked for, every response to a UDP request has a
  payload of at most the ceiling (or 128 bytes of diagnostics), and its encoded datagram is at
  most 53 bytes longer, whatever was requested.\<close>

theorem udp_response_bounded:
  assumes "honours_ranges up"
    and "m = fst (handle up szx n1 n2 req session Udp t)"
  shows "length (msg_payload m) \<le> max (size_for szx) 128
    \<and> length (datagram_encode \<lparr>dg_type = ty, dg_id = mid, dg_message = m\<rparr>) \<le> max (size_for szx) 128 + 53"
  using handle_small [OF assms(1), of szx n1 n2 req session t]
    datagram_length [of "\<lparr>dg_type = ty, dg_id = mid, dg_message = m\<rparr>"]
  by (simp add: assms(2) small_response_def)

theorem udp_response_bounded_witness:
  "length (msg_payload (fst (handle (\<lambda>_. Inl []) 4 0 0 default_message
     \<lparr>ds_pigeon_id = [], ds_token = [], ds_peer = [], ds_conn_id = 1\<rparr> Udp []))) \<le> 256"
  using udp_response_bounded [of "\<lambda>_. Inl []", OF _ refl, of 4 0 0 default_message
      "\<lparr>ds_pigeon_id = [], ds_token = [], ds_peer = [], ds_conn_id = 1\<rparr>" "[]"]
  by (simp add: honours_ranges_def size_for_def)

text \<open>The answer to a request whose upstream call failed, on every route that makes one.\<close>

definition call_failed :: "bytes + upstream_response \<Rightarrow> bool" where
  "call_failed res \<longleftrightarrow> (case res of Inl e \<Rightarrow> True | Inr r \<Rightarrow> 300 \<le> up_status r)"

lemma post_leaf_failed:
  assumes "post_leaf up now req session leaf content_type respond t = (m, t', [call])"
    and "call_failed (up call)" and "\<And>res. call_failed res \<Longrightarrow> respond res = error_response req res"
  shows "m = echo_final_block1 req (error_response req (up call))"
  using assms by (auto simp: post_leaf_def Let_def split: prod.splits body_state.splits)

lemma responses_failed:
  assumes "call_failed res"
  shows "json_response szx req res method tr = error_response req res"
    and "logs_response req res = error_response req res"
  using assms
  by (auto simp: call_failed_def json_response_def logs_response_def split: sum.splits)

lemma firmware_failed:
  "firmware up szx req session tr = (m, [call]) \<Longrightarrow> call_failed (up call) \<Longrightarrow> m = error_response req (up call)"
  by (auto simp: firmware_def Let_def call_failed_def split: sum.splits if_splits)

lemma handle_failed:
  assumes "handle up szx n1 n2 req session tr t = (m, t', [call])" and "call_failed (up call)"
  shows "m = error_response req (up call) \<or> m = echo_final_block1 req (error_response req (up call))"
proof (cases "\<exists>leaf. accepted_route req session leaf")
  case False
  from handle_refused [OF this, of up szx n1 n2 tr t] assms(1) show ?thesis by auto
next
  case True
  then obtain leaf where "accepted_route req session leaf" ..
  with assms(1) have "handle_leaf up szx n2 req session tr leaf (sweep_block1 n1 t) = (m, t', [call])"
    by (simp add: handle_accepted)
  with assms(2) show ?thesis
    by (auto simp: handle_leaf_def Let_def responses_failed simp del: ascii_Cons
        split: if_splits prod.splits dest!: post_leaf_failed firmware_failed)
qed

lemma echo_final_block1_fields [simp]:
  "msg_code (echo_final_block1 req m) = msg_code m" "msg_token (echo_final_block1 req m) = msg_token m"
  "msg_payload (echo_final_block1 req m) = msg_payload m"
  by (simp_all add: echo_final_block1_def split: option.split)

text \<open>C33. An upstream failure is never reported as success, whichever route the request took: when the request
  made its upstream call and got no answer, the response is 5.04; when the answer's HTTP status was
  300 or more, it is 4.00, 4.01, 4.03, 4.04, 4.05 or 4.13 for 400, 401, 403, 404, 405 or 413, 5.02
  for 500 to 599 and 4.00 for any other, with the first 128 bytes of the answer as its text; it has
  the request's token; and a 2.xx is sent only for an answer with a status below 300.\<close>

theorem upstream_errors_reported:
  assumes "handle up szx n1 n2 req session tr t = (m, t', [call])"
  shows "msg_token m = msg_token req
    \<and> (\<forall>e. up call = Inl e \<longrightarrow> msg_code m = 0xA4 \<and> msg_payload m = ascii ''upstream unreachable'')
    \<and> (\<forall>r. up call = Inr r \<and> 300 \<le> up_status r \<longrightarrow>
          msg_payload m = take 128 (up_body r)
          \<and> msg_code m = (case map_of [(400, 0x80), (401, 0x81), (403, 0x83), (404, 0x84), (405, 0x85), (413, 0x8D)]
                (up_status r) of
              Some c \<Rightarrow> c
            | None \<Rightarrow> if 500 \<le> up_status r \<and> up_status r \<le> 599 then 0xA2 else 0x80))
    \<and> (code_class (msg_code m) = 2 \<longrightarrow> (\<exists>r. up call = Inr r \<and> up_status r < 300))"
proof -
  have tok: "msg_token m = msg_token req" using handle_token [of up szx n1 n2 req session tr t] assms by simp
  have failed: "msg_code m = msg_code (error_response req (up call))
      \<and> msg_payload m = msg_payload (error_response req (up call))" if "call_failed (up call)"
    using handle_failed [OF assms that] by auto
  have unreachable: "msg_code m = 0xA4 \<and> msg_payload m = ascii ''upstream unreachable''" if "up call = Inl e" for e
    using failed that by (simp add: call_failed_def error_response_def code_defs del: ascii_Cons)
  have refused: "msg_payload m = take 128 (up_body r) \<and> msg_code m = error_code (up_status r)"
    if "up call = Inr r" "300 \<le> up_status r" for r
    using failed that by (simp add: call_failed_def error_response_def)
  have "code_class (msg_code m) \<noteq> 2" if "call_failed (up call)"
    using that unreachable refused
    by (cases "up call") (auto simp: call_failed_def error_code_def code_defs code_class_def)
  then have ok: "\<exists>r. up call = Inr r \<and> up_status r < 300" if "code_class (msg_code m) = 2"
    using that by (cases "up call") (auto simp: call_failed_def not_le [symmetric])
  show ?thesis
    using tok unreachable refused ok by (auto simp: error_code_def code_defs simp del: ascii_Cons)
qed

definition demo_shadow_get :: message where
  "demo_shadow_get = \<lparr>msg_code = GET, msg_token = [1], msg_options = [(11, ascii ''device''), (11, ascii ''pigeons''),
     (11, ascii ''p1''), (11, ascii ''shadow'')], msg_payload = []\<rparr>"

theorem upstream_errors_reported_witness:
  "\<exists>m t' call. handle (\<lambda>_. Inr \<lparr>up_status = 503, up_body = [1], up_content_range = None, up_firmware_size = None,
       up_firmware_sha256 = None\<rparr>) 6 0 0 demo_shadow_get
       \<lparr>ds_pigeon_id = ascii ''p1'', ds_token = [], ds_peer = [], ds_conn_id = 1\<rparr> Udp [] = (m, t', [call])
     \<and> msg_code m = 0xA2"
proof -
  let ?r = "\<lparr>up_status = 503, up_body = [1], up_content_range = None, up_firmware_size = None,
    up_firmware_sha256 = None\<rparr> :: upstream_response"
  let ?s = "\<lparr>ds_pigeon_id = ascii ''p1'', ds_token = [], ds_peer = [], ds_conn_id = 1\<rparr>"
  have l: "from_utf8_lossy (ascii ''device'') = ascii ''device''"
    "from_utf8_lossy (ascii ''pigeons'') = ascii ''pigeons''"
    "from_utf8_lossy (ascii ''p1'') = ascii ''p1''"
    "from_utf8_lossy (ascii ''shadow'') = ascii ''shadow''"
    by (rule from_utf8_lossy_valid, rule from_utf8_ok_ascii, simp)+
  have "accepted_route demo_shadow_get ?s (ascii ''shadow'')" "msg_code demo_shadow_get = GET"
    by (simp_all add: demo_shadow_get_def accepted_route_def path_segments_def option_values_def
        URI_PATH_def l is_request_def code_defs unknown_critical_option_def KNOWN_OPTIONS_def
        is_critical_def option_defs del: ascii_Cons)
  then have "\<exists>m t' call. handle (\<lambda>_. Inr ?r) 6 0 0 demo_shadow_get ?s Udp [] = (m, t', [call])"
    by (simp add: handle_accepted handle_leaf_def Let_def del: ascii_Cons)
  then show ?thesis using upstream_errors_reported by fastforce
qed

end
