(* ===== verification/Dtls_Common.thy ===== *)
theory Dtls_Common
  imports Block2_Transfer
begin

text \<open>
  \<open>loft/src/dtls_common.rs\<close>: the messaging layer both DTLS listeners share. One decrypted datagram
  gives at most one reply; the duplicate cache is private to the connection, the handler's table
  is not, so a run of a connection takes the table each datagram finds as an input. The locale
  \<open>replay_cache\<close> is what the messaging layer needs of the cache (a recorded response is found
  again while it is fresh and fewer responses than the cache holds were recorded after it, full
  though the cache may be), interpreted on the code's \<open>DedupCache\<close>, which evicts its oldest entry.
\<close>

section \<open>The duplicate cache\<close>

record dedup_cache =
  dc_entries :: "(u16, bytes \<times> instant) hash_map"
  dc_ttl :: duration
  dc_cap :: nat

definition new_dedup_cache :: dedup_cache where
  "new_dedup_cache = \<lparr>dc_entries = [], dc_ttl = from_secs 150, dc_cap = 256\<rparr>"

definition dedup_get :: "instant \<Rightarrow> u16 \<Rightarrow> dedup_cache \<Rightarrow> bytes option \<times> dedup_cache" where
  "dedup_get now mid c =
     (let entries = hm_retain (\<lambda>_ (_, at). now - at < dc_ttl c) (dc_entries c)
      in (map_option fst (hm_get entries mid), c\<lparr>dc_entries := entries\<rparr>))"

text \<open>\<open>min_by_key\<close> over the entries: the first of the oldest in iteration order.\<close>

fun oldest_entry :: "(u16 \<times> bytes \<times> instant) list \<Rightarrow> (u16 \<times> instant) option" where
  "oldest_entry [] = None"
| "oldest_entry ((k, _, at) # es) = (case oldest_entry es of
     None \<Rightarrow> Some (k, at)
   | Some (k', at') \<Rightarrow> if at \<le> at' then Some (k, at) else Some (k', at'))"

definition dedup_insert :: "instant \<Rightarrow> u16 \<Rightarrow> bytes \<Rightarrow> dedup_cache \<Rightarrow> dedup_cache" where
  "dedup_insert now mid reply c =
     (let entries =
        (if dc_cap c \<le> hm_len (dc_entries c)
         then (case oldest_entry (dc_entries c) of
                 Some (oldest, _) \<Rightarrow> hm_remove oldest (dc_entries c)
               | None \<Rightarrow> dc_entries c)
         else dc_entries c)
      in c\<lparr>dc_entries := hm_insert mid (reply, now) entries\<rparr>)"

section \<open>What the messaging layer needs of it\<close>

datatype 'm cache_op = CacheGet instant 'm | CacheInsert instant 'm bytes

locale replay_cache =
  fixes lookup :: "'c \<Rightarrow> 'm \<Rightarrow> (bytes \<times> instant) option"
    and get :: "instant \<Rightarrow> 'm \<Rightarrow> 'c \<Rightarrow> bytes option \<times> 'c"
    and insert :: "instant \<Rightarrow> 'm \<Rightarrow> bytes \<Rightarrow> 'c \<Rightarrow> 'c"
    and size :: "'c \<Rightarrow> nat"
    and ok :: "'c \<Rightarrow> bool"
    and ttl :: duration
    and cap :: nat
  assumes get_fresh: "ok c \<Longrightarrow> lookup c k = Some (v, at) \<Longrightarrow> now - at < ttl \<Longrightarrow>
      fst (get now k c) = Some v"
    and get_keeps: "ok c \<Longrightarrow> lookup c k = Some (v, at) \<Longrightarrow> now - at < ttl \<Longrightarrow>
      lookup (snd (get now k' c)) k = Some (v, at)"
    and get_ok: "ok c \<Longrightarrow> ok (snd (get now k c)) \<and> size (snd (get now k c)) \<le> size c"
    and get_found: "ok c \<Longrightarrow> fst (get now k c) = Some v \<Longrightarrow>
      \<exists>at. lookup c k = Some (v, at) \<and> now - at < ttl"
    and insert_lookup: "ok c \<Longrightarrow> lookup (insert now k v c) k = Some (v, now)"
    and insert_keeps: "ok c \<Longrightarrow> lookup c k = Some (v, at) \<Longrightarrow>
      Suc (card {j. j \<noteq> k \<and> (\<exists>w at'. lookup c j = Some (w, at') \<and> at \<le> at')}) < cap \<Longrightarrow> k' \<noteq> k \<Longrightarrow>
      lookup (insert now k' v' c) k = Some (v, at)"
    and get_only: "ok c \<Longrightarrow> lookup (snd (get now k' c)) k = Some x \<Longrightarrow> lookup c k = Some x"
    and insert_only: "ok c \<Longrightarrow> lookup (insert now k' v' c) k = Some x \<Longrightarrow> k \<noteq> k' \<Longrightarrow>
      lookup c k = Some x"
    and lookup_finite: "finite (dom (lookup c))"
    and insert_ok: "ok c \<Longrightarrow> ok (insert now k v c) \<and> size (insert now k v c) \<le> Suc (size c)"
begin

definition apply_op :: "'m cache_op \<Rightarrow> 'c \<Rightarrow> 'c" where
  "apply_op op c = (case op of
     CacheGet now k \<Rightarrow> snd (get now k c) | CacheInsert now k v \<Rightarrow> insert now k v c)"

definition harmless :: "'m \<Rightarrow> instant \<Rightarrow> 'm cache_op \<Rightarrow> bool" where
  "harmless k at op \<longleftrightarrow> (case op of
     CacheGet now _ \<Rightarrow> now - at < ttl | CacheInsert _ k' _ \<Rightarrow> k' \<noteq> k)"

definition inserts :: "'m cache_op list \<Rightarrow> nat" where
  "inserts ops = length (filter (\<lambda>op. case op of CacheInsert _ _ _ \<Rightarrow> True | CacheGet _ _ \<Rightarrow> False) ops)"

text \<open>The other entries recorded no earlier: only they can be in the cache, once it is full, while
  the entry itself is the one evicted.\<close>

definition rivals :: "'m \<Rightarrow> instant \<Rightarrow> 'c \<Rightarrow> 'm set" where
  "rivals k at c = {j. j \<noteq> k \<and> (\<exists>w at'. lookup c j = Some (w, at') \<and> at \<le> at')}"

lemma rivals_finite: "finite (rivals k at c)"
  by (rule finite_subset [OF _ lookup_finite [of c]]) (auto simp: rivals_def)

lemma rivals_get: "ok c \<Longrightarrow> rivals k at (snd (get now k' c)) \<subseteq> rivals k at c"
  unfolding rivals_def using get_only by blast

lemma rivals_insert: "ok c \<Longrightarrow> rivals k at (insert now k' v' c) \<subseteq> {k'} \<union> rivals k at c"
  unfolding rivals_def using insert_only by blast

text \<open>A recorded response survives, full cache or not, as long as it is fresh and fewer responses
  than the cache holds are recorded after it.\<close>

lemma replay:
  assumes "ok c" and "lookup c k = Some (v, at)" and "\<forall>op \<in> set ops. harmless k at op"
    and "card (rivals k at c) + inserts ops < cap"
  shows "ok (fold apply_op ops c) \<and> lookup (fold apply_op ops c) k = Some (v, at)
    \<and> card (rivals k at (fold apply_op ops c)) \<le> card (rivals k at c) + inserts ops"
  using assms
proof (induction ops arbitrary: c)
  case (Cons op ops)
  let ?c = "apply_op op c"
  have "ok ?c \<and> lookup ?c k = Some (v, at)
      \<and> card (rivals k at ?c) \<le> card (rivals k at c) + inserts [op]"
  proof (cases op)
    case (CacheGet now k')
    have "card (rivals k at (snd (get now k' c))) \<le> card (rivals k at c)"
      by (rule card_mono [OF rivals_finite rivals_get [OF Cons.prems(1)]])
    with Cons.prems CacheGet show ?thesis
      using get_ok [of c now k'] get_keeps by (auto simp: apply_op_def harmless_def inserts_def)
  next
    case (CacheInsert now k' v')
    have "card (rivals k at (insert now k' v' c)) \<le> card ({k'} \<union> rivals k at c)"
      by (rule card_mono [OF _ rivals_insert [OF Cons.prems(1)]]) (simp add: rivals_finite)
    also have "\<dots> \<le> Suc (card (rivals k at c))"
      using card_Un_le [of "{k'}" "rivals k at c"] by simp
    finally show ?thesis
      using Cons.prems CacheInsert insert_ok insert_keeps [OF Cons.prems(1,2), folded rivals_def]
      by (simp add: apply_op_def harmless_def inserts_def)
  qed
  moreover have "inserts (op # ops) = inserts [op] + inserts ops" by (simp add: inserts_def)
  ultimately show ?case using Cons.IH [of ?c] Cons.prems by auto
qed (simp add: inserts_def)

lemma replay_hit:
  assumes "ok c" and "lookup c k = Some (v, at)" and "\<forall>op \<in> set ops. harmless k at op"
    and "card (rivals k at c) + inserts ops < cap" and "now - at < ttl"
  shows "fst (get now k (fold apply_op ops c)) = Some v"
  using replay [OF assms(1-4)] assms(5) get_fresh by blast

end

section \<open>The cache provides it\<close>

definition dedup_ok :: "dedup_cache \<Rightarrow> bool" where
  "dedup_ok c \<longleftrightarrow> hm_ok (dc_entries c) \<and> dc_ttl c = from_secs 150 \<and> dc_cap c = 256
     \<and> hm_len (dc_entries c) \<le> 256"

lemma oldest_entry_None: "oldest_entry es = None \<longleftrightarrow> es = []"
  by (cases es rule: oldest_entry.cases) (auto split: option.splits if_splits)

lemma oldest_entry_in:
  "oldest_entry es = Some (k, at) \<Longrightarrow> (\<exists>v. (k, v, at) \<in> set es) \<and> (\<forall>(j, w, at') \<in> set es. at \<le> at')"
proof (induction es arbitrary: k at rule: oldest_entry.induct)
  case (2 k1 v1 at1 es)
  show ?case
  proof (cases "oldest_entry es")
    case None
    with 2(2) oldest_entry_None [of es] show ?thesis by simp
  next
    case (Some p)
    with 2 show ?thesis by (cases p) (fastforce split: if_splits)
  qed
qed simp

text \<open>Only a full cache evicts, and it evicts an entry that every other entry is at least as young
  as.\<close>

lemma dedup_insert_keeps:
  assumes "dedup_ok c" and k: "hm_get (dc_entries c) k = Some (v, at)" and "k' \<noteq> k"
    and few: "Suc (card {j. j \<noteq> k \<and> (\<exists>w at'. hm_get (dc_entries c) j = Some (w, at') \<and> at \<le> at')}) < 256"
  shows "hm_get (dc_entries (dedup_insert now k' v' c)) k = Some (v, at)"
proof -
  let ?es = "dc_entries c"
  have ok: "hm_ok ?es" "dc_cap c = 256" using assms(1) by (auto simp: dedup_ok_def)
  have "o' \<noteq> k" if full: "256 \<le> hm_len ?es" and o': "oldest_entry ?es = Some (o', at')" for o' at'
  proof
    assume "o' = k"
    with oldest_entry_in [OF o'] k have at': "at' = at" and le: "\<forall>(j, w, a) \<in> set ?es. at \<le> a"
      using hm_mem_get [OF ok(1)] by fastforce+
    have "dom (hm_get ?es) \<subseteq>
        {k} \<union> {j. j \<noteq> k \<and> (\<exists>w a. hm_get ?es j = Some (w, a) \<and> at \<le> a)}" (is "_ \<subseteq> _ \<union> ?R")
      using le hm_get_mem by fastforce
    then have "hm_len ?es \<le> card ({k} \<union> ?R)"
      unfolding hm.len_dom [OF ok(1)]
      by (rule card_mono [rotated])
         (auto intro: finite_subset [OF _ hm.finite_dom [of ?es]])
    also have "\<dots> \<le> Suc (card ?R)" using card_Un_le [of "{k}" ?R] by simp
    finally show False using full few by simp
  qed
  then show ?thesis
    using k assms(3) ok by (auto simp: dedup_insert_def Let_def hm.get_insert hm.get_remove
        split: option.splits prod.splits)
qed

lemma dedup_insert_only:
  assumes "hm_get (dc_entries (dedup_insert now k' v' c)) k = Some x" and "k \<noteq> k'"
  shows "hm_get (dc_entries c) k = Some x"
  using assms by (auto simp: dedup_insert_def Let_def hm.get_insert hm.get_remove
      split: option.splits prod.splits if_splits)

lemma dedup_insert_len:
  assumes "dedup_ok c"
  shows "dedup_ok (dedup_insert now k v c)"
    and "hm_len (dc_entries (dedup_insert now k v c)) \<le> Suc (hm_len (dc_entries c))"
proof -
  let ?es = "dc_entries c"
  define es' where "es' = (if dc_cap c \<le> hm_len ?es
      then (case oldest_entry ?es of Some (o', _) \<Rightarrow> hm_remove o' ?es | None \<Rightarrow> ?es) else ?es)"
  have e: "dc_entries (dedup_insert now k v c) = hm_insert k (v, now) es'"
    "dc_ttl (dedup_insert now k v c) = dc_ttl c" "dc_cap (dedup_insert now k v c) = dc_cap c"
    by (simp_all add: dedup_insert_def es'_def Let_def)
  have ok: "hm_ok ?es" "hm_len ?es \<le> 256" "dc_cap c = 256" using assms by (auto simp: dedup_ok_def)
  have es': "hm_ok es' \<and> hm_len es' < 256 \<and> hm_len es' \<le> hm_len ?es"
  proof (cases "256 \<le> hm_len ?es")
    case True
    then have "?es \<noteq> []" by auto
    then obtain o' at where o': "oldest_entry ?es = Some (o', at)"
      using oldest_entry_None by fastforce
    then have "hm_get ?es o' \<noteq> None"
      using oldest_entry_in [OF o'] hm_mem_get [OF ok(1)] by fastforce
    then have "hm_len (hm_remove o' ?es) = hm_len ?es - 1"
      unfolding hm.len_remove [OF ok(1)] by (rule if_not_P)
    with True ok o' show ?thesis by (simp add: es'_def hm.ok_remove)
  next
    case False
    with ok show ?thesis by (simp add: es'_def)
  qed
  then show "dedup_ok (dedup_insert now k v c)"
    using assms by (simp add: dedup_ok_def e hm.ok_insert hm.len_insert)
  show "hm_len (dc_entries (dedup_insert now k v c)) \<le> Suc (hm_len ?es)"
    using es' by (simp add: e hm.len_insert)
qed

lemma dedup_get_lookup:
  assumes "dedup_ok c"
  shows "hm_get (dc_entries (snd (dedup_get now k' c))) k = Some (v, at)
      \<longleftrightarrow> hm_get (dc_entries c) k = Some (v, at) \<and> now - at < from_secs 150"
    and "fst (dedup_get now k c) = Some v
      \<longleftrightarrow> (\<exists>at. hm_get (dc_entries c) k = Some (v, at) \<and> now - at < from_secs 150)"
  using assms by (auto simp: dedup_get_def dedup_ok_def Let_def hm.get_retain_Some)

interpretation dedup: replay_cache "\<lambda>c. hm_get (dc_entries c)" dedup_get dedup_insert
  "\<lambda>c. hm_len (dc_entries c)" dedup_ok "from_secs 150" 256
proof unfold_locales
  fix c k v at now k'
  assume ok: "dedup_ok c"
  show "dedup_ok (snd (dedup_get now k c))
      \<and> hm_len (dc_entries (snd (dedup_get now k c))) \<le> hm_len (dc_entries c)"
    using ok by (auto simp: dedup_get_def dedup_ok_def Let_def hm.ok_retain
        intro: le_trans [OF hm.len_retain_le] hm.len_retain_le)
  show "hm_get (dc_entries (dedup_insert now k v c)) k = Some (v, now)"
    by (simp add: dedup_insert_def hm.get_insert Let_def)
next
  fix c k v at k' and now :: instant and v' :: bytes
  assume "dedup_ok c" and "hm_get (dc_entries c) k = Some (v, at)"
    and "Suc (card {j. j \<noteq> k \<and> (\<exists>w at'. hm_get (dc_entries c) j = Some (w, at') \<and> at \<le> at')}) < 256"
    and "k' \<noteq> k"
  then show "hm_get (dc_entries (dedup_insert now k' v' c)) k = Some (v, at)"
    by (intro dedup_insert_keeps)
next
  fix c k k' and now :: instant and x v'
  assume "dedup_ok c" and "hm_get (dc_entries (snd (dedup_get now k' c))) k = Some x"
  then show "hm_get (dc_entries c) k = Some x"
    by (cases x) (simp add: dedup_get_lookup(1))
next
  fix c k k' and now :: instant and x v'
  assume "hm_get (dc_entries (dedup_insert now k' v' c)) k = Some x" and "k \<noteq> k'"
  then show "hm_get (dc_entries c) k = Some x" by (rule dedup_insert_only)
qed (use dedup_get_lookup dedup_insert_len hm.finite_dom in auto)

section \<open>One datagram\<close>

text \<open>The state a connection keeps between datagrams.\<close>

record dgram_conn =
  gc_dedup :: dedup_cache
  gc_next_mid :: u16

text \<open>The times at which one datagram looks up, sweeps, assembles and records.\<close>

record dgram_times =
  at_lookup :: instant
  at_sweep :: instant
  at_assemble :: instant
  at_record :: instant

definition process_datagram ::
  "upstream \<Rightarrow> u8 \<Rightarrow> dgram_times \<Rightarrow> bytes \<Rightarrow> device_session \<Rightarrow> block1_table \<Rightarrow> dgram_conn
   \<Rightarrow> bytes option \<times> block1_table \<times> dgram_conn \<times> upstream_call list" where
  "process_datagram up szx ts bs session t g = (case datagram_decode bs of
     Inl e \<Rightarrow> (None, t, g, [])
   | Inr d \<Rightarrow>
       if msg_code (dg_message d) = EMPTY then
         (if dg_type d = Confirmable
          then (Some (datagram_encode
                  \<lparr>dg_type = Reset, dg_id = dg_id d, dg_message = default_message\<rparr>), t, g, [])
          else (None, t, g, []))
       else if \<not> is_request (msg_code (dg_message d)) then (None, t, g, [])
       else case dedup_get (at_lookup ts) (dg_id d) (gc_dedup g) of
         (Some cached, dedup) \<Rightarrow> (Some cached, t, g\<lparr>gc_dedup := dedup\<rparr>, [])
       | (None, dedup) \<Rightarrow>
           (case handle up szx (at_sweep ts) (at_assemble ts) (dg_message d) session Udp t of
              (answer, t', calls) \<Rightarrow>
                let (ty, mid, next_mid) =
                      (case dg_type d of
                         Confirmable \<Rightarrow> (Acknowledgement, dg_id d, gc_next_mid g)
                       | _ \<Rightarrow> (NonConfirmable, gc_next_mid g + 1, gc_next_mid g + 1));
                    encoded = datagram_encode \<lparr>dg_type = ty, dg_id = mid, dg_message = answer\<rparr>
                in (Some encoded, t',
                    g\<lparr>gc_dedup := dedup_insert (at_record ts) (dg_id d) encoded dedup,
                      gc_next_mid := next_mid\<rparr>, calls)))"

text \<open>\<open>rand_u16\<close>: two random bytes, or zeros when the generator fails.\<close>

definition rand_u16 :: "(u8 \<times> u8) option \<Rightarrow> u16" where
  "rand_u16 bs = (case bs of Some (a, b) \<Rightarrow> u16_from_be_bytes a b | None \<Rightarrow> u16_from_be_bytes 0 0)"

section \<open>A connection's run\<close>

text \<open>What arrives: the datagram, the times of its handling, and the table as it finds it.\<close>

type_synonym dgram_event = "dgram_times \<times> block1_table \<times> bytes"

definition dgram_step ::
  "upstream \<Rightarrow> u8 \<Rightarrow> device_session \<Rightarrow> dgram_event \<Rightarrow> dgram_conn \<Rightarrow> dgram_conn" where
  "dgram_step up szx session ev g = (case ev of (ts, t, bs) \<Rightarrow>
     fst (snd (snd (process_datagram up szx ts bs session t g))))"

text \<open>What a datagram does to the duplicate cache.\<close>

definition dedup_ops ::
  "upstream \<Rightarrow> u8 \<Rightarrow> device_session \<Rightarrow> dgram_event \<Rightarrow> dgram_conn \<Rightarrow> u16 cache_op list" where
  "dedup_ops up szx session ev g = (case ev of (ts, t, bs) \<Rightarrow> (case datagram_decode bs of
     Inl _ \<Rightarrow> []
   | Inr d \<Rightarrow>
       if \<not> is_request (msg_code (dg_message d)) then []
       else case dedup_get (at_lookup ts) (dg_id d) (gc_dedup g) of
         (Some _, _) \<Rightarrow> [CacheGet (at_lookup ts) (dg_id d)]
       | (None, _) \<Rightarrow> [CacheGet (at_lookup ts) (dg_id d),
           CacheInsert (at_record ts) (dg_id d)
             (the (fst (process_datagram up szx ts bs session t g)))]))"

lemma is_request_not_empty: "is_request c \<Longrightarrow> c \<noteq> EMPTY"
  by (simp add: is_request_def)

lemma dgram_step_dedup:
  "gc_dedup (dgram_step up szx session ev g)
    = fold dedup.apply_op (dedup_ops up szx session ev g) (gc_dedup g)"
proof -
  obtain ts t bs where ev: "ev = (ts, t, bs)" by (metis prod_cases3)
  show ?thesis
  proof (cases "datagram_decode bs")
    case (Inl e)
    then show ?thesis by (simp add: dgram_step_def dedup_ops_def process_datagram_def ev)
  next
    case (Inr d)
    show ?thesis
    proof (cases "is_request (msg_code (dg_message d))")
      case False
      with Inr show ?thesis by (simp add: dgram_step_def dedup_ops_def process_datagram_def ev)
    next
      case True
      obtain r c where "dedup_get (at_lookup ts) (dg_id d) (gc_dedup g) = (r, c)" by fastforce
      with Inr True show ?thesis
        by (cases r) (auto simp: dgram_step_def dedup_ops_def process_datagram_def ev
            is_request_not_empty dedup.apply_op_def Let_def split: prod.splits)
    qed
  qed
qed

lemma dedup_ops_inserts: "dedup.inserts (dedup_ops up szx session ev g) \<le> 1"
  by (auto simp: dedup_ops_def dedup.inserts_def split: prod.splits sum.splits option.splits)

text \<open>The only replies of a request: recorded, or made and recorded.\<close>

lemma process_request:
  assumes "datagram_decode bs = Inr d" and "is_request (msg_code (dg_message d))"
    and "dedup_get (at_lookup ts) (dg_id d) (gc_dedup g) = (None, c)"
    and "process_datagram up szx ts bs session t g = (r, t', g', calls)"
  shows "r = Some (datagram_encode
      \<lparr>dg_type = (if dg_type d = Confirmable then Acknowledgement else NonConfirmable),
       dg_id = (if dg_type d = Confirmable then dg_id d else gc_next_mid g + 1),
       dg_message = fst (handle up szx (at_sweep ts) (at_assemble ts) (dg_message d) session Udp t)\<rparr>)"
    and "gc_dedup g' = dedup_insert (at_record ts) (dg_id d) (the r) c"
    and "calls = snd (snd (handle up szx (at_sweep ts) (at_assemble ts) (dg_message d) session Udp t))"
    and "gc_next_mid g' = (if dg_type d = Confirmable then gc_next_mid g else gc_next_mid g + 1)"
  using assms
  by (auto simp: process_datagram_def is_request_not_empty Let_def
      split: prod.splits message_type.splits)

lemma process_replay:
  assumes "datagram_decode bs = Inr d" and "is_request (msg_code (dg_message d))"
    and "fst (dedup_get (at_lookup ts) (dg_id d) (gc_dedup g)) = Some v"
  shows "\<exists>g'. process_datagram up szx ts bs session t g = (Some v, t, g', [])
    \<and> gc_next_mid g' = gc_next_mid g"
  using assms by (auto simp: process_datagram_def is_request_not_empty split: prod.splits)

lemma dedup_ok_step:
  "dedup_ok (gc_dedup g) \<Longrightarrow> dedup_ok (gc_dedup (dgram_step up szx session ev g))"
proof -
  have "dedup_ok (fold dedup.apply_op ops c)" if "dedup_ok c" for ops c
    using that
  proof (induction ops arbitrary: c)
    case (Cons op ops)
    then show ?case
      using dedup.get_ok dedup.insert_ok
      by (cases op) (simp_all add: dedup.apply_op_def)
  qed simp
  then show "dedup_ok (gc_dedup g) \<Longrightarrow> ?thesis" unfolding dgram_step_dedup .
qed

fun dgram_run ::
  "upstream \<Rightarrow> u8 \<Rightarrow> device_session \<Rightarrow> dgram_event list \<Rightarrow> dgram_conn \<Rightarrow> dgram_conn" where
  "dgram_run up szx session [] g = g"
| "dgram_run up szx session (ev # evs) g
     = dgram_run up szx session evs (dgram_step up szx session ev g)"

text \<open>One datagram leaves a fresh record in place: the same id is replayed, not recorded again.\<close>

lemma dgram_step_keeps:
  assumes "dedup_ok (gc_dedup g)" and "hm_get (dc_entries (gc_dedup g)) mid = Some (v, at)"
    and "at_lookup (fst ev) - at < from_secs 150"
    and "card (dedup.rivals mid at (gc_dedup g)) + 1 < 256"
  shows "hm_get (dc_entries (gc_dedup (dgram_step up szx session ev g))) mid = Some (v, at)
    \<and> card (dedup.rivals mid at (gc_dedup (dgram_step up szx session ev g)))
        \<le> Suc (card (dedup.rivals mid at (gc_dedup g)))"
proof -
  obtain ts t bs where ev: "ev = (ts, t, bs)" by (metis prod_cases3)
  let ?ops = "dedup_ops up szx session ev g"
  have "fst (dedup_get (at_lookup ts) mid (gc_dedup g)) = Some v"
    using assms(1-3) ev by (intro dedup.get_fresh) auto
  then have "\<forall>op \<in> set ?ops. dedup.harmless mid at op"
    using assms(3) ev
    by (auto simp: dedup_ops_def dedup.harmless_def split: sum.splits option.splits if_splits)
       (metis fst_conv option.distinct(1))
  from dedup.replay [OF assms(1,2) this] dedup_ops_inserts [of up szx session ev g] assms(4)
  show ?thesis unfolding dgram_step_dedup by auto
qed

lemma dgram_run_keeps:
  assumes "dedup_ok (gc_dedup g)" and "hm_get (dc_entries (gc_dedup g)) mid = Some (v, at)"
    and "\<forall>ev \<in> set evs. at_lookup (fst ev) - at < from_secs 150"
    and "card (dedup.rivals mid at (gc_dedup g)) + length evs < 256"
  shows "dedup_ok (gc_dedup (dgram_run up szx session evs g))
    \<and> hm_get (dc_entries (gc_dedup (dgram_run up szx session evs g))) mid = Some (v, at)"
  using assms
proof (induction evs arbitrary: g)
  case (Cons ev evs)
  let ?g = "dgram_step up szx session ev g"
  have "hm_get (dc_entries (gc_dedup ?g)) mid = Some (v, at)
      \<and> card (dedup.rivals mid at (gc_dedup ?g)) \<le> Suc (card (dedup.rivals mid at (gc_dedup g)))"
    using Cons.prems by (intro dgram_step_keeps) auto
  with Cons.IH [of ?g] Cons.prems dedup_ok_step [OF Cons.prems(1)] show ?case by simp
qed simp

section \<open>How long replies can get\<close>









section \<open>Properties\<close>

text \<open>A confirmable GET without a path, message id 7.\<close>

lemma sample_request:
  "datagram_decode [0x40, 1, 0, 7] = Inr \<lparr>dg_type = Confirmable, dg_id = 7, dg_message =
     \<lparr>msg_code = GET, msg_token = [], msg_options = [], msg_payload = []\<rparr>\<rparr>"
  by (simp add: datagram_decode_def VERSION_def MAX_TOKEN_LEN_def message_type_from_bits_def
      decode_options_and_payload_def default_message_def u16_from_be_bytes_def GET_def)

text \<open>C12. A retransmitted request is answered, not executed again: once a request has been answered, any
  datagram with its message id gets the same reply bytes, without an upstream call and without
  touching the Block1 table, for 150 seconds, whatever fewer than 256 other datagrams arrived on
  the connection in between and whatever other connections did to the table. The cache may be full
  already: what is evicted to make room are the older entries. The entries it holds at the start
  were recorded at strictly earlier readings of the clock than this request's.\<close>

theorem retransmission_replayed:
  assumes "dedup_ok (gc_dedup g)"
    and "datagram_decode bs = Inr d" and "is_request (msg_code (dg_message d))"
    and "fst (dedup_get (at_lookup ts) (dg_id d) (gc_dedup g)) = None"
    and "process_datagram up szx ts bs session t g = (Some r, t1, g1, calls)"
    and "\<forall>ev \<in> set evs. at_lookup (fst ev) - at_record ts < from_secs 150"
    and "\<forall>(k, v, at) \<in> set (dc_entries (gc_dedup g)). at < at_record ts"
    and "length evs < 256"
    and "datagram_decode bs' = Inr d'" and "is_request (msg_code (dg_message d'))"
    and "dg_id d' = dg_id d" and "at_lookup ts' - at_record ts < from_secs 150"
  shows "\<exists>g'. process_datagram up szx ts' bs' session t' (dgram_run up szx session evs g1)
    = (Some r, t', g', [])"
proof -
  obtain c where c: "dedup_get (at_lookup ts) (dg_id d) (gc_dedup g) = (None, c)"
    using assms(4) by (metis prod.collapse)
  have g1: "gc_dedup g1 = dedup_insert (at_record ts) (dg_id d) r c"
    using process_request(2) [OF assms(2,3) c assms(5)] by simp
  have okc: "dedup_ok c" using dedup.get_ok [OF assms(1), of "at_lookup ts" "dg_id d"] c by auto
  then have ok1: "dedup_ok (gc_dedup g1)" using dedup_insert_len(1) by (simp add: g1)
  have look1: "hm_get (dc_entries (gc_dedup g1)) (dg_id d) = Some (r, at_record ts)"
    using dedup.insert_lookup [OF okc] by (simp add: g1)
  have "at < at_record ts" if "j \<noteq> dg_id d" "hm_get (dc_entries (gc_dedup g1)) j = Some (w, at)" for j w at
  proof -
    have "hm_get (dc_entries c) j = Some (w, at)"
      using dedup_insert_only that unfolding g1 by blast
    then have "hm_get (dc_entries (gc_dedup g)) j = Some (w, at)"
      using dedup.get_only [OF assms(1), of "at_lookup ts" "dg_id d"] c by simp
    with assms(7) show ?thesis by (auto dest: hm_get_mem)
  qed
  then have "dedup.rivals (dg_id d) (at_record ts) (gc_dedup g1) = {}"
    by (force simp: dedup.rivals_def)
  then have "card (dedup.rivals (dg_id d) (at_record ts) (gc_dedup g1)) + length evs < 256"
    using assms(8) by simp
  from dgram_run_keeps [OF ok1 look1 assms(6) this] have
    "fst (dedup_get (at_lookup ts') (dg_id d') (gc_dedup (dgram_run up szx session evs g1))) = Some r"
    using assms(11,12) by (auto intro: dedup.get_fresh)
  from process_replay [OF assms(9,10) this] show ?thesis by blast
qed

text \<open>A full cache: 256 entries recorded at time 0.\<close>

definition full_cache :: dedup_cache where
  "full_cache = new_dedup_cache\<lparr>dc_entries := map (\<lambda>i. (of_nat (1000 + i), [], 0)) [0..<256]\<rparr>"

lemma full_cache_id: "i < 256 \<Longrightarrow> unat (of_nat (1000 + i) :: u16) = 1000 + i"
  by (simp add: unat_of_nat take_bit_nat_eq_self del: of_nat_add)

lemma full_cache_ok: "dedup_ok full_cache \<and> hm_len (dc_entries full_cache) = 256"
proof -
  have "inj_on (\<lambda>i. of_nat (1000 + i) :: u16) {0..<256}"
    by (rule inj_onI) (metis add_left_cancel atLeastLessThan_iff full_cache_id)
  then show ?thesis
    by (simp add: dedup_ok_def full_cache_def new_dedup_cache_def hm_defs distinct_map comp_def del: of_nat_add)
qed

lemma full_cache_miss: "fst (dedup_get now 7 full_cache) = None"
proof -
  have "(of_nat (1000 + i) :: u16) \<noteq> 7" if "i < 256" for i
  proof
    assume "(of_nat (1000 + i) :: u16) = 7"
    then have "unat (of_nat (1000 + i) :: u16) = unat (7 :: u16)" by (rule arg_cong)
    with full_cache_id [OF that] show False by (simp del: of_nat_add)
  qed
  then have "hm_get (dc_entries full_cache) 7 = None"
    by (auto simp: full_cache_def hm_get_def map_of_eq_None_iff simp del: of_nat_add)
  then show ?thesis
    using full_cache_ok dedup_get_lookup(2) [of full_cache now 7]
    by (metis option.distinct(1) option.exhaust_sel)
qed

theorem retransmission_replayed_witness:
  "\<exists>r g1 t1 calls g'. process_datagram (\<lambda>_. Inl []) 6 \<lparr>at_lookup = 1, at_sweep = 1, at_assemble = 1,
        at_record = 1\<rparr> [0x40, 1, 0, 7]
      \<lparr>ds_pigeon_id = [], ds_token = [], ds_peer = [], ds_conn_id = 1\<rparr> []
      \<lparr>gc_dedup = full_cache, gc_next_mid = 0\<rparr> = (Some r, t1, g1, calls)
    \<and> process_datagram (\<lambda>_. Inl []) 6 \<lparr>at_lookup = from_secs 149, at_sweep = 0, at_assemble = 0,
        at_record = 0\<rparr> [0x40, 1, 0, 7]
      \<lparr>ds_pigeon_id = [], ds_token = [], ds_peer = [], ds_conn_id = 1\<rparr> []
      (dgram_run (\<lambda>_. Inl []) 6 \<lparr>ds_pigeon_id = [], ds_token = [], ds_peer = [], ds_conn_id = 1\<rparr>
        [(\<lparr>at_lookup = 2, at_sweep = 2, at_assemble = 2, at_record = 2\<rparr>, [], [0x40, 1, 0, 8])] g1)
      = (Some r, [], g', [])"
proof -
  let ?s = "\<lparr>ds_pigeon_id = [], ds_token = [], ds_peer = [], ds_conn_id = 1\<rparr>"
  let ?g = "\<lparr>gc_dedup = full_cache, gc_next_mid = 0\<rparr>"
  let ?ts = "\<lparr>at_lookup = 1, at_sweep = 1, at_assemble = 1, at_record = 1\<rparr>"
  let ?ts' = "\<lparr>at_lookup = from_secs 149, at_sweep = 0, at_assemble = 0, at_record = 0\<rparr>"
  let ?evs = "[(\<lparr>at_lookup = 2, at_sweep = 2, at_assemble = 2, at_record = 2\<rparr>, [], [0x40, 1, 0, 8])]"
  let ?p = "process_datagram (\<lambda>_. Inl []) 6"
  let ?d = "\<lparr>dg_type = Confirmable, dg_id = 7, dg_message =
      \<lparr>msg_code = GET, msg_token = [], msg_options = [], msg_payload = []\<rparr>\<rparr>"
  obtain r t1 g1 calls where p: "?p ?ts [0x40, 1, 0, 7] ?s [] ?g = (r, t1, g1, calls)"
    by (metis prod_cases4)
  have req: "is_request (msg_code (dg_message ?d))"
    by (simp add: is_request_def code_defs)
  have miss: "fst (dedup_get (at_lookup ?ts) (dg_id ?d) (gc_dedup ?g)) = None"
    by (simp only: simp_thms dgram_times.simps dgram_conn.simps datagram.simps full_cache_miss)
  then obtain c where "dedup_get (at_lookup ?ts) (dg_id ?d) (gc_dedup ?g) = (None, c)"
    by (metis prod.collapse)
  from process_request(1) [OF sample_request req this p] obtain x where r: "r = Some x" by blast
  have "\<exists>g'. ?p ?ts' [0x40, 1, 0, 7] ?s [] (dgram_run (\<lambda>_. Inl []) 6 ?s ?evs g1) = (Some x, [], g', [])"
    by (rule retransmission_replayed [OF _ sample_request req miss p [unfolded r] _ _ _ sample_request req])
       (use full_cache_ok in \<open>auto simp: from_secs_def full_cache_def\<close>)
  with p r show ?thesis by auto
qed

text \<open>C26. Every reply fits its request. An undecodable datagram, a response or an empty non-confirmable
  message gets no reply and changes nothing; an empty confirmable one gets a reset with its id. A
  new request is handled exactly once; its reply decodes to the handler's response with the
  request's token: an acknowledgement with the request's id for a confirmable request, otherwise
  a non-confirmable message with a fresh id.\<close>

theorem datagram_replies:
  assumes "process_datagram up szx ts bs session t g = (r, t', g', calls)"
  shows "case datagram_decode bs of
      Inl e \<Rightarrow> r = None \<and> t' = t \<and> g' = g \<and> calls = []
    | Inr d \<Rightarrow>
        if msg_code (dg_message d) = EMPTY then
          (r = (if dg_type d = Confirmable
                then Some (datagram_encode \<lparr>dg_type = Reset, dg_id = dg_id d,
                  dg_message = default_message\<rparr>) else None))
          \<and> t' = t \<and> g' = g \<and> calls = []
        else if \<not> is_request (msg_code (dg_message d)) then r = None \<and> t' = t \<and> g' = g \<and> calls = []
        else fst (dedup_get (at_lookup ts) (dg_id d) (gc_dedup g)) = None \<longrightarrow>
          (\<exists>m. (m, t', calls)
              = handle up szx (at_sweep ts) (at_assemble ts) (dg_message d) session Udp t
            \<and> msg_token m = msg_token (dg_message d)
            \<and> datagram_decode (the r) = Inr
                \<lparr>dg_type = (if dg_type d = Confirmable then Acknowledgement else NonConfirmable),
                 dg_id = (if dg_type d = Confirmable then dg_id d else gc_next_mid g'),
                 dg_message = wire_form m\<rparr>
            \<and> r \<noteq> None \<and> gc_next_mid g' =
                (if dg_type d = Confirmable then gc_next_mid g else gc_next_mid g + 1))"
proof (cases "datagram_decode bs")
  case (Inl e)
  then show ?thesis using assms by (simp add: process_datagram_def)
next
  case (Inr d)
  show ?thesis
  proof (cases "is_request (msg_code (dg_message d))
      \<and> fst (dedup_get (at_lookup ts) (dg_id d) (gc_dedup g)) = None")
    case False
    then show ?thesis
      using Inr assms by (auto simp: process_datagram_def is_request_def split: if_splits)
  next
    case True
    then obtain c where c: "dedup_get (at_lookup ts) (dg_id d) (gc_dedup g) = (None, c)"
      by (metis prod.collapse)
    have req: "is_request (msg_code (dg_message d))" using True by simp
    note p = process_request [OF Inr req c assms]
    let ?h = "handle up szx (at_sweep ts) (at_assemble ts) (dg_message d) session Udp t"
    have t': "t' = fst (snd ?h)"
      using assms Inr req c by (auto simp: process_datagram_def is_request_not_empty Let_def
          split: prod.splits message_type.splits)
    have "wire_ok (dg_message d)" by (rule datagram_decode_yields(1) [OF Inr])
    then have "wire_ok (fst ?h)" by (rule handle_wire_ok)
    then have dec: "datagram_decode (the r) = Inr
        \<lparr>dg_type = (if dg_type d = Confirmable then Acknowledgement else NonConfirmable),
         dg_id = (if dg_type d = Confirmable then dg_id d else gc_next_mid g + 1),
         dg_message = wire_form (fst ?h)\<rparr>"
      unfolding p(1) option.sel by (subst datagram_decode_encode) simp_all
    have tok: "msg_token (fst ?h) = msg_token (dg_message d)" by (rule handle_token)
    have "(fst ?h, t', calls) = ?h" by (simp add: t' p(3))
    with dec tok p(1,4) show ?thesis
      using Inr req is_request_not_empty [OF req] by (auto intro!: exI [of _ "fst ?h"])
  qed
qed

theorem datagram_replies_witness:
  "\<exists>t' g' calls. process_datagram (\<lambda>_. Inl []) 6 \<lparr>at_lookup = 0, at_sweep = 0, at_assemble = 0,
        at_record = 0\<rparr> [0x40, 0, 0, 7]
      \<lparr>ds_pigeon_id = [], ds_token = [], ds_peer = [], ds_conn_id = 1\<rparr> []
      \<lparr>gc_dedup = new_dedup_cache, gc_next_mid = 0\<rparr> = (Some [0x70, 0, 0, 7], t', g', calls)"
proof -
  obtain r t' g' calls where p: "process_datagram (\<lambda>_. Inl []) 6 \<lparr>at_lookup = 0, at_sweep = 0,
        at_assemble = 0, at_record = 0\<rparr> [0x40, 0, 0, 7]
      \<lparr>ds_pigeon_id = [], ds_token = [], ds_peer = [], ds_conn_id = 1\<rparr> []
      \<lparr>gc_dedup = new_dedup_cache, gc_next_mid = 0\<rparr> = (r, t', g', calls)"
    by (metis prod_cases4)
  have d: "datagram_decode [0x40, 0, 0, 7] = Inr \<lparr>dg_type = Confirmable, dg_id = 7, dg_message =
      \<lparr>msg_code = EMPTY, msg_token = [], msg_options = [], msg_payload = []\<rparr>\<rparr>"
    by (simp add: datagram_decode_def VERSION_def MAX_TOKEN_LEN_def message_type_from_bits_def
        decode_options_and_payload_def default_message_def u16_from_be_bytes_def EMPTY_def)
  have "datagram_encode \<lparr>dg_type = Reset, dg_id = 7, dg_message = default_message\<rparr> = [0x70, 0, 0, 7]"
    by (simp add: datagram_encode_def VERSION_def MAX_TOKEN_LEN_def u16_to_be_bytes_def
        encode_options_and_payload_def default_message_def)
  with datagram_replies [OF p] p show ?thesis by (auto simp: d)
qed



end
