(* ===== verification/Block1_Reassembly.thy ===== *)
theory Block1_Reassembly
  imports Handler
begin

text \<open>
  Block1 reassembly in \<open>loft/src/handler.rs\<close> as the listeners use it: one table, shared by every
  connection's thread, whose sweeps and reassembly steps interleave in any order. Lemmas: the table
  stays within its bounds, a connection's upload only depends on its own blocks, and blocks sent
  in order come out as one body.
\<close>

section \<open>Interleaved events\<close>

text \<open>Each event is one acquisition of the table's lock.\<close>

datatype block1_event =
    SweepEvent instant
  | BlockEvent instant message device_session bytes

fun run_block1 :: "block1_event list \<Rightarrow> block1_table \<Rightarrow> (block1_key \<times> body_state) list \<times> block1_table"
  where
  "run_block1 [] t = ([], t)"
| "run_block1 (SweepEvent now # es) t = run_block1 es (sweep_block1 now t)"
| "run_block1 (BlockEvent now req s leaf # es) t = (case assemble_body now req s leaf t of
     (r, t') \<Rightarrow> (case run_block1 es t' of (out, t'') \<Rightarrow> (((ds_conn_id s, leaf), r) # out, t'')))"

text \<open>The blocks a connection sent for a leaf, and the results it got.\<close>

fun requests_of :: "block1_key \<Rightarrow> block1_event list \<Rightarrow> message list" where
  "requests_of key [] = []"
| "requests_of key (SweepEvent now # es) = requests_of key es"
| "requests_of key (BlockEvent now req s leaf # es) =
     (if (ds_conn_id s, leaf) = key then req # requests_of key es else requests_of key es)"

definition results_of :: "block1_key \<Rightarrow> (block1_key \<times> body_state) list \<Rightarrow> body_state list" where
  "results_of key out = map snd (filter (\<lambda>(k, _). k = key) out)"

lemma results_of_simps [simp]:
  "results_of key [] = []"
  "results_of key ((k, r) # out) = (if k = key then r # results_of key out else results_of key out)"
  by (simp_all add: results_of_def)

text \<open>
  No sweep finds the upload idle: each one that runs while blocks are still to come does so less
  than the idle timeout after the last block.
\<close>

fun timely :: "block1_key \<Rightarrow> instant \<Rightarrow> block1_event list \<Rightarrow> bool" where
  "timely key last_block [] = True"
| "timely key last_block (SweepEvent now # es) =
     ((requests_of key es \<noteq> [] \<longrightarrow> now - last_block < BLOCK1_IDLE_TIMEOUT)
      \<and> timely key last_block es)"
| "timely key last_block (BlockEvent now req s leaf # es) =
     timely key (if (ds_conn_id s, leaf) = key then now else last_block) es"

text \<open>Blocks numbered from \<open>n\<close> on, all but the last with the more bit.\<close>

fun upload_from :: "u32 \<Rightarrow> message list \<Rightarrow> bool" where
  "upload_from n [] = False"
| "upload_from n (req # reqs) = (case block1_of req of
     None \<Rightarrow> False
   | Some b \<Rightarrow> blk_num b = n \<and> blk_more b = (reqs \<noteq> []) \<and> (reqs \<noteq> [] \<longrightarrow> upload_from (n + 1) reqs))"

definition continue_for :: "message \<Rightarrow> body_state" where
  "continue_for req = (case block1_of req of
     Some b \<Rightarrow> Interim (set_option_uint BLOCK1 (block_encode b) (response CONTINUE req))
   | None \<Rightarrow> Complete [])"

section \<open>Other uploads do not matter\<close>

lemma append_block_other:
  "key \<noteq> k \<Longrightarrow> hm_get (snd (append_block now req b k t)) key = hm_get t key"
  by (auto simp: append_block_def Let_def hm.get_insert hm.get_remove split: option.split)

lemma assemble_body_other:
  "(ds_conn_id s, leaf) \<noteq> key \<Longrightarrow>
    hm_get (snd (assemble_body now req s leaf t)) key = hm_get t key"
  by (auto simp: assemble_body_def Let_def append_block_other hm.get_insert split: option.split)

lemma sweep_keeps:
  "hm_ok t \<Longrightarrow> hm_get t key = Some r \<Longrightarrow> now - ra_touched r < BLOCK1_IDLE_TIMEOUT \<Longrightarrow>
    hm_get (sweep_block1 now t) key = Some r"
  by (simp add: sweep_block1_def hm.get_retain)

lemma sweep_absent: "hm_ok t \<Longrightarrow> hm_get t key = None \<Longrightarrow> hm_get (sweep_block1 now t) key = None"
  by (simp add: sweep_block1_def hm.get_retain)

lemma run_absent:
  assumes "block1_ok t" and "hm_get t key = None" and "requests_of key es = []"
  shows "results_of key (fst (run_block1 es t)) = [] \<and> hm_get (snd (run_block1 es t)) key = None"
  using assms
proof (induction es t rule: run_block1.induct)
  case (2 now es t)
  then show ?case by (simp add: block1_ok_sweep sweep_absent block1_ok_hm)
next
  case (3 now req s leaf es t)
  obtain r t' where a: "assemble_body now req s leaf t = (r, t')" by fastforce
  have "hm_get t' key = None" "block1_ok t'"
    using 3(2-) assemble_body_other [of s leaf key now req t] block1_ok_assemble [of t now req s leaf] a
    by (auto split: if_splits)
  then show ?case using 3(1) [OF a [symmetric]] 3(4) a by (auto split: prod.split if_splits)
qed simp

section \<open>Blocks in order make one body\<close>

lemma append_block_step:
  assumes "hm_get t key = Some \<lparr>ra_data = dat, ra_next_num = n, ra_touched = l\<rparr>"
    and "blk_num b = n" and "length dat + length (msg_payload req) \<le> MAX_BLOCK1_BODY"
  shows "append_block now req b key t =
    (if blk_more b
     then (Interim (set_option_uint BLOCK1 (block_encode b) (response CONTINUE req)),
           hm_insert key \<lparr>ra_data = dat @ msg_payload req, ra_next_num = n + 1, ra_touched = now\<rparr> t)
     else (Complete (dat @ msg_payload req),
           hm_remove key (hm_insert key
             \<lparr>ra_data = dat @ msg_payload req, ra_next_num = n + 1, ra_touched = now\<rparr> t)))"
  using assms by (simp add: append_block_def Let_def hm.get_insert)

lemma upload_continues:
  assumes "block1_ok t"
    and "hm_get t key = Some \<lparr>ra_data = dat, ra_next_num = n, ra_touched = l\<rparr>" and "n \<noteq> 0"
    and "upload_from n (requests_of key es)" and "timely key l es"
    and "length dat + length (concat (map msg_payload (requests_of key es))) \<le> MAX_BLOCK1_BODY"
    and "unat n + length (requests_of key es) < 2 ^ 32"
  shows "results_of key (fst (run_block1 es t))
      = map continue_for (butlast (requests_of key es))
        @ [Complete (dat @ concat (map msg_payload (requests_of key es)))]
    \<and> hm_get (snd (run_block1 es t)) key = None"
  using assms
proof (induction es t arbitrary: dat n l rule: run_block1.induct)
  case (2 now es t)
  then have "requests_of key es \<noteq> []" by auto
  with 2 have "hm_get (sweep_block1 now t) key
      = Some \<lparr>ra_data = dat, ra_next_num = n, ra_touched = l\<rparr>"
    by (intro sweep_keeps) (auto simp: block1_ok_hm)
  with 2 show ?case by (simp add: block1_ok_sweep)
next
  case (3 now req s leaf es t)
  obtain r t' where a: "assemble_body now req s leaf t = (r, t')" by fastforce
  obtain out t'' where run: "run_block1 es t' = (out, t'')" by fastforce
  have ok': "block1_ok t'" using block1_ok_assemble [OF 3(2), of now req s leaf] a by simp
  show ?case
  proof (cases "(ds_conn_id s, leaf) = key")
    case False
    then have "hm_get t' key = hm_get t key"
      using assemble_body_other [of s leaf key now req t] a by simp
    with 3(1) [OF a [symmetric] ok'] 3(3-) False a run show ?thesis by (auto split: if_splits)
  next
    case True
    let ?rest = "requests_of key es"
    obtain b where b: "block1_of req = Some b" "blk_num b = n" "blk_more b = (?rest \<noteq> [])"
      "?rest \<noteq> [] \<Longrightarrow> upload_from (n + 1) ?rest"
      using 3(5) True by (auto split: option.splits)
    have len: "length dat + length (msg_payload req) \<le> MAX_BLOCK1_BODY"
      using 3(7) True by simp
    have step: "(r, t') = append_block now req b key t"
      using a b(1,2) 3(4) True by (simp add: assemble_body_def)
    note app = append_block_step [OF 3(3) b(2) len, of now]
    show ?thesis
    proof (cases "?rest = []")
      case last: True
      with step app b have rt: "r = Complete (dat @ msg_payload req)" "hm_get t' key = None"
        by (auto simp: hm.get_remove)
      from run_absent [OF ok' rt(2) last] rt a run True last show ?thesis by simp
    next
      case more: False
      let ?e = "\<lparr>ra_data = dat @ msg_payload req, ra_next_num = n + 1, ra_touched = now\<rparr>"
      from more step app b have rt: "r = continue_for req" "hm_get t' key = Some ?e"
        by (auto simp: continue_for_def hm.get_insert)
      have un: "unat (n + 1) = unat n + 1"
        using 3(8) True by (simp add: unat_word_ariths)
      then have "n + 1 \<noteq> 0" by (metis Suc_eq_plus1 nat.simps(3) unat_0)
      from 3(1) [OF a [symmetric] ok' rt(2) this b(4) [OF more]] 3(6-) True un run rt(1) a more
      show ?thesis by simp
    qed
  qed
qed simp

section \<open>Properties\<close>

text \<open>An upload whose blocks arrive in order is reassembled exactly, whatever else happens in
  between: with any interleaving of other connections' blocks, of this connection's uploads to
  other leaves and of sweeps (none later than the idle timeout after the last block), every block
  but the last is answered 2.31 Continue with its Block1 option, the last yields the concatenation
  of all payloads, and nothing of the upload stays in the table.\<close>

theorem upload_reassembled:
  assumes "block1_ok t" and "hm_contains_key t key \<or> hm_len t < MAX_BLOCK1_ENTRIES"
    and "key = (ds_conn_id s, leaf)" and "es = BlockEvent now req s leaf # es'"
    and "upload_from 0 (requests_of key es)" and "timely key now es"
    and "length (concat (map msg_payload (requests_of key es))) \<le> MAX_BLOCK1_BODY"
    and "length (requests_of key es) < 2 ^ 28"
  shows "results_of key (fst (run_block1 es t))
      = map continue_for (butlast (requests_of key es))
        @ [Complete (concat (map msg_payload (requests_of key es)))]
    \<and> hm_get (snd (run_block1 es t)) key = None"
proof -
  let ?rest = "requests_of key es'"
  have reqs: "requests_of key es = req # ?rest" using assms(3,4) by simp
  let ?t0 = "hm_insert key \<lparr>ra_data = [], ra_next_num = 0, ra_touched = now\<rparr> t"
  obtain b where b: "block1_of req = Some b" "blk_num b = 0" "blk_more b = (?rest \<noteq> [])"
    "?rest \<noteq> [] \<Longrightarrow> upload_from 1 ?rest"
    using assms(5) by (auto simp: reqs split: option.splits)
  obtain r t' where a: "assemble_body now req s leaf t = (r, t')" by fastforce
  obtain out t'' where run: "run_block1 es' t' = (out, t'')" by fastforce
  have ok': "block1_ok t'" using block1_ok_assemble [OF assms(1), of now req s leaf] a by simp
  have step: "(r, t') = append_block now req b key ?t0"
    using a b(1,2) assms(2,3) by (auto simp: assemble_body_def Let_def)
  have e0: "hm_get ?t0 key = Some \<lparr>ra_data = [], ra_next_num = 0, ra_touched = now\<rparr>"
    by (simp add: hm.get_insert)
  have len: "length [] + length (msg_payload req) \<le> MAX_BLOCK1_BODY"
    using assms(7) by (simp add: reqs)
  note app = append_block_step [OF e0 b(2) len, of now]
  show ?thesis
  proof (cases "?rest = []")
    case True
    with step app b have rt: "r = Complete (msg_payload req)" "hm_get t' key = None"
      by (auto simp: hm.get_remove)
    from run_absent [OF ok' rt(2) True] rt a run True assms(3) show ?thesis
      by (simp add: assms(4))
  next
    case False
    let ?e = "\<lparr>ra_data = msg_payload req, ra_next_num = 1, ra_touched = now\<rparr>"
    from False step app b have rt: "r = continue_for req" "hm_get t' key = Some ?e"
      by (auto simp: continue_for_def hm.get_insert)
    from upload_continues [OF ok' rt(2) _ b(4) [OF False]] assms(3,4,6,7,8) reqs run rt(1) a False
    show ?thesis by simp
  qed
qed

theorem upload_reassembled_witness:
  "\<exists>r1 r2 t. run_block1
     [BlockEvent 0 \<lparr>msg_code = POST, msg_token = [], msg_options = [(27, [8])], msg_payload = [1, 2]\<rparr>
        \<lparr>ds_pigeon_id = [], ds_token = [], ds_peer = [], ds_conn_id = 1\<rparr> [9],
      SweepEvent 5,
      BlockEvent 7 \<lparr>msg_code = POST, msg_token = [], msg_options = [(27, [16])], msg_payload = [3]\<rparr>
        \<lparr>ds_pigeon_id = [], ds_token = [], ds_peer = [], ds_conn_id = 1\<rparr> [9]] []
     = ([r1, ((1, [9]), r2)], t) \<and> r2 = Complete [1, 2, 3]"
proof -
  let ?r1 = "\<lparr>msg_code = POST, msg_token = [], msg_options = [(27, [8])], msg_payload = [1, 2]\<rparr>"
  let ?r2 = "\<lparr>msg_code = POST, msg_token = [], msg_options = [(27, [16])], msg_payload = [3]\<rparr>"
  let ?s = "\<lparr>ds_pigeon_id = [], ds_token = [], ds_peer = [], ds_conn_id = 1\<rparr>"
  let ?es = "[BlockEvent 0 ?r1 ?s [9], SweepEvent 5, BlockEvent 7 ?r2 ?s [9]]"
  have b: "block1_of ?r1 = Some \<lparr>blk_num = 0, blk_more = True, blk_szx = 0\<rparr>"
    "block1_of ?r2 = Some \<lparr>blk_num = 1, blk_more = False, blk_szx = 0\<rparr>"
    by (simp_all add: block1_of_def option_uint_def first_option_def option_values_def BLOCK1_def
        uint_of_bytes_def block_decode_def)
  have "results_of (1, [9]) (fst (run_block1 ?es []))
      = map continue_for (butlast (requests_of (1, [9]) ?es))
        @ [Complete (concat (map msg_payload (requests_of (1, [9]) ?es)))]"
    using upload_reassembled [of "[]" "(1, [9])" ?s "[9]" ?es 0 ?r1 "tl ?es"]
    by (simp add: block1_ok_empty MAX_BLOCK1_ENTRIES_def MAX_CONNECTIONS_def b
        BLOCK1_IDLE_TIMEOUT_def from_secs_def MAX_BLOCK1_BODY_def)
  then show ?thesis by (auto split: prod.splits)
qed

text \<open>C28. The table cannot be used to exhaust memory: whatever requests any number of connections make,
  in any order, it holds at most as many uploads as the gateway admits connections, each of at
  most 64 KiB.\<close>

theorem block1_table_bounded:
  "hm_len (snd (run_block1 es [])) \<le> MAX_CONNECTIONS
   \<and> (\<forall>k r. hm_get (snd (run_block1 es [])) k = Some r \<longrightarrow> length (ra_data r) \<le> 64 * 1024)
   \<and> sum_list (map (\<lambda>(k, r). length (ra_data r)) (snd (run_block1 es [])))
       \<le> MAX_CONNECTIONS * (64 * 1024)"
proof -
  have ok: "block1_ok t \<Longrightarrow> block1_ok (snd (run_block1 es t))" for t
  proof (induction es t rule: run_block1.induct)
    case (3 now req s leaf es t)
    then show ?case
      using block1_ok_assemble [of t now req s leaf] by (auto split: prod.splits)
  qed (auto intro: block1_ok_sweep)
  let ?t = "snd (run_block1 es [])"
  have t: "block1_ok ?t" using ok block1_ok_empty by blast
  have each: "length (ra_data r) \<le> MAX_BLOCK1_BODY" if "(k, r) \<in> set ?t" for k r
    using t hm_mem_get [OF block1_ok_hm [OF t] that] unfolding block1_ok_def by blast
  then have "sum_list (map (\<lambda>(k, r). length (ra_data r)) ?t)
      \<le> sum_list (map (\<lambda>_. MAX_BLOCK1_BODY) ?t)"
    by (intro sum_list_mono) auto
  also have "\<dots> = hm_len ?t * MAX_BLOCK1_BODY" by (simp add: sum_list_triv hm_len_def)
  also have "\<dots> \<le> MAX_BLOCK1_ENTRIES * MAX_BLOCK1_BODY"
    using t by (intro mult_right_mono) (auto simp: block1_ok_def)
  finally have total: "sum_list (map (\<lambda>(k, r). length (ra_data r)) ?t)
      \<le> MAX_BLOCK1_ENTRIES * MAX_BLOCK1_BODY" .
  have "length (ra_data r) \<le> MAX_BLOCK1_BODY" if "hm_get ?t k = Some r" for k r
    using hm_get_mem [OF that] each by blast
  with total t show ?thesis
    by (simp add: block1_ok_def MAX_BLOCK1_ENTRIES_def MAX_BLOCK1_BODY_def)
qed

theorem block1_table_bounded_witness:
  "hm_len (snd (run_block1 [SweepEvent 3] [])) \<le> 4096"
  using block1_table_bounded [of "[SweepEvent 3]"] by (simp add: MAX_CONNECTIONS_def)

text \<open>A block that is out of sequence, belongs to no upload or would overflow the body is refused, and
  the refusal forgets the upload: the next block needs number 0. Starting over with block 0 is
  always possible for an upload already in the table, and only a new one can be turned away, when
  the table is full; no refusal touches another upload.\<close>

theorem block1_refusals:
  assumes "block1_of req = Some b" and "key = (ds_conn_id s, leaf)"
    and "assemble_body now req s leaf t = (res, t')"
  shows "(0 < blk_num b \<and> hm_get t key = None \<longrightarrow>
        res = Interim (diagnostic req REQUEST_ENTITY_INCOMPLETE ''no block context'') \<and> t' = t)
    \<and> (\<forall>e. 0 < blk_num b \<and> hm_get t key = Some e \<and> ra_next_num e \<noteq> blk_num b \<longrightarrow>
        res = Interim (diagnostic req REQUEST_ENTITY_INCOMPLETE ''block out of sequence'')
        \<and> hm_get t' key = None)
    \<and> (\<forall>e. 0 < blk_num b \<and> hm_get t key = Some e \<and> ra_next_num e = blk_num b
          \<and> MAX_BLOCK1_BODY < length (ra_data e) + length (msg_payload req) \<longrightarrow>
        res = Interim (diagnostic req REQUEST_ENTITY_TOO_LARGE ''body too large'')
        \<and> hm_get t' key = None)
    \<and> (blk_num b = 0 \<longrightarrow>
        (res = Interim (diagnostic req SERVICE_UNAVAILABLE ''block1 reassembly table full'')
         \<longleftrightarrow> hm_get t key = None \<and> MAX_BLOCK1_ENTRIES \<le> hm_len t))
    \<and> (\<forall>other. other \<noteq> key \<longrightarrow> hm_get t' other = hm_get t other)"
proof -
  have other: "hm_get t' other = hm_get t other" if "other \<noteq> key" for other
    using assemble_body_other [of s leaf other now req t] assms(2,3) that by simp
  have ne: "diagnostic req c x \<noteq> diagnostic req c' y" if "c \<noteq> c'" for c c' x y
    using that diagnostic_fields(1) by metis
  have cont: "set_option_uint BLOCK1 v (response CONTINUE req)
      \<noteq> diagnostic req SERVICE_UNAVAILABLE x" for v x
    by (simp add: message.equality diagnostic_def set_option_uint_def push_option_def response_def)
  have codes: "REQUEST_ENTITY_INCOMPLETE \<noteq> SERVICE_UNAVAILABLE"
    "REQUEST_ENTITY_TOO_LARGE \<noteq> SERVICE_UNAVAILABLE"
    by (simp_all add: code_defs)
  have "blk_num b = 0 \<longrightarrow>
      (res = Interim (diagnostic req SERVICE_UNAVAILABLE ''block1 reassembly table full'')
       \<longleftrightarrow> hm_get t key = None \<and> MAX_BLOCK1_ENTRIES \<le> hm_len t)"
    using assms ne cont codes
    by (auto simp: assemble_body_def append_block_def Let_def hm_contains_key_def hm.get_insert
        split: if_splits)
  then show ?thesis
    using assms other
    by (auto simp: assemble_body_def append_block_def Let_def hm.get_remove word_neq_0_conv
        split: if_splits)
qed

theorem block1_refusals_witness:
  "\<exists>t'. assemble_body 0 \<lparr>msg_code = POST, msg_token = [], msg_options = [(27, [16])], msg_payload = []\<rparr>
      \<lparr>ds_pigeon_id = [], ds_token = [], ds_peer = [], ds_conn_id = 1\<rparr> [9] []
    = (Interim (diagnostic \<lparr>msg_code = POST, msg_token = [], msg_options = [(27, [16])],
         msg_payload = []\<rparr> REQUEST_ENTITY_INCOMPLETE ''no block context''), t')"
proof -
  let ?r = "\<lparr>msg_code = POST, msg_token = [], msg_options = [(27, [16])], msg_payload = []\<rparr>"
  let ?s = "\<lparr>ds_pigeon_id = [], ds_token = [], ds_peer = [], ds_conn_id = 1\<rparr>"
  have b: "block1_of ?r = Some \<lparr>blk_num = 1, blk_more = False, blk_szx = 0\<rparr>"
    by (simp add: block1_of_def option_uint_def first_option_def option_values_def BLOCK1_def
        uint_of_bytes_def block_decode_def)
  obtain res t' where a: "assemble_body 0 ?r ?s [9] [] = (res, t')" by fastforce
  from block1_refusals [OF b refl a] a show ?thesis by auto
qed

end
