(* ===== verification/Device_Upload.thy ===== *)
theory Device_Upload
  imports Dtls_Common Block1_Reassembly
begin

text \<open>
  An upload from datagram to upstream: the messaging layer, the codec, the handler and the
  reassembly table put together. A device's Block1 upload is the datagrams it sends on one
  connection; between any two of them other connections may use the shared table in any way.
  Lemmas: a decoded request routes as the one that was sent, what one datagram of an upload does,
  and the induction over the blocks.
\<close>

section \<open>A decoded request is the one sent\<close>

lemma path_segments_wire_form [simp]: "path_segments (wire_form m) = path_segments m"
  by (simp add: path_segments_def)

lemma block1_of_wire_form [simp]: "block1_of (wire_form m) = block1_of m"
  by (simp add: block1_of_def option_uint_def first_option_def)

lemma unknown_critical_wire_form:
  "unknown_critical_option (wire_form m) known = None \<longleftrightarrow> unknown_critical_option m known = None"
  by (simp add: unknown_critical_option_def wire_form_def find_None_iff)

lemma wire_form_parts [simp]:
  "msg_code (wire_form m) = msg_code m" "msg_token (wire_form m) = msg_token m"
  "msg_payload (wire_form m) = msg_payload m"
  by (simp_all add: wire_form_def)

lemma accepted_route_wire_form [simp]:
  "accepted_route (wire_form m) session leaf \<longleftrightarrow> accepted_route m session leaf"
  by (simp add: accepted_route_def unknown_critical_wire_form)

section \<open>A POST route\<close>

definition post_leaves :: "bytes set" where
  "post_leaves = {ascii ''shadow'', ascii ''telemetry'', ascii ''logs''}"

definition body_call :: "device_session \<Rightarrow> bytes \<Rightarrow> bytes \<Rightarrow> bytes \<Rightarrow> upstream_call" where
  "body_call session leaf body content_type =
     \<lparr>uc_method = Post, uc_pigeon_id = ds_pigeon_id session, uc_leaf = leaf, uc_bearer = ds_token session,
      uc_range = None, uc_body = Some (body, content_type)\<rparr>"

lemma handle_post:
  assumes "accepted_route req session leaf" and "msg_code req = POST" and "leaf \<in> post_leaves"
    and "assemble_body n2 req session leaf (sweep_block1 n1 t) = (state, t')"
  shows "case state of
      Interim msg \<Rightarrow> handle up szx n1 n2 req session tr t = (msg, t', [])
    | Complete body \<Rightarrow> \<exists>msg content_type.
        handle up szx n1 n2 req session tr t = (msg, t', [body_call session leaf body content_type])"
proof -
  have post: "msg_code req = POST" "POST \<noteq> GET" using assms(2) by (simp_all add: code_defs)
  from assms(3) consider "leaf = ascii ''shadow''" | "leaf = ascii ''telemetry''" | "leaf = ascii ''logs''"
    by (auto simp: post_leaves_def simp del: ascii_Cons)
  then show ?thesis
    using assms(4) post unfolding handle_accepted [OF assms(1)]
    by cases (auto simp: handle_leaf_def post_leaf_def Let_def session_call_def body_call_def
      split: body_state.splits)
qed

section \<open>One datagram\<close>

text \<open>A datagram on its way: the times of its handling, and what others do to the table before it.\<close>

record delivery =
  dv_datagram :: datagram
  dv_times :: dgram_times
  dv_others :: "block1_event list"

abbreviation dv_message :: "delivery \<Rightarrow> message" where
  "dv_message d \<equiv> dg_message (dv_datagram d)"

fun datagram_run ::
  "upstream \<Rightarrow> u8 \<Rightarrow> device_session \<Rightarrow> delivery list \<Rightarrow> block1_table \<Rightarrow> dgram_conn
   \<Rightarrow> bytes option list \<times> upstream_call list \<times> block1_table" where
  "datagram_run up szx session [] t g = ([], [], t)"
| "datagram_run up szx session (d # ds) t g =
     (case process_datagram up szx (dv_times d) (datagram_encode (dv_datagram d)) session
             (snd (run_block1 (dv_others d) t)) g of
        (r, t', g', calls) \<Rightarrow>
          (case datagram_run up szx session ds t' g' of (rs, cs, t'') \<Rightarrow> (r # rs, calls @ cs, t'')))"

text \<open>The reply of a datagram, decoded: the response's code and the request's token.\<close>

definition replied :: "delivery \<Rightarrow> bytes option \<Rightarrow> u8 \<Rightarrow> bool" where
  "replied d r code \<longleftrightarrow> (\<exists>bs dg. r = Some bs \<and> datagram_decode bs = Inr dg
     \<and> msg_code (dg_message dg) = code \<and> msg_token (dg_message dg) = msg_token (dv_message d))"

definition unseen :: "dgram_conn \<Rightarrow> u16 \<Rightarrow> bool" where
  "unseen g mid \<longleftrightarrow> hm_get (dc_entries (gc_dedup g)) mid = None"

lemma dedup_insert_other:
  assumes "dedup_ok c" and "k \<noteq> k'" and "hm_get (dc_entries c) k = None"
  shows "hm_get (dc_entries (dedup_insert now k' v c)) k = None"
  using assms by (auto simp: dedup_insert_def Let_def hm.get_insert hm.get_remove split: option.splits)

text \<open>The reply to a fresh request, and the message id drawn last after it.\<close>

definition reply_of :: "u16 \<Rightarrow> datagram \<Rightarrow> message \<Rightarrow> datagram" where
  "reply_of drawn d answer =
     \<lparr>dg_type = (if dg_type d = Confirmable then Acknowledgement else NonConfirmable),
      dg_id = (if dg_type d = Confirmable then dg_id d else drawn + 1), dg_message = answer\<rparr>"

definition drawn_after :: "u16 \<Rightarrow> datagram \<Rightarrow> u16" where
  "drawn_after drawn d = (if dg_type d = Confirmable then drawn else drawn + 1)"

text \<open>What a fresh request does: handled once, answered, recorded; the other ids stay unseen.\<close>

lemma deliver_reply:
  assumes "dedup_ok (gc_dedup g)" and "unseen g (dg_id d)" and "wire_ok (dg_message d)"
    and "is_request (msg_code (dg_message d))"
    and "handle up szx (at_sweep ts) (at_assemble ts) (wire_form (dg_message d)) session Udp t
      = (answer, t', calls)"
    and "bs = datagram_encode (reply_of (gc_next_mid g) d answer)"
  shows "\<exists>g'. process_datagram up szx ts (datagram_encode d) session t g = (Some bs, t', g', calls)
    \<and> dedup_ok (gc_dedup g') \<and> (\<forall>mid. unseen g mid \<and> mid \<noteq> dg_id d \<longrightarrow> unseen g' mid)
    \<and> hm_get (dc_entries (gc_dedup g')) (dg_id d) = Some (bs, at_record ts)
    \<and> gc_next_mid g' = drawn_after (gc_next_mid g) d"
proof -
  let ?w = "wire_form (dg_message d)"
  have dec: "datagram_decode (datagram_encode d) = Inr (d\<lparr>dg_message := ?w\<rparr>)"
    by (rule datagram_decode_encode) (fact assms(3))
  obtain c where c: "dedup_get (at_lookup ts) (dg_id d) (gc_dedup g) = (None, c)"
    using assms(2) dedup_get_lookup(2) [OF assms(1), of "at_lookup ts" "dg_id d"]
    by (cases "dedup_get (at_lookup ts) (dg_id d) (gc_dedup g)") (auto simp: unseen_def)
  obtain r t1 g' cs where p: "process_datagram up szx ts (datagram_encode d) session t g = (r, t1, g', cs)"
    by (metis prod_cases4)
  have "t1 = t'" "cs = calls"
    using p dec assms(4) c assms(5) by (auto simp: process_datagram_def is_request_not_empty Let_def
        split: prod.splits message_type.splits)
  note pr = process_request [OF dec _ _ p, simplified, OF assms(4) c]
  have r: "r = Some bs" using pr(1) assms(5) by (simp add: assms(6) reply_of_def)
  have cok: "dedup_ok c" and cun: "\<And>k. unseen g k \<Longrightarrow> hm_get (dc_entries c) k = None"
    using dedup.get_ok [OF assms(1), of "at_lookup ts" "dg_id d"]
      dedup_get_lookup(1) [OF assms(1), of "at_lookup ts" "dg_id d"] c
    by (auto simp: unseen_def not_None_eq [symmetric] simp del: not_None_eq)
      (metis option.exhaust prod.exhaust option.distinct(1))
  have g': "gc_dedup g' = dedup_insert (at_record ts) (dg_id d) bs c" using pr(2) r by simp
  have "dedup_ok (gc_dedup g')" "hm_get (dc_entries (gc_dedup g')) (dg_id d) = Some (bs, at_record ts)"
    using dedup.insert_ok [OF cok] dedup.insert_lookup [OF cok] by (simp_all add: g')
  moreover have "\<forall>mid. unseen g mid \<and> mid \<noteq> dg_id d \<longrightarrow> unseen g' mid"
    using dedup_insert_other [OF cok _ cun] by (simp add: unseen_def g')
  moreover have "gc_next_mid g' = drawn_after (gc_next_mid g) d" using pr(4) by (simp add: drawn_after_def)
  ultimately show ?thesis using p r \<open>t1 = t'\<close> \<open>cs = calls\<close> by blast
qed

text \<open>The reply reads back as the handler's answer, with the request's token.\<close>

lemma reply_reads_back:
  assumes "wire_ok (dg_message d)"
    and "handle up szx n1 n2 (wire_form (dg_message d)) session Udp t = (answer, t', calls)"
  shows "datagram_decode (datagram_encode (reply_of drawn d answer)) = Inr (reply_of drawn d (wire_form answer))"
    and "msg_token answer = msg_token (dg_message d)"
proof -
  let ?w = "wire_form (dg_message d)"
  have "wire_ok ?w"
    using datagram_decode_yields(1) [OF datagram_decode_encode [OF assms(1)]] by simp
  then have "wire_ok answer" using handle_wire_ok assms(2) by (metis fst_conv)
  then show "datagram_decode (datagram_encode (reply_of drawn d answer)) = Inr (reply_of drawn d (wire_form answer))"
    by (subst datagram_decode_encode) (simp_all add: reply_of_def)
  show "msg_token answer = msg_token (dg_message d)"
    using handle_token [of up szx n1 n2 ?w session Udp t] assms(2) by simp
qed

lemma deliver:
  assumes "dedup_ok (gc_dedup g)" and "unseen g (dg_id d)" and "wire_ok (dg_message d)"
    and "is_request (msg_code (dg_message d))"
    and "handle up szx (at_sweep ts) (at_assemble ts) (wire_form (dg_message d)) session Udp t
      = (answer, t', calls)"
  shows "\<exists>bs g'. process_datagram up szx ts (datagram_encode d) session t g = (Some bs, t', g', calls)
    \<and> (\<exists>dg. datagram_decode bs = Inr dg \<and> msg_code (dg_message dg) = msg_code answer
        \<and> msg_token (dg_message dg) = msg_token (dg_message d))
    \<and> dedup_ok (gc_dedup g') \<and> (\<forall>mid. unseen g mid \<and> mid \<noteq> dg_id d \<longrightarrow> unseen g' mid)"
  using deliver_reply [OF assms refl] reply_reads_back [OF assms(3,5)]
  by (auto simp: reply_of_def)

section \<open>What others do in between\<close>

text \<open>No sweep that finds the upload does so later than the idle timeout after its last block.\<close>

definition quiet :: "block1_key \<Rightarrow> instant \<Rightarrow> block1_event list \<Rightarrow> bool" where
  "quiet key last_block es \<longleftrightarrow> requests_of key es = []
     \<and> (\<forall>now. SweepEvent now \<in> set es \<longrightarrow> now - last_block < BLOCK1_IDLE_TIMEOUT)"

lemma quiet_Cons [simp]:
  "quiet key l [] "
  "quiet key l (SweepEvent now # es) \<longleftrightarrow> now - l < BLOCK1_IDLE_TIMEOUT \<and> quiet key l es"
  "quiet key l (BlockEvent now req s leaf # es) \<longleftrightarrow> (ds_conn_id s, leaf) \<noteq> key \<and> quiet key l es"
  by (auto simp: quiet_def)

lemma run_ok: "block1_ok t \<Longrightarrow> block1_ok (snd (run_block1 es t))"
proof (induction es t rule: run_block1.induct)
  case (3 now req s leaf es t)
  obtain r t' where a: "assemble_body now req s leaf t = (r, t')" by fastforce
  with 3 block1_ok_assemble [OF 3(2), of now req s leaf] show ?case by (auto split: prod.splits)
qed (simp_all add: block1_ok_sweep)

lemma run_present:
  assumes "block1_ok t" and "hm_get t key = Some e" and "quiet key (ra_touched e) es"
  shows "hm_get (snd (run_block1 es t)) key = Some e"
  using assms
proof (induction es t rule: run_block1.induct)
  case (2 now es t)
  then show ?case by (simp add: block1_ok_sweep sweep_keeps block1_ok_hm)
next
  case (3 now req s leaf es t)
  obtain r t' where a: "assemble_body now req s leaf t = (r, t')" by fastforce
  have "hm_get t' key = Some e" "block1_ok t'"
    using 3(2-) assemble_body_other [of s leaf key now req t] block1_ok_assemble [of t now req s leaf] a
    by auto
  with 3(1) [OF a [symmetric]] 3(4) a show ?case by (auto split: prod.splits)
qed simp

section \<open>The blocks of an upload\<close>

definition upload_key :: "device_session \<Rightarrow> bytes \<Rightarrow> block1_key" where
  "upload_key session leaf = (ds_conn_id session, leaf)"

definition block_datagram :: "device_session \<Rightarrow> bytes \<Rightarrow> delivery \<Rightarrow> bool" where
  "block_datagram session leaf d \<longleftrightarrow> wire_ok (dv_message d) \<and> msg_code (dv_message d) = POST
     \<and> accepted_route (dv_message d) session leaf"

text \<open>Every sweep before a block, the others' and the block's own, is in time.\<close>

fun on_time :: "block1_key \<Rightarrow> instant \<Rightarrow> delivery list \<Rightarrow> bool" where
  "on_time key last_block [] = True"
| "on_time key last_block (d # ds) =
     (quiet key last_block (dv_others d) \<and> at_sweep (dv_times d) - last_block < BLOCK1_IDLE_TIMEOUT
      \<and> on_time key (at_assemble (dv_times d)) ds)"

definition bodies :: "delivery list \<Rightarrow> bytes" where
  "bodies ds = concat (map (\<lambda>d. msg_payload (dv_message d)) ds)"

definition uploaded ::
  "device_session \<Rightarrow> bytes \<Rightarrow> bytes \<Rightarrow> delivery list
   \<Rightarrow> bytes option list \<times> upstream_call list \<times> block1_table \<Rightarrow> bool" where
  "uploaded session leaf body ds result \<longleftrightarrow> (case result of (rs, calls, t) \<Rightarrow>
     (\<exists>content_type. calls = [body_call session leaf body content_type])
     \<and> length rs = length ds \<and> None \<notin> set rs
     \<and> list_all2 (\<lambda>d r. replied d r CONTINUE) (butlast ds) (butlast rs)
     \<and> hm_get t (upload_key session leaf) = None)"

text \<open>One block: the step of the table decides what the datagram does.\<close>

lemma block_step:
  assumes d: "block_datagram session leaf d" and leaf: "leaf \<in> post_leaves"
    and g: "dedup_ok (gc_dedup g)" "unseen g (dg_id (dv_datagram d))"
    and a: "assemble_body (at_assemble (dv_times d)) (wire_form (dv_message d)) session leaf
      (sweep_block1 (at_sweep (dv_times d)) t) = (state, t')"
  shows "\<exists>bs g'. dedup_ok (gc_dedup g')
    \<and> (\<forall>mid. unseen g mid \<and> mid \<noteq> dg_id (dv_datagram d) \<longrightarrow> unseen g' mid)
    \<and> (case state of
        Interim msg \<Rightarrow> process_datagram up szx (dv_times d) (datagram_encode (dv_datagram d)) session t g
            = (Some bs, t', g', [])
          \<and> (msg_code msg = CONTINUE \<longrightarrow> replied d (Some bs) CONTINUE)
      | Complete body \<Rightarrow> \<exists>content_type.
          process_datagram up szx (dv_times d) (datagram_encode (dv_datagram d)) session t g
            = (Some bs, t', g', [body_call session leaf body content_type]))"
proof -
  have req: "is_request (msg_code (dv_message d))" and w: "wire_ok (dv_message d)"
    using d by (auto simp: block_datagram_def accepted_route_def)
  have h: "accepted_route (wire_form (dv_message d)) session leaf" "msg_code (wire_form (dv_message d)) = POST"
    using d by (simp_all add: block_datagram_def)
  note post = handle_post [OF h leaf a, of up szx Udp]
  show ?thesis
  proof (cases state)
    case (Interim msg)
    with post have "handle up szx (at_sweep (dv_times d)) (at_assemble (dv_times d))
        (wire_form (dv_message d)) session Udp t = (msg, t', [])" by simp
    from deliver [OF g w req this] Interim show ?thesis by (auto simp: replied_def)
  next
    case (Complete body)
    with post obtain msg ct where "handle up szx (at_sweep (dv_times d)) (at_assemble (dv_times d))
        (wire_form (dv_message d)) session Udp t = (msg, t', [body_call session leaf body ct])" by auto
    from deliver [OF g w req this] Complete show ?thesis by auto
  qed
qed

lemma continue_code: "msg_code (set_option_uint BLOCK1 v (response CONTINUE req)) = CONTINUE"
  by simp

text \<open>A block that fits the entry it finds.\<close>

lemma tracked_block:
  assumes ok: "block1_ok t" and e: "hm_get t key = Some \<lparr>ra_data = dat, ra_next_num = n, ra_touched = l\<rparr>"
    and b: "block1_of req = Some b" "blk_num b = n" and key: "key = upload_key session leaf"
    and new: "n \<noteq> 0" and len: "length dat + length (msg_payload req) \<le> MAX_BLOCK1_BODY"
    and st: "assemble_body now req session leaf t = (state, t')"
  shows "if blk_more b
    then (\<exists>msg. state = Interim msg \<and> msg_code msg = CONTINUE)
      \<and> hm_get t' key = Some \<lparr>ra_data = dat @ msg_payload req, ra_next_num = n + 1, ra_touched = now\<rparr>
    else state = Complete (dat @ msg_payload req) \<and> hm_get t' key = None"
proof -
  have "assemble_body now req session leaf t = append_block now req b key t"
    using b new by (simp add: assemble_body_def key upload_key_def)
  with append_block_step [OF e b(2) len, of now] st show ?thesis
    by (auto simp: hm.get_insert hm.get_remove)
qed

text \<open>What the datagrams that are left must be, and the state of the connection that awaits them.\<close>

definition awaiting ::
  "device_session \<Rightarrow> bytes \<Rightarrow> u32 \<Rightarrow> delivery list \<Rightarrow> block1_table \<Rightarrow> dgram_conn \<Rightarrow> bool" where
  "awaiting session leaf n ds t g \<longleftrightarrow> block1_ok t \<and> leaf \<in> post_leaves
     \<and> upload_from n (map dv_message ds) \<and> (\<forall>d \<in> set ds. block_datagram session leaf d)
     \<and> distinct (map (\<lambda>d. dg_id (dv_datagram d)) ds)
     \<and> dedup_ok (gc_dedup g) \<and> (\<forall>d \<in> set ds. unseen g (dg_id (dv_datagram d)))
     \<and> unat n + length ds < 2 ^ 32"

text \<open>The first of them, whose reassembly step is known; the rest await it.\<close>

lemma await_block:
  assumes aw: "awaiting session leaf n (d # ds) t0 g"
    and t: "t = snd (run_block1 (dv_others d) t0)"
    and a: "assemble_body (at_assemble (dv_times d)) (wire_form (dv_message d)) session leaf
      (sweep_block1 (at_sweep (dv_times d)) t) = (state, t')"
    and cont: "ds \<noteq> [] \<Longrightarrow> \<exists>msg. state = Interim msg \<and> msg_code msg = CONTINUE"
    and fin: "ds = [] \<Longrightarrow> state = Complete body \<and> hm_get t' (upload_key session leaf) = None"
    and rest: "\<And>g'. ds \<noteq> [] \<Longrightarrow> awaiting session leaf (n + 1) ds t' g' \<Longrightarrow>
      uploaded session leaf body ds (datagram_run up szx session ds t' g')"
  shows "uploaded session leaf body (d # ds) (datagram_run up szx session (d # ds) t0 g)"
proof -
  have d: "block_datagram session leaf d" "leaf \<in> post_leaves" "dedup_ok (gc_dedup g)"
    "unseen g (dg_id (dv_datagram d))" "block1_ok t"
    using aw run_ok t by (auto simp: awaiting_def)
  obtain bs g' where g': "dedup_ok (gc_dedup g')"
    "\<forall>mid. unseen g mid \<and> mid \<noteq> dg_id (dv_datagram d) \<longrightarrow> unseen g' mid"
    and p: "case state of
        Interim msg \<Rightarrow> process_datagram up szx (dv_times d) (datagram_encode (dv_datagram d)) session t g
            = (Some bs, t', g', []) \<and> (msg_code msg = CONTINUE \<longrightarrow> replied d (Some bs) CONTINUE)
      | Complete body \<Rightarrow> \<exists>content_type.
          process_datagram up szx (dv_times d) (datagram_encode (dv_datagram d)) session t g
            = (Some bs, t', g', [body_call session leaf body content_type])"
    using block_step [OF d(1-4) a, of up szx] by blast
  show ?thesis
  proof (cases "ds = []")
    case True
    with fin p show ?thesis by (auto simp: uploaded_def t [symmetric])
  next
    case False
    with cont obtain msg where msg: "state = Interim msg" "msg_code msg = CONTINUE" by blast
    have "block1_ok t'"
      using block1_ok_assemble [OF block1_ok_sweep [OF d(5)]] a by (metis snd_conv)
    moreover have "upload_from (n + 1) (map dv_message ds)"
      using aw False by (auto simp: awaiting_def split: option.splits)
    moreover have "unat (n + 1) = unat n + 1"
      using aw by (simp add: awaiting_def unat_word_ariths)
    moreover have "\<forall>x \<in> set ds. unseen g' (dg_id (dv_datagram x))"
    proof
      fix x assume x: "x \<in> set ds"
      have "dg_id (dv_datagram d) \<notin> (\<lambda>d. dg_id (dv_datagram d)) ` set ds"
        "\<forall>d \<in> set ds. unseen g (dg_id (dv_datagram d))"
        using aw by (simp_all add: awaiting_def)
      with x have "dg_id (dv_datagram x) \<noteq> dg_id (dv_datagram d)" "unseen g (dg_id (dv_datagram x))"
        by (metis image_eqI, blast)
      with g'(2) show "unseen g' (dg_id (dv_datagram x))" by blast
    qed
    ultimately have "awaiting session leaf (n + 1) ds t' g'"
      using aw g'(1) by (simp add: awaiting_def)
    from rest [OF False this] p msg False show ?thesis
      by (auto simp: uploaded_def t [symmetric] split: prod.splits)
  qed
qed

lemma upload_rest:
  assumes "awaiting session leaf n ds t g" and "n \<noteq> 0"
    and "hm_get t (upload_key session leaf) = Some \<lparr>ra_data = dat, ra_next_num = n, ra_touched = l\<rparr>"
    and "on_time (upload_key session leaf) l ds"
    and "length dat + length (bodies ds) \<le> MAX_BLOCK1_BODY"
  shows "uploaded session leaf (dat @ bodies ds) ds (datagram_run up szx session ds t g)"
  using assms
proof (induction ds arbitrary: n t g dat l)
  case Nil
  then show ?case by (simp add: awaiting_def)
next
  case (Cons d ds)
  let ?key = "upload_key session leaf" and ?m = "wire_form (dv_message d)"
  let ?t = "snd (run_block1 (dv_others d) t)"
  let ?t1 = "sweep_block1 (at_sweep (dv_times d)) ?t"
  note aw = Cons.prems(1)
  have ok: "block1_ok ?t" using aw run_ok by (simp add: awaiting_def)
  have "hm_get ?t ?key = Some \<lparr>ra_data = dat, ra_next_num = n, ra_touched = l\<rparr>"
    using run_present [of t ?key _ "dv_others d"] aw Cons.prems(3,4) by (simp add: awaiting_def)
  then have e: "hm_get ?t1 ?key = Some \<lparr>ra_data = dat, ra_next_num = n, ra_touched = l\<rparr>"
    using Cons.prems(4) by (intro sweep_keeps) (simp_all add: block1_ok_hm [OF ok])
  obtain b where b: "block1_of ?m = Some b" "blk_num b = n" "blk_more b = (ds \<noteq> [])"
    using aw by (auto simp: awaiting_def split: option.splits)
  obtain state t' where a: "assemble_body (at_assemble (dv_times d)) ?m session leaf ?t1 = (state, t')"
    by fastforce
  have len: "length dat + length (msg_payload ?m) \<le> MAX_BLOCK1_BODY"
    using Cons.prems(5) by (simp add: bodies_def)
  note step = tracked_block [OF block1_ok_sweep [OF ok] e b(1,2) refl Cons.prems(2) len a]
  have body: "dat @ bodies (d # ds) = (dat @ msg_payload ?m) @ bodies ds" by (simp add: bodies_def)
  show ?case
  proof (rule await_block [OF aw refl a])
    fix g' assume more: "ds \<noteq> []" and aw': "awaiting session leaf (n + 1) ds t' g'"
    have "unat (n + 1) = unat n + 1" using aw by (simp add: awaiting_def unat_word_ariths)
    then have "n + 1 \<noteq> 0" by (metis Suc_eq_plus1 nat.simps(3) unat_0)
    with Cons.IH [OF aw'] step b(3) more Cons.prems(4,5)
    show "uploaded session leaf (dat @ bodies (d # ds)) ds (datagram_run up szx session ds t' g')"
      unfolding body by (simp add: bodies_def)
  qed (use step b(3) in \<open>auto simp: bodies_def\<close>)
qed

lemma first_block:
  assumes b: "block1_of req = Some b" "blk_num b = 0" and key: "key = upload_key session leaf"
    and room: "hm_contains_key t key \<or> hm_len t < MAX_BLOCK1_ENTRIES"
    and len: "length (msg_payload req) \<le> MAX_BLOCK1_BODY"
    and st: "assemble_body now req session leaf t = (state, t')"
  shows "if blk_more b
    then (\<exists>msg. state = Interim msg \<and> msg_code msg = CONTINUE)
      \<and> hm_get t' key = Some \<lparr>ra_data = msg_payload req, ra_next_num = 1, ra_touched = now\<rparr>
    else state = Complete (msg_payload req) \<and> hm_get t' key = None"
proof -
  let ?t0 = "hm_insert key \<lparr>ra_data = [], ra_next_num = 0, ra_touched = now\<rparr> t"
  have "assemble_body now req session leaf t = append_block now req b key ?t0"
    using b room by (auto simp: assemble_body_def key upload_key_def Let_def)
  moreover have "hm_get ?t0 key = Some \<lparr>ra_data = [], ra_next_num = 0, ra_touched = now\<rparr>"
    by (simp add: hm.get_insert)
  ultimately show ?thesis
    using append_block_step [of ?t0 key "[]" 0 now b req now] b(2) len st
    by (auto simp: hm.get_insert hm.get_remove)
qed

section \<open>A small upload\<close>

definition demo_device :: device_session where
  "demo_device = \<lparr>ds_pigeon_id = ascii ''p1'', ds_token = [7], ds_peer = [], ds_conn_id = 1\<rparr>"

definition demo_block :: "u16 \<Rightarrow> u8 \<Rightarrow> bytes \<Rightarrow> instant \<Rightarrow> delivery" where
  "demo_block mid block1 payload now =
     \<lparr>dv_datagram = \<lparr>dg_type = Confirmable, dg_id = mid, dg_message =
        \<lparr>msg_code = POST, msg_token = [1], msg_options = [(11, ascii ''device''), (11, ascii ''pigeons''),
           (11, ascii ''p1''), (11, ascii ''shadow''), (27, [block1])], msg_payload = payload\<rparr>\<rparr>,
      dv_times = \<lparr>at_lookup = now, at_sweep = now, at_assemble = now, at_record = now\<rparr>,
      dv_others = [SweepEvent now]\<rparr>"

lemma demo_block_datagram: "block_datagram demo_device (ascii ''shadow'') (demo_block mid block1 payload now)"
proof -
  have l: "from_utf8_lossy (ascii ''device'') = ascii ''device''"
    "from_utf8_lossy (ascii ''pigeons'') = ascii ''pigeons''"
    "from_utf8_lossy (ascii ''p1'') = ascii ''p1''"
    "from_utf8_lossy (ascii ''shadow'') = ascii ''shadow''"
    by (rule from_utf8_lossy_valid, rule from_utf8_ok_ascii, simp)+
  have "accepted_route (dv_message (demo_block mid block1 payload now)) demo_device (ascii ''shadow'')"
    by (simp add: demo_block_def demo_device_def accepted_route_def path_segments_def option_values_def
        URI_PATH_def l is_request_def code_defs unknown_critical_option_def KNOWN_OPTIONS_def
        is_critical_def option_defs del: ascii_Cons)
  then show ?thesis
    by (simp add: block_datagram_def demo_block_def wire_ok_def encodable_def MAX_NIBBLE_VALUE_def
        MAX_TOKEN_LEN_def)
qed

section \<open>Properties\<close>

text \<open>An upload over datagrams reaches dovecote exactly once and whole: when a connection sends the blocks
  of a body in order, each in a datagram with an id of its own, whatever the other connections do to
  the shared table in between (as long as no sweep finds the upload idle), the only upstream call
  is one POST, for the session's pigeon with its token and to the leaf of the path, whose body is
  the concatenation of the payloads; every datagram is answered, each but the last with a 2.31
  Continue carrying its request's token, and nothing of the upload stays behind.\<close>

theorem device_upload_posted_once:
  assumes "awaiting session leaf 0 (d # ds) t g"
    and "t1 = sweep_block1 (at_sweep (dv_times d)) (snd (run_block1 (dv_others d) t))"
    and "hm_contains_key t1 (upload_key session leaf) \<or> hm_len t1 < MAX_BLOCK1_ENTRIES"
    and "on_time (upload_key session leaf) (at_assemble (dv_times d)) ds"
    and "length (bodies (d # ds)) \<le> MAX_BLOCK1_BODY"
  shows "uploaded session leaf (bodies (d # ds)) (d # ds) (datagram_run up szx session (d # ds) t g)"
proof -
  let ?key = "upload_key session leaf" and ?m = "wire_form (dv_message d)"
  obtain b where b: "block1_of ?m = Some b" "blk_num b = 0" "blk_more b = (ds \<noteq> [])"
    using assms(1) by (auto simp: awaiting_def split: option.splits)
  obtain state t' where a: "assemble_body (at_assemble (dv_times d)) ?m session leaf t1 = (state, t')"
    by fastforce
  have len: "length (msg_payload ?m) \<le> MAX_BLOCK1_BODY" using assms(5) by (simp add: bodies_def)
  note step = first_block [OF b(1,2) refl assms(3) len a]
  have body: "bodies (d # ds) = msg_payload ?m @ bodies ds" by (simp add: bodies_def)
  show ?thesis
  proof (rule await_block [OF assms(1) refl a [unfolded assms(2)]])
    fix g' assume more: "ds \<noteq> []" and aw: "awaiting session leaf (0 + 1) ds t' g'"
    from step more b(3) have "hm_get t' ?key
        = Some \<lparr>ra_data = msg_payload ?m, ra_next_num = 0 + 1, ra_touched = at_assemble (dv_times d)\<rparr>"
      by simp
    from upload_rest [OF aw _ this assms(4)] assms(5)
    show "uploaded session leaf (bodies (d # ds)) ds (datagram_run up szx session ds t' g')"
      unfolding body by simp
  qed (use step b(3) in \<open>auto simp: bodies_def\<close>)
qed

theorem device_upload_posted_once_witness:
  "uploaded demo_device (ascii ''shadow'') [1, 2, 3] [demo_block 5 8 [1, 2] 0, demo_block 6 16 [3] 9]
     (datagram_run (\<lambda>_. Inl []) 6 demo_device [demo_block 5 8 [1, 2] 0, demo_block 6 16 [3] 9] []
       \<lparr>gc_dedup = new_dedup_cache, gc_next_mid = 0\<rparr>)"
proof -
  let ?d1 = "demo_block 5 8 [1, 2] 0" and ?d2 = "demo_block 6 16 [3] 9"
  let ?g = "\<lparr>gc_dedup = new_dedup_cache, gc_next_mid = 0\<rparr>"
  have b: "block1_of (dv_message ?d1) = Some \<lparr>blk_num = 0, blk_more = True, blk_szx = 0\<rparr>"
    "block1_of (dv_message ?d2) = Some \<lparr>blk_num = 1, blk_more = False, blk_szx = 0\<rparr>"
    by (simp_all add: demo_block_def block1_of_def option_uint_def first_option_def option_values_def
        BLOCK1_def uint_of_bytes_def block_decode_def)
  have "awaiting demo_device (ascii ''shadow'') 0 [?d1, ?d2] [] ?g"
    by (simp add: awaiting_def block1_ok_empty post_leaves_def b demo_block_datagram del: ascii_Cons)
      (simp add: demo_block_def unseen_def new_dedup_cache_def dedup_ok_def hm_defs)
  moreover have "hm_len (sweep_block1 (at_sweep (dv_times ?d1)) (snd (run_block1 (dv_others ?d1) [])))
      < MAX_BLOCK1_ENTRIES"
    by (simp add: demo_block_def sweep_block1_def hm_defs MAX_BLOCK1_ENTRIES_def MAX_CONNECTIONS_def)
  moreover have "on_time (upload_key demo_device (ascii ''shadow'')) (at_assemble (dv_times ?d1)) [?d2]"
    by (simp add: demo_block_def BLOCK1_IDLE_TIMEOUT_def from_secs_def)
  moreover have "length (bodies [?d1, ?d2]) \<le> MAX_BLOCK1_BODY"
    by (simp add: bodies_def demo_block_def MAX_BLOCK1_BODY_def)
  ultimately have "uploaded demo_device (ascii ''shadow'') (bodies [?d1, ?d2]) [?d1, ?d2]
      (datagram_run (\<lambda>_. Inl []) 6 demo_device [?d1, ?d2] [] ?g)"
    by (intro device_upload_posted_once [OF _ refl]) blast+
  then show ?thesis by (simp add: bodies_def demo_block_def)
qed

end
