(* ===== verification/Lossy_Link.thy ===== *)
theory Lossy_Link
  imports Device_Upload
begin

text \<open>
  A connection over a link that loses and repeats datagrams. A device sends a request again, with
  the same message id, until it hears the answer; what reaches the gateway is then each request
  once and any number of copies of it. The lemma \<open>lossy_run\<close> says the copies are invisible: the
  run is the one over a reliable link, with every answer given as often as it was asked for. The
  Block1 upload of \<open>Device_Upload\<close> follows for such a link.
\<close>

section \<open>Exchanges\<close>

text \<open>A request as it arrives first, and the copies of it that arrive before the next request.\<close>

record exchange =
  ex_first :: delivery
  ex_again :: "delivery list"

abbreviation ex_id :: "exchange \<Rightarrow> u16" where
  "ex_id e \<equiv> dg_id (dv_datagram (ex_first e))"

text \<open>The copies are looked up within the lifetime of the recorded reply.\<close>

definition exchange_ok :: "exchange \<Rightarrow> bool" where
  "exchange_ok e \<longleftrightarrow> wire_ok (dv_message (ex_first e)) \<and> is_request (msg_code (dv_message (ex_first e)))
     \<and> (\<forall>a \<in> set (ex_again e). dv_datagram a = dv_datagram (ex_first e)
          \<and> at_lookup (dv_times a) - at_record (dv_times (ex_first e)) < from_secs 150)"

definition lossy :: "exchange list \<Rightarrow> delivery list" where
  "lossy es = concat (map (\<lambda>e. ex_first e # ex_again e) es)"

definition meanwhile :: "exchange \<Rightarrow> block1_event list" where
  "meanwhile e = concat (map dv_others (ex_again e))"

text \<open>
  The same requests without the copies. What others did to the table while copies arrived happens
  before the next request.
\<close>

fun reliable :: "block1_event list \<Rightarrow> exchange list \<Rightarrow> delivery list" where
  "reliable late [] = []"
| "reliable late (e # es) =
     (ex_first e)\<lparr>dv_others := late @ dv_others (ex_first e)\<rparr> # reliable (meanwhile e) es"

fun late_events :: "block1_event list \<Rightarrow> exchange list \<Rightarrow> block1_event list" where
  "late_events late [] = late"
| "late_events late (e # es) = late_events (meanwhile e) es"

text \<open>Each answer once for the request and once for every copy.\<close>

fun heard :: "exchange list \<Rightarrow> 'a list \<Rightarrow> 'a list" where
  "heard (e # es) (r # rs) = replicate (Suc (length (ex_again e))) r @ heard es rs"
| "heard _ _ = []"

lemma reliable_datagrams [simp]:
  "map (\<lambda>d. f (dv_datagram d)) (reliable late es) = map (\<lambda>e. f (dv_datagram (ex_first e))) es"
  by (induction late es rule: reliable.induct) simp_all

lemma reliable_ball:
  "(\<forall>d \<in> set (reliable late es). P (dv_datagram d)) \<longleftrightarrow> (\<forall>e \<in> set es. P (dv_datagram (ex_first e)))"
  by (induction late es rule: reliable.induct) simp_all

lemma reliable_length [simp]: "length (reliable late es) = length es"
  by (induction late es rule: reliable.induct) simp_all

lemma reliable_nth:
  "i < length es \<Longrightarrow> dv_datagram (reliable late es ! i) = dv_datagram (ex_first (es ! i))"
  using arg_cong [OF reliable_datagrams [of "\<lambda>x. x" late es], of "\<lambda>xs. xs ! i"] by simp

lemma run_block1_append: "snd (run_block1 (xs @ ys) t) = snd (run_block1 ys (snd (run_block1 xs t)))"
  by (induction xs t rule: run_block1.induct) (auto split: prod.splits)

section \<open>Copies are invisible\<close>

lemma replayed:
  assumes "dedup_ok (gc_dedup g)" and "hm_get (dc_entries (gc_dedup g)) (dg_id d) = Some (bs, at)"
    and "wire_ok (dg_message d)" and "is_request (msg_code (dg_message d))"
    and "at_lookup ts - at < from_secs 150"
  shows "\<exists>g'. process_datagram up szx ts (datagram_encode d) session t g = (Some bs, t, g', [])
    \<and> gc_next_mid g' = gc_next_mid g \<and> dedup_ok (gc_dedup g')
    \<and> hm_get (dc_entries (gc_dedup g')) (dg_id d) = Some (bs, at)
    \<and> (\<forall>mid. unseen g mid \<longrightarrow> unseen g' mid)"
proof -
  obtain x c where c: "dedup_get (at_lookup ts) (dg_id d) (gc_dedup g) = (x, c)" by fastforce
  have x: "x = Some bs" and look: "hm_get (dc_entries c) (dg_id d) = Some (bs, at)" and ok: "dedup_ok c"
    using dedup.get_fresh [OF assms(1,2,5)] dedup.get_keeps [OF assms(1,2,5)]
      dedup.get_ok [OF assms(1)] c by (metis fst_conv snd_conv)+
  have un: "hm_get (dc_entries c) mid = None" if "unseen g mid" for mid
    using dedup_get_lookup(1) [OF assms(1), of "at_lookup ts" "dg_id d" mid] that c
    by (cases "hm_get (dc_entries c) mid") (auto simp: unseen_def)
  have "process_datagram up szx ts (datagram_encode d) session t g = (Some bs, t, g\<lparr>gc_dedup := c\<rparr>, [])"
    using datagram_decode_encode [OF assms(3)] assms(4) c x
    by (simp add: process_datagram_def is_request_not_empty)
  with ok look un show ?thesis by (simp add: unseen_def)
qed

lemma run_copies:
  assumes "dedup_ok (gc_dedup g)" and "hm_get (dc_entries (gc_dedup g)) (dg_id d) = Some (bs, at)"
    and "wire_ok (dg_message d)" and "is_request (msg_code (dg_message d))"
    and "\<forall>a \<in> set again. dv_datagram a = d \<and> at_lookup (dv_times a) - at < from_secs 150"
  shows "\<exists>g'. (\<forall>ds. datagram_run up szx session (again @ ds) t g =
        (case datagram_run up szx session ds (snd (run_block1 (concat (map dv_others again)) t)) g' of
           (rs, calls, t') \<Rightarrow> (replicate (length again) (Some bs) @ rs, calls, t')))
    \<and> gc_next_mid g' = gc_next_mid g \<and> dedup_ok (gc_dedup g') \<and> (\<forall>mid. unseen g mid \<longrightarrow> unseen g' mid)"
  using assms
proof (induction again arbitrary: t g)
  case Nil
  then show ?case by (auto split: prod.splits)
next
  case (Cons a again)
  let ?t = "snd (run_block1 (dv_others a) t)"
  obtain g1 where p: "process_datagram up szx (dv_times a) (datagram_encode d) session ?t g = (Some bs, ?t, g1, [])"
    and g1: "gc_next_mid g1 = gc_next_mid g" "dedup_ok (gc_dedup g1)"
      "hm_get (dc_entries (gc_dedup g1)) (dg_id d) = Some (bs, at)" "\<forall>mid. unseen g mid \<longrightarrow> unseen g1 mid"
    using replayed [OF Cons.prems(1-4), of "dv_times a" up szx session ?t] Cons.prems(5) by auto
  have "\<forall>x \<in> set again. dv_datagram x = d \<and> at_lookup (dv_times x) - at < from_secs 150" and a: "dv_datagram a = d"
    using Cons.prems(5) by simp_all
  from Cons.IH [OF g1(2,3) Cons.prems(3,4) this(1), of ?t] obtain g2
    where r: "\<forall>ds. datagram_run up szx session (again @ ds) ?t g1 =
        (case datagram_run up szx session ds (snd (run_block1 (concat (map dv_others again)) ?t)) g2 of
           (rs, calls, t') \<Rightarrow> (replicate (length again) (Some bs) @ rs, calls, t'))"
      and g2: "gc_next_mid g2 = gc_next_mid g1" "dedup_ok (gc_dedup g2)" "\<forall>mid. unseen g1 mid \<longrightarrow> unseen g2 mid"
    by blast
  have run: "datagram_run up szx session ((a # again) @ ds) t g =
      (case datagram_run up szx session ds (snd (run_block1 (concat (map dv_others (a # again))) t)) g2 of
         (rs, calls, t') \<Rightarrow> (replicate (length (a # again)) (Some bs) @ rs, calls, t'))" for ds
    by (simp add: a p r [rule_format] run_block1_append split: prod.splits)
  have "gc_next_mid g2 = gc_next_mid g" "\<forall>mid. unseen g mid \<longrightarrow> unseen g2 mid"
    using g1(1,4) g2(1,3) by simp_all
  then show ?case by (intro exI [of _ g2] conjI allI run g2(2)) simp_all
qed

text \<open>What the two runs must share: the id drawn last, and that the ids to come are new.\<close>

definition in_step :: "exchange list \<Rightarrow> dgram_conn \<Rightarrow> dgram_conn \<Rightarrow> bool" where
  "in_step es g g' \<longleftrightarrow> dedup_ok (gc_dedup g) \<and> dedup_ok (gc_dedup g') \<and> gc_next_mid g = gc_next_mid g'
     \<and> (\<forall>e \<in> set es. unseen g (ex_id e) \<and> unseen g' (ex_id e))"

lemma in_step_next:
  assumes "in_step (e # es) g g'" and "distinct (map ex_id (e # es))"
    and "dedup_ok (gc_dedup g2)" and "dedup_ok (gc_dedup h)" and "gc_next_mid g2 = gc_next_mid h"
    and g2: "\<And>mid. unseen g mid \<Longrightarrow> mid \<noteq> ex_id e \<Longrightarrow> unseen g2 mid"
    and h: "\<And>mid. unseen g' mid \<Longrightarrow> mid \<noteq> ex_id e \<Longrightarrow> unseen h mid"
  shows "in_step es g2 h"
proof -
  have "unseen g2 (ex_id x) \<and> unseen h (ex_id x)" if x: "x \<in> set es" for x
  proof -
    have un: "unseen g (ex_id x)" "unseen g' (ex_id x)" using assms(1) x by (simp_all add: in_step_def)
    have "ex_id e \<notin> ex_id ` set es" using assms(2) by simp
    with x have ne: "ex_id x \<noteq> ex_id e" by (metis image_eqI)
    from g2 [OF un(1) ne] h [OF un(2) ne] show ?thesis ..
  qed
  with assms(3-5) show ?thesis by (simp add: in_step_def)
qed

lemma lossy_run:
  assumes "in_step es g g'" and "\<forall>e \<in> set es. exchange_ok e" and "distinct (map ex_id es)"
    and "datagram_run up szx session (reliable late es) t g' = (rs, calls, t')"
  shows "datagram_run up szx session (lossy es) (snd (run_block1 late t)) g
    = (heard es rs, calls, snd (run_block1 (late_events late es) t'))"
  using assms
proof (induction es arbitrary: late t g g' rs calls t')
  case Nil
  then show ?case by (simp add: lossy_def)
next
  case (Cons e es)
  let ?d = "ex_first e"
  let ?dg = "dv_datagram ?d" and ?ts = "dv_times ?d"
  let ?t = "snd (run_block1 (dv_others ?d) (snd (run_block1 late t)))"
  have e: "wire_ok (dg_message ?dg)" "is_request (msg_code (dg_message ?dg))"
    and again: "\<forall>a \<in> set (ex_again e). dv_datagram a = ?dg
      \<and> at_lookup (dv_times a) - at_record ?ts < from_secs 150"
    using Cons.prems(2) by (simp_all add: exchange_ok_def)
  have g: "dedup_ok (gc_dedup g)" "unseen g (dg_id ?dg)" and h: "dedup_ok (gc_dedup g')" "unseen g' (dg_id ?dg)"
    and mid: "gc_next_mid g' = gc_next_mid g"
    using Cons.prems(1) by (simp_all add: in_step_def)
  obtain answer t1 cs where hd: "handle up szx (at_sweep ?ts) (at_assemble ?ts) (wire_form (dg_message ?dg))
      session Udp ?t = (answer, t1, cs)" by (metis prod_cases3)
  define bs where "bs = datagram_encode (reply_of (gc_next_mid g) ?dg answer)"
  from deliver_reply [OF g e hd bs_def] obtain g1
    where p: "process_datagram up szx ?ts (datagram_encode ?dg) session ?t g = (Some bs, t1, g1, cs)"
      and g1: "dedup_ok (gc_dedup g1)" "\<forall>mid. unseen g mid \<and> mid \<noteq> dg_id ?dg \<longrightarrow> unseen g1 mid"
        "hm_get (dc_entries (gc_dedup g1)) (dg_id ?dg) = Some (bs, at_record ?ts)"
        "gc_next_mid g1 = drawn_after (gc_next_mid g) ?dg" by blast
  from deliver_reply [OF h e hd bs_def [folded mid]] obtain h1
    where q: "process_datagram up szx ?ts (datagram_encode ?dg) session ?t g' = (Some bs, t1, h1, cs)"
      and h1: "dedup_ok (gc_dedup h1)" "\<forall>mid. unseen g' mid \<and> mid \<noteq> dg_id ?dg \<longrightarrow> unseen h1 mid"
        "gc_next_mid h1 = drawn_after (gc_next_mid g') ?dg" by blast
  from run_copies [OF g1(1,3) e again, of up szx session t1] obtain g2
    where r: "\<And>ds. datagram_run up szx session (ex_again e @ ds) t1 g1 =
        (case datagram_run up szx session ds (snd (run_block1 (meanwhile e) t1)) g2 of
           (rs, calls, t') \<Rightarrow> (replicate (length (ex_again e)) (Some bs) @ rs, calls, t'))"
      and g2: "gc_next_mid g2 = gc_next_mid g1" "dedup_ok (gc_dedup g2)" "\<forall>mid. unseen g1 mid \<longrightarrow> unseen g2 mid"
    unfolding meanwhile_def by blast
  have "in_step es g2 h1"
    by (rule in_step_next [OF Cons.prems(1,3) g2(2) h1(1)]) (use g1(2,4) g2(1,3) h1(2,3) mid in simp_all)
  moreover obtain rs1 cs1 u where s: "datagram_run up szx session (reliable (meanwhile e) es) t1 h1 = (rs1, cs1, u)"
    by (metis prod_cases3)
  ultimately have "datagram_run up szx session (lossy es) (snd (run_block1 (meanwhile e) t1)) g2
      = (heard es rs1, cs1, snd (run_block1 (late_events (meanwhile e) es) u))"
    using Cons.IH [of g2 h1] Cons.prems(2,3) by simp
  moreover have "rs = Some bs # rs1" "calls = cs @ cs1" "t' = u"
    using Cons.prems(4) q s by (simp_all add: run_block1_append)
  moreover have "lossy (e # es) = ?d # (ex_again e @ lossy es)" by (simp add: lossy_def)
  ultimately show ?case by (simp add: p r)
qed

lemma lossy_run_from_start:
  assumes "dedup_ok (gc_dedup g)" and "\<forall>e \<in> set es. exchange_ok e \<and> unseen g (ex_id e)"
    and "distinct (map ex_id es)"
    and "datagram_run up szx session (reliable [] es) t g = (rs, calls, t')"
  shows "datagram_run up szx session (lossy es) t g
    = (heard es rs, calls, snd (run_block1 (late_events [] es) t'))"
proof -
  have "in_step es g g" "\<forall>e \<in> set es. exchange_ok e" using assms(1,2) by (simp_all add: in_step_def)
  from lossy_run [OF this assms(3,4)] show ?thesis by simp
qed

section \<open>An upload over such a link\<close>

text \<open>Only a connection's own requests for a leaf touch its upload.\<close>

lemma key_stays_absent:
  assumes "hm_get t key = None" and "requests_of key es = []"
  shows "hm_get (snd (run_block1 es t)) key = None"
  using assms
proof (induction es t rule: run_block1.induct)
  case (2 now es t)
  then have "hm_get (sweep_block1 now t) key = None"
    by (auto simp: sweep_block1_def hm_defs map_of_eq_None_iff)
  with 2 show ?case by simp
next
  case (3 now req s leaf es t)
  obtain r t' where a: "assemble_body now req s leaf t = (r, t')" by fastforce
  have ne: "(ds_conn_id s, leaf) \<noteq> key" "requests_of key es = []"
    using 3(3) by (auto split: if_splits)
  have "hm_get t' key = None" using assemble_body_other [OF ne(1), of now req t] a 3(2) by simp
  with 3(1) [OF a [symmetric]] ne(2) a show ?case by (auto split: prod.splits)
qed simp

lemma bodies_reliable: "bodies (reliable late es) = bodies (map ex_first es)"
  using reliable_datagrams [of "\<lambda>x. msg_payload (dg_message x)" late es] by (simp add: bodies_def comp_def)

lemma replied_datagram: "dv_datagram d = dv_datagram d' \<Longrightarrow> replied d r code = replied d' r code"
  by (simp add: replied_def)

section \<open>Properties\<close>

text \<open>An upload over a link that loses and repeats datagrams reaches dovecote exactly once and whole.
  A connection sends the blocks of a body in order, each in a datagram with an id of its own, and
  any number of copies of each arrive, within 150 seconds of its answer; other connections do
  anything to the shared table in between (as long as no sweep finds the upload idle). Then the
  only upstream call is one POST, for the session's pigeon with its token and to the leaf of the
  path, whose body is the concatenation of the payloads; every datagram, copies included, is
  answered, every block but the last with a 2.31 Continue carrying its request's token; and nothing
  of the upload stays behind.\<close>

theorem lossy_upload_posted_once:
  assumes "awaiting session leaf 0 (reliable [] (e # es)) t g"
    and "t1 = sweep_block1 (at_sweep (dv_times (ex_first e))) (snd (run_block1 (dv_others (ex_first e)) t))"
    and "hm_contains_key t1 (upload_key session leaf) \<or> hm_len t1 < MAX_BLOCK1_ENTRIES"
    and "on_time (upload_key session leaf) (at_assemble (dv_times (ex_first e))) (reliable (meanwhile e) es)"
    and "length (bodies (map ex_first (e # es))) \<le> MAX_BLOCK1_BODY"
    and "\<forall>x \<in> set (e # es). exchange_ok x"
    and "requests_of (upload_key session leaf) (late_events [] (e # es)) = []"
  shows "\<exists>rs content_type t'. datagram_run up szx session (lossy (e # es)) t g
      = (heard (e # es) rs, [body_call session leaf (bodies (map ex_first (e # es))) content_type], t')
    \<and> length rs = length (e # es) \<and> None \<notin> set rs
    \<and> (\<forall>i < length es. replied (ex_first ((e # es) ! i)) (rs ! i) CONTINUE)
    \<and> hm_get t' (upload_key session leaf) = None"
proof -
  let ?es = "e # es" and ?key = "upload_key session leaf"
  obtain rs calls t2 where r: "datagram_run up szx session (reliable [] ?es) t g = (rs, calls, t2)"
    by (metis prod_cases3)
  have "uploaded session leaf (bodies (reliable [] ?es)) (reliable [] ?es) (rs, calls, t2)"
    unfolding r [symmetric] reliable.simps
    by (rule device_upload_posted_once [OF assms(1) [unfolded reliable.simps] refl])
      (use assms(2-5) bodies_reliable [of "[]" ?es] in simp_all)
  then obtain ct where u: "calls = [body_call session leaf (bodies (map ex_first ?es)) ct]"
    "length rs = length ?es" "None \<notin> set rs" "hm_get t2 ?key = None"
    "list_all2 (\<lambda>d r. replied d r CONTINUE) (butlast (reliable [] ?es)) (butlast rs)"
    unfolding bodies_reliable by (auto simp: uploaded_def)
  have ids: "map (\<lambda>d. dg_id (dv_datagram d)) (reliable [] ?es) = map ex_id ?es"
    by (rule reliable_datagrams)
  have "dedup_ok (gc_dedup g)" "distinct (map ex_id ?es)"
    and un: "\<forall>x \<in> set (reliable [] ?es). unseen g (dg_id (dv_datagram x))"
    using assms(1) unfolding awaiting_def ids by blast+
  then have "\<forall>x \<in> set ?es. exchange_ok x \<and> unseen g (ex_id x)"
    using assms(6) un [unfolded reliable_ball [of _ _ "\<lambda>x. unseen g (dg_id x)"]] by blast
  from lossy_run_from_start [OF \<open>dedup_ok (gc_dedup g)\<close> this \<open>distinct (map ex_id ?es)\<close> r]
  have run: "datagram_run up szx session (lossy ?es) t g
    = (heard ?es rs, calls, snd (run_block1 (late_events [] ?es) t2))" .
  have "replied (ex_first (?es ! i)) (rs ! i) CONTINUE" if i: "i < length es" for i
  proof -
    have "dv_datagram (reliable [] ?es ! i) = dv_datagram (ex_first (?es ! i))"
      using i by (intro reliable_nth) simp
    moreover have "replied (butlast (reliable [] ?es) ! i) (butlast rs ! i) CONTINUE"
      using list_all2_nthD [OF u(5)] i by (simp del: reliable.simps)
    moreover have "butlast (reliable [] ?es) ! i = reliable [] ?es ! i" "butlast rs ! i = rs ! i"
      using i u(2) by (simp_all add: nth_butlast del: reliable.simps)
    ultimately show ?thesis using replied_datagram by metis
  qed
  with run u(1-3) key_stays_absent [OF u(4) assms(7)] show ?thesis by blast
qed

text \<open>Two blocks, the first heard three times.\<close>

definition demo_exchanges :: "exchange list" where
  "demo_exchanges =
     [\<lparr>ex_first = demo_block 5 8 [1, 2] 0, ex_again = [demo_block 5 8 [1, 2] 3, demo_block 5 8 [1, 2] 4]\<rparr>,
      \<lparr>ex_first = demo_block 6 16 [3] 9, ex_again = []\<rparr>]"

lemma demo_exchanges_ready:
  assumes "demo_exchanges = e # es"
  shows "awaiting demo_device (ascii ''shadow'') 0 (reliable [] (e # es)) []
      \<lparr>gc_dedup = new_dedup_cache, gc_next_mid = 0\<rparr>"
    and "hm_len (sweep_block1 (at_sweep (dv_times (ex_first e))) (snd (run_block1 (dv_others (ex_first e)) [])))
      < MAX_BLOCK1_ENTRIES"
    and "on_time (upload_key demo_device (ascii ''shadow'')) (at_assemble (dv_times (ex_first e)))
      (reliable (meanwhile e) es)"
    and "bodies (map ex_first (e # es)) = [1, 2, 3]"
    and "\<forall>x \<in> set (e # es). exchange_ok x"
    and "requests_of (upload_key demo_device (ascii ''shadow'')) (late_events [] (e # es)) = []"
proof -
  let ?d1 = "demo_block 5 8 [1, 2] 0" and ?d2 = "demo_block 6 16 [3] 9"
  let ?again = "[demo_block 5 8 [1, 2] 3, demo_block 5 8 [1, 2] 4]"
  have e: "e = \<lparr>ex_first = ?d1, ex_again = ?again\<rparr>" "es = [\<lparr>ex_first = ?d2, ex_again = []\<rparr>]"
    using assms by (simp_all add: demo_exchanges_def)
  have b: "block1_of (dv_message ?d1) = Some \<lparr>blk_num = 0, blk_more = True, blk_szx = 0\<rparr>"
    "block1_of (dv_message ?d2) = Some \<lparr>blk_num = 1, blk_more = False, blk_szx = 0\<rparr>"
    by (simp_all add: demo_block_def block1_of_def option_uint_def first_option_def option_values_def
        BLOCK1_def uint_of_bytes_def block_decode_def)
  have others: "block_datagram demo_device (ascii ''shadow'') (?d2\<lparr>dv_others := evs\<rparr>)"
    "block1_of (dv_message (?d2\<lparr>dv_others := evs\<rparr>)) = block1_of (dv_message ?d2)" for evs
    using demo_block_datagram [of 6 16 "[3]" 9] by (simp_all add: block_datagram_def)
  show "awaiting demo_device (ascii ''shadow'') 0 (reliable [] (e # es)) []
      \<lparr>gc_dedup = new_dedup_cache, gc_next_mid = 0\<rparr>" unfolding e
    by (simp add: awaiting_def block1_ok_empty post_leaves_def b others demo_block_datagram del: ascii_Cons)
      (simp add: demo_block_def unseen_def new_dedup_cache_def dedup_ok_def hm_defs)
  show "hm_len (sweep_block1 (at_sweep (dv_times (ex_first e))) (snd (run_block1 (dv_others (ex_first e)) [])))
      < MAX_BLOCK1_ENTRIES" unfolding e
    by (simp add: demo_block_def sweep_block1_def hm_defs MAX_BLOCK1_ENTRIES_def MAX_CONNECTIONS_def)
  show "on_time (upload_key demo_device (ascii ''shadow'')) (at_assemble (dv_times (ex_first e)))
      (reliable (meanwhile e) es)" unfolding e
    by (simp add: demo_block_def meanwhile_def BLOCK1_IDLE_TIMEOUT_def from_secs_def)
  show "bodies (map ex_first (e # es)) = [1, 2, 3]" unfolding e
    by (simp add: bodies_def demo_block_def)
  show "\<forall>x \<in> set (e # es). exchange_ok x" unfolding e
    using demo_block_datagram [of 5 8 "[1, 2]" 0] demo_block_datagram [of 6 16 "[3]" 9]
    by (simp add: exchange_ok_def block_datagram_def accepted_route_def)
      (simp add: demo_block_def from_secs_def)
  show "requests_of (upload_key demo_device (ascii ''shadow'')) (late_events [] (e # es)) = []" unfolding e
    by (simp add: meanwhile_def)
qed

theorem lossy_upload_posted_once_witness:
  "\<exists>rs content_type t'. datagram_run (\<lambda>_. Inl []) 6 demo_device (lossy demo_exchanges) []
       \<lparr>gc_dedup = new_dedup_cache, gc_next_mid = 0\<rparr>
     = (heard demo_exchanges rs, [body_call demo_device (ascii ''shadow'') [1, 2, 3] content_type], t')"
proof -
  obtain e es where ex: "demo_exchanges = e # es" by (simp add: demo_exchanges_def)
  note ready = demo_exchanges_ready [OF ex]
  have "length (bodies (map ex_first (e # es))) \<le> MAX_BLOCK1_BODY"
    unfolding ready(4) by (simp add: MAX_BLOCK1_BODY_def)
  from lossy_upload_posted_once [OF ready(1) refl disjI2 [OF ready(2)] ready(3) this ready(5,6)]
  show ?thesis unfolding ex ready(4) by blast
qed

end
