(* ===== verification/Device_Download.thy ===== *)
theory Device_Download
  imports Lossy_Link Block2_Transfer
begin

text \<open>
  A firmware download from datagram to upstream and back: the messaging layer, the codec, the
  handler and the Block2 answers put together. A device asks for the blocks of the image one after
  the other, each in a datagram that may arrive several times; other connections use the shared
  table in between. Lemmas: what the handler does with a firmware request, what one datagram of a
  download brings back, the induction over the blocks of a reliable link.
\<close>

section \<open>A firmware request\<close>

lemma block2_of_wire_form [simp]: "block2_of (wire_form m) = block2_of m"
  by (simp add: block2_of_def option_uint_def first_option_def)

lemma handle_firmware:
  assumes "accepted_route req session (ascii ''firmware'')" and "msg_code req = GET"
  shows "handle up szx n1 n2 req session tr t
    = (fst (firmware up szx req session tr), sweep_block1 n1 t, snd (firmware up szx req session tr))"
proof -
  have "msg_code req \<noteq> POST" using assms(2) by (simp add: code_defs)
  with assms(2) show ?thesis
    unfolding handle_accepted [OF assms(1)] by (simp add: handle_leaf_def split: prod.split)
qed

text \<open>The request for block \<open>i\<close>, the one call it makes, and the answer it is to get.\<close>

definition asks_block :: "device_session \<Rightarrow> u8 \<Rightarrow> nat \<Rightarrow> delivery \<Rightarrow> bool" where
  "asks_block session szx' i d \<longleftrightarrow> wire_ok (dv_message d) \<and> msg_code (dv_message d) = GET
     \<and> accepted_route (dv_message d) session (ascii ''firmware'')
     \<and> (\<exists>m. block2_of (dv_message d) = Some \<lparr>blk_num = of_nat i, blk_more = m, blk_szx = szx'\<rparr>)"

definition slice_call :: "device_session \<Rightarrow> nat \<Rightarrow> nat \<Rightarrow> upstream_call" where
  "slice_call session k i = session_call session Get ''firmware'' (Some (i * k, i * k + k - 1)) None"

definition brings_block :: "u8 \<Rightarrow> nat \<Rightarrow> bytes \<Rightarrow> nat \<Rightarrow> delivery \<Rightarrow> bytes option \<Rightarrow> bool" where
  "brings_block szx' n img i d r \<longleftrightarrow> (\<exists>bs dg. r = Some bs \<and> datagram_decode bs = Inr dg
     \<and> (dg_type (dv_datagram d) = Confirmable \<longrightarrow>
          dg_type dg = Acknowledgement \<and> dg_id dg = dg_id (dv_datagram d))
     \<and> msg_token (dg_message dg) = msg_token (dv_message d) \<and> msg_code (dg_message dg) = CONTENT
     \<and> block2_of (dg_message dg) = Some \<lparr>blk_num = of_nat i, blk_more = (Suc i < n), blk_szx = szx'\<rparr>
     \<and> msg_payload (dg_message dg) = take (size_for szx') (drop (i * size_for szx') img))"

text \<open>What the device keeps of a reply.\<close>

definition reply_payload :: "bytes option \<Rightarrow> bytes" where
  "reply_payload r = (case r of None \<Rightarrow> [] | Some bs \<Rightarrow>
     (case datagram_decode bs of Inl _ \<Rightarrow> [] | Inr dg \<Rightarrow> msg_payload (dg_message dg)))"

lemma brings_payload:
  "brings_block szx' n img i d r \<Longrightarrow> reply_payload r = take (size_for szx') (drop (i * size_for szx') img)"
  by (auto simp: brings_block_def reply_payload_def)

section \<open>A download over a reliable link\<close>

text \<open>The image served, the block size both sides use and the number of blocks.\<close>

definition download_of :: "upstream \<Rightarrow> u8 \<Rightarrow> u8 \<Rightarrow> nat \<Rightarrow> bytes \<Rightarrow> bool" where
  "download_of up szx szx' n img \<longleftrightarrow> serves_image up img \<and> length img < 2 ^ 64
     \<and> szx' \<le> max_szx szx Udp \<and> szx' \<le> MAX_SZX \<and> n = blocks_for (size_for szx') (length img) \<and> n \<le> 2 ^ 28"

lemma block_brought:
  assumes down: "download_of up szx szx' n img" and i: "i < n" and d: "asks_block session szx' i d"
    and g: "dedup_ok (gc_dedup g)" "unseen g (dg_id (dv_datagram d))"
  shows "\<exists>r g'. process_datagram up szx (dv_times d) (datagram_encode (dv_datagram d)) session t g
      = (r, sweep_block1 (at_sweep (dv_times d)) t, g', [slice_call session (size_for szx') i])
    \<and> brings_block szx' n img i d r \<and> dedup_ok (gc_dedup g')
    \<and> (\<forall>mid. unseen g mid \<and> mid \<noteq> dg_id (dv_datagram d) \<longrightarrow> unseen g' mid)"
proof -
  let ?dg = "dv_datagram d" and ?ts = "dv_times d" and ?w = "wire_form (dv_message d)"
  have w: "wire_ok (dg_message ?dg)" and req: "is_request (msg_code (dg_message ?dg))"
    using d by (auto simp: asks_block_def accepted_route_def)
  obtain m where b: "block2_of ?w = Some \<lparr>blk_num = of_nat i, blk_more = m, blk_szx = szx'\<rparr>"
    using d by (auto simp: asks_block_def)
  let ?f = "firmware up szx ?w session Udp"
  have answered: "msg_code (fst ?f) = CONTENT"
    "msg_payload (fst ?f) = take (size_for szx') (drop (i * size_for szx') img)"
    "block2_of (fst ?f) = Some \<lparr>blk_num = of_nat i, blk_more = (Suc i < n), blk_szx = szx'\<rparr>"
    "map uc_range (snd ?f) = [Some (i * size_for szx', i * size_for szx' + size_for szx' - 1)]"
    using firmware_block_answered [of up img szx' szx Udp n i ?w m session] down i b
    by (simp_all add: download_of_def)
  then have call: "snd ?f = [slice_call session (size_for szx') i]"
    by (auto simp: firmware_def Let_def slice_call_def session_call_def)
  have "handle up szx (at_sweep ?ts) (at_assemble ?ts) ?w session Udp t
      = (fst ?f, sweep_block1 (at_sweep ?ts) t, snd ?f)"
    using d by (intro handle_firmware) (simp_all add: asks_block_def)
  note h = this [unfolded call]
  from deliver_reply [OF g w req h refl] obtain g'
    where "process_datagram up szx ?ts (datagram_encode ?dg) session t g
        = (Some (datagram_encode (reply_of (gc_next_mid g) ?dg (fst ?f))), sweep_block1 (at_sweep ?ts) t, g',
           [slice_call session (size_for szx') i])"
      and "dedup_ok (gc_dedup g')" "\<forall>mid. unseen g mid \<and> mid \<noteq> dg_id ?dg \<longrightarrow> unseen g' mid"
    by blast
  moreover have "brings_block szx' n img i d (Some (datagram_encode (reply_of (gc_next_mid g) ?dg (fst ?f))))"
    using reply_reads_back [OF w h] answered by (simp add: brings_block_def reply_of_def)
  ultimately show ?thesis by blast
qed

definition wants_rest :: "device_session \<Rightarrow> u8 \<Rightarrow> nat \<Rightarrow> delivery list \<Rightarrow> dgram_conn \<Rightarrow> bool" where
  "wants_rest session szx' i ds g \<longleftrightarrow> (\<forall>j < length ds. asks_block session szx' (i + j) (ds ! j))
     \<and> distinct (map (\<lambda>d. dg_id (dv_datagram d)) ds) \<and> dedup_ok (gc_dedup g)
     \<and> (\<forall>d \<in> set ds. unseen g (dg_id (dv_datagram d)))"

lemma wants_restD:
  assumes "wants_rest session szx' i (d # ds) g"
  shows "asks_block session szx' i d" and "dedup_ok (gc_dedup g)" and "unseen g (dg_id (dv_datagram d))"
    and "dedup_ok (gc_dedup g') \<Longrightarrow> \<forall>mid. unseen g mid \<and> mid \<noteq> dg_id (dv_datagram d) \<longrightarrow> unseen g' mid
      \<Longrightarrow> wants_rest session szx' (Suc i) ds g'"
proof -
  have asks: "\<forall>j < Suc (length ds). asks_block session szx' (i + j) ((d # ds) ! j)"
    using assms by (simp add: wants_rest_def)
  from asks [rule_format, of 0] show "asks_block session szx' i d" by simp
  have rest: "asks_block session szx' (Suc i + j) (ds ! j)" if "j < length ds" for j
    using asks [rule_format, of "Suc j"] that by simp
  show "dedup_ok (gc_dedup g)" "unseen g (dg_id (dv_datagram d))"
    using assms by (simp_all add: wants_rest_def)
  assume g': "dedup_ok (gc_dedup g')" "\<forall>mid. unseen g mid \<and> mid \<noteq> dg_id (dv_datagram d) \<longrightarrow> unseen g' mid"
  have "unseen g' (dg_id (dv_datagram x))" if "x \<in> set ds" for x
  proof -
    have "dg_id (dv_datagram d) \<notin> (\<lambda>d. dg_id (dv_datagram d)) ` set ds" "unseen g (dg_id (dv_datagram x))"
      using assms that by (simp_all add: wants_rest_def)
    with that g'(2) show ?thesis by (metis image_eqI)
  qed
  with rest g'(1) assms show "wants_rest session szx' (Suc i) ds g'" by (simp add: wants_rest_def)
qed

lemma download_from:
  assumes "download_of up szx szx' n img" and "wants_rest session szx' i ds g" and "i + length ds = n"
  shows "\<exists>rs t'. datagram_run up szx session ds t g
      = (rs, map (slice_call session (size_for szx')) [i..<n], t') \<and> length rs = length ds
    \<and> (\<forall>j < length ds. brings_block szx' n img (i + j) (ds ! j) (rs ! j))"
  using assms(2,3)
proof (induction ds arbitrary: i t g)
  case Nil
  then show ?case by simp
next
  case (Cons d ds)
  note w = wants_restD [OF Cons.prems(1)]
  have i: "i < n" using Cons.prems(2) by simp
  let ?t = "snd (run_block1 (dv_others d) t)"
  obtain r g' where p: "process_datagram up szx (dv_times d) (datagram_encode (dv_datagram d)) session ?t g
      = (r, sweep_block1 (at_sweep (dv_times d)) ?t, g', [slice_call session (size_for szx') i])"
    and r: "brings_block szx' n img i d r" and g': "dedup_ok (gc_dedup g')"
      "\<forall>mid. unseen g mid \<and> mid \<noteq> dg_id (dv_datagram d) \<longrightarrow> unseen g' mid"
    using block_brought [OF assms(1) i w(1-3), of ?t] by blast
  have "Suc i + length ds = n" using Cons.prems(2) by simp
  from Cons.IH [OF w(4) [OF g'] this] obtain rs t'
    where q: "datagram_run up szx session ds (sweep_block1 (at_sweep (dv_times d)) ?t) g'
        = (rs, map (slice_call session (size_for szx')) [Suc i..<n], t')" "length rs = length ds"
      and rs: "\<forall>j < length ds. brings_block szx' n img (Suc i + j) (ds ! j) (rs ! j)" by blast
  have "brings_block szx' n img (i + j) ((d # ds) ! j) ((r # rs) ! j)" if "j < length (d # ds)" for j
    using r rs that by (cases j) simp_all
  moreover have "[i..<n] = i # [Suc i..<n]" using i by (rule upt_conv_Cons)
  ultimately show ?case using p q by (intro exI [of _ "r # rs"] exI [of _ t']) simp
qed

text \<open>More requests with ids of their own than there are ids cannot be.\<close>

lemma distinct_ids_few: "distinct (xs :: u16 list) \<Longrightarrow> length xs \<le> 2 ^ 28"
  using distinct_card [of xs] card_mono [OF finite subset_UNIV, of "set xs"]
  by (simp add: card_word)

section \<open>A small download\<close>

definition demo_ask :: "u16 \<Rightarrow> u8 \<Rightarrow> instant \<Rightarrow> delivery" where
  "demo_ask mid block2 now =
     \<lparr>dv_datagram = \<lparr>dg_type = Confirmable, dg_id = mid, dg_message =
        \<lparr>msg_code = GET, msg_token = [1], msg_options = [(11, ascii ''device''), (11, ascii ''pigeons''),
           (11, ascii ''p1''), (11, ascii ''firmware''), (23, [block2])], msg_payload = []\<rparr>\<rparr>,
      dv_times = \<lparr>at_lookup = now, at_sweep = now, at_assemble = now, at_record = now\<rparr>,
      dv_others = [SweepEvent now]\<rparr>"

definition demo_image :: bytes where
  "demo_image = replicate 16 7 @ [8, 9]"

definition demo_origin :: upstream where
  "demo_origin c = Inr \<lparr>up_status = 200, up_body = demo_image, up_content_range = None,
     up_firmware_size = None, up_firmware_sha256 = None\<rparr>"

definition demo_download :: "exchange list" where
  "demo_download =
     [\<lparr>ex_first = demo_ask 5 0 0, ex_again = [demo_ask 5 0 3]\<rparr>, \<lparr>ex_first = demo_ask 6 0x10 9, ex_again = []\<rparr>]"

lemma demo_asks:
  assumes "block_decode (uint_of_bytes [block2]) = Some \<lparr>blk_num = of_nat i, blk_more = False, blk_szx = 0\<rparr>"
  shows "asks_block demo_device 0 i (demo_ask mid block2 now)"
proof -
  have l: "from_utf8_lossy (ascii ''device'') = ascii ''device''"
    "from_utf8_lossy (ascii ''pigeons'') = ascii ''pigeons''"
    "from_utf8_lossy (ascii ''p1'') = ascii ''p1''"
    "from_utf8_lossy (ascii ''firmware'') = ascii ''firmware''"
    by (rule from_utf8_lossy_valid, rule from_utf8_ok_ascii, simp)+
  have "accepted_route (dv_message (demo_ask mid block2 now)) demo_device (ascii ''firmware'')"
    by (simp add: demo_ask_def demo_device_def accepted_route_def path_segments_def option_values_def
        URI_PATH_def l is_request_def code_defs unknown_critical_option_def KNOWN_OPTIONS_def
        is_critical_def option_defs del: ascii_Cons)
  moreover have "block2_of (dv_message (demo_ask mid block2 now))
      = Some \<lparr>blk_num = of_nat i, blk_more = False, blk_szx = 0\<rparr>"
    using assms by (simp add: demo_ask_def block2_of_def option_uint_def first_option_def
        option_values_def BLOCK2_def)
  ultimately show ?thesis
    by (auto simp: asks_block_def demo_ask_def wire_ok_def encodable_def MAX_NIBBLE_VALUE_def
        MAX_TOKEN_LEN_def)
qed

section \<open>Properties\<close>

text \<open>C3. A firmware download over a link that loses and repeats datagrams brings the device the image, and
  asks dovecote for each byte once: a connection asks for block 0, 1, 2, ... of an image that the
  upstream serves (by ranges or whole), at a size the gateway allows and each in a datagram with a
  fresh id of its own, any number of copies of which arrive before the next request and within 150
  seconds of its answer (stop and wait), while other connections do anything to the shared table.
  Then every datagram is answered, the copies of one request with the same bytes; the answer to
  block i is a 2.05 with the request's token, that acknowledges it when it was confirmable, whose
  Block2 option names i and says whether blocks remain; the payloads concatenate to the image; and
  the upstream calls are one per block, in order, for exactly the block's bytes and for the
  session's pigeon with its token.\<close>

theorem lossy_download_brings_image:
  assumes "serves_image up img" and "length img < 2 ^ 64"
    and "szx' \<le> max_szx szx Udp" and "szx' \<le> MAX_SZX"
    and "length es = blocks_for (size_for szx') (length img)"
    and "\<forall>i < length es. asks_block session szx' i (ex_first (es ! i))"
    and "distinct (map ex_id es)" and "dedup_ok (gc_dedup g)"
    and "\<forall>e \<in> set es. exchange_ok e \<and> unseen g (ex_id e)"
  shows "\<exists>rs t'. datagram_run up szx session (lossy es) t g
      = (heard es rs, map (slice_call session (size_for szx')) [0..<length es], t')
    \<and> length rs = length es
    \<and> (\<forall>i < length es. brings_block szx' (length es) img i (ex_first (es ! i)) (rs ! i))
    \<and> concat (map reply_payload rs) = img"
proof -
  let ?n = "length es" and ?ds = "reliable [] es"
  have "?n \<le> 2 ^ 28" using distinct_ids_few [OF assms(7)] by simp
  then have down: "download_of up szx szx' ?n img" using assms(1-5) by (simp add: download_of_def)
  have "asks_block session szx' j (?ds ! j)" if "j < ?n" for j
    using assms(6) that reliable_nth [OF that, of "[]"] by (simp add: asks_block_def)
  moreover have "distinct (map (\<lambda>d. dg_id (dv_datagram d)) ?ds)"
    using assms(7) by (simp add: reliable_datagrams [of dg_id])
  moreover have "\<forall>d \<in> set ?ds. unseen g (dg_id (dv_datagram d))"
    using assms(9) by (simp add: reliable_ball [of _ _ "\<lambda>d. unseen g (dg_id d)"])
  ultimately have "wants_rest session szx' 0 ?ds g" using assms(8) by (simp add: wants_rest_def)
  from download_from [OF down this, of t] obtain rs t'
    where r: "datagram_run up szx session ?ds t g = (rs, map (slice_call session (size_for szx')) [0..<?n], t')"
      and rs: "length rs = ?n" "\<And>j. j < ?n \<Longrightarrow> brings_block szx' ?n img j (?ds ! j) (rs ! j)" by auto
  have brings: "brings_block szx' ?n img i (ex_first (es ! i)) (rs ! i)" if "i < ?n" for i
    using rs(2) [OF that] reliable_nth [OF that, of "[]"] by (simp add: brings_block_def)
  have "concat (map (\<lambda>i. reply_payload (rs ! i)) [0..<?n]) = img"
    by (rule blocks_tile [of "size_for szx'"]) (use assms(5) brings_payload [OF brings] in simp_all)
  moreover have "map (\<lambda>i. reply_payload (rs ! i)) [0..<?n] = map reply_payload rs"
    using rs(1) by (intro nth_equalityI) simp_all
  ultimately have "concat (map reply_payload rs) = img" by simp
  with lossy_run_from_start [OF assms(8,9,7) r] rs(1) brings show ?thesis by blast
qed

theorem lossy_download_brings_image_witness:
  "\<exists>rs t'. datagram_run demo_origin 6 demo_device (lossy demo_download) []
       \<lparr>gc_dedup = new_dedup_cache, gc_next_mid = 0\<rparr>
     = (heard demo_download rs,
        [session_call demo_device Get ''firmware'' (Some (0, 15)) None,
         session_call demo_device Get ''firmware'' (Some (16, 31)) None], t')
    \<and> concat (map reply_payload rs) = demo_image"
proof -
  let ?g = "\<lparr>gc_dedup = new_dedup_cache, gc_next_mid = 0\<rparr>"
  have img: "serves_image demo_origin demo_image" "length demo_image = 18"
    by (simp_all add: serves_image_def demo_origin_def demo_image_def)
  have sizes: "(0 :: u8) \<le> max_szx 6 Udp" "length demo_download = blocks_for (size_for 0) (length demo_image)"
    by (simp_all add: max_szx_def demo_download_def blocks_for_def size_for_def img(2))
  have "asks_block demo_device 0 0 (demo_ask 5 0 now)" "asks_block demo_device 0 1 (demo_ask 6 0x10 now)" for now
    by (rule demo_asks, simp add: uint_of_bytes_def block_decode_def)+
  then have asks: "\<forall>i < length demo_download. asks_block demo_device 0 i (ex_first (demo_download ! i))"
    by (auto simp: demo_download_def less_Suc_eq)
  have "\<forall>e \<in> set demo_download. unseen ?g (ex_id e)" "distinct (map ex_id demo_download)"
    "dedup_ok (gc_dedup ?g)"
    by (simp_all add: demo_download_def demo_ask_def unseen_def new_dedup_cache_def dedup_ok_def hm_defs)
  moreover have "\<forall>e \<in> set demo_download. exchange_ok e"
    using asks by (simp add: demo_download_def exchange_ok_def asks_block_def less_Suc_eq all_conj_distrib)
      (simp add: demo_ask_def from_secs_def is_request_def code_defs)
  ultimately have "\<exists>rs t'. datagram_run demo_origin 6 demo_device (lossy demo_download) [] ?g
      = (heard demo_download rs, map (slice_call demo_device (size_for 0)) [0..<length demo_download], t')
    \<and> length rs = length demo_download
    \<and> (\<forall>i < length demo_download. brings_block 0 (length demo_download) demo_image i
          (ex_first (demo_download ! i)) (rs ! i))
    \<and> concat (map reply_payload rs) = demo_image"
    by (intro lossy_download_brings_image [OF img(1) _ sizes(1) _ sizes(2) asks])
      (simp_all add: img(2) MAX_SZX_def)
  then show ?thesis
    by (simp add: demo_download_def slice_call_def size_for_def upt_conv_Cons) blast
qed

end
