(* ===== verification/Dgram_Io.thy ===== *)
theory Dgram_Io
  imports Dtls_Common "HOL-Library.Sublist"
begin

text \<open>
  What the two DTLS listeners share below and above their TLS library. Below: a transport that
  hands out whole datagrams from a bounded channel under a deadline; the locale \<open>datagram_source\<close>
  is its contract and shows what a reader of it can see. Above: the answering of one decrypted
  datagram in a session's loop. Also \<open>std::sync::mpsc::sync_channel\<close> as far as the listeners use it.
\<close>

definition CONN_CHANNEL_DEPTH :: nat where "CONN_CHANNEL_DEPTH = 32"
definition READ_TICK :: duration where "READ_TICK = from_secs 1"
definition IDLE_DEADLINE :: duration where "IDLE_DEADLINE = from_secs 300"

section \<open>A source of whole datagrams\<close>

datatype 'x io_event = IoRead instant nat 'x | IoArrive bytes

text \<open>A run of reads and arrivals: what the reads delivered, with their times.\<close>

fun io_run ::
  "(instant \<Rightarrow> nat \<Rightarrow> 'x \<Rightarrow> 'io \<Rightarrow> 'r \<times> 'io) \<Rightarrow> ('r \<Rightarrow> bytes option) \<Rightarrow> (bytes \<Rightarrow> 'io \<Rightarrow> 'io)
   \<Rightarrow> 'x io_event list \<Rightarrow> 'io \<Rightarrow> (instant \<times> bytes) list" where
  "io_run read data_of arrive [] io = []"
| "io_run read data_of arrive (IoArrive d # es) io = io_run read data_of arrive es (arrive d io)"
| "io_run read data_of arrive (IoRead now n x # es) io = (case read now n x io of (r, io') \<Rightarrow>
     (case data_of r of None \<Rightarrow> [] | Some d \<Rightarrow> [(now, d)]) @ io_run read data_of arrive es io')"

fun arrivals :: "'x io_event list \<Rightarrow> bytes list" where
  "arrivals [] = []"
| "arrivals (IoArrive d # es) = d # arrivals es"
| "arrivals (IoRead now n x # es) = arrivals es"

locale datagram_source =
  fixes read :: "instant \<Rightarrow> nat \<Rightarrow> 'x \<Rightarrow> 'io \<Rightarrow> 'r \<times> 'io"
    and data_of :: "'r \<Rightarrow> bytes option"
    and arrive :: "bytes \<Rightarrow> 'io \<Rightarrow> 'io"
    and waiting :: "'io \<Rightarrow> bytes list"
    and deadline :: "'io \<Rightarrow> instant option"
  assumes refuses: "deadline io = Some t \<Longrightarrow> t \<le> now \<Longrightarrow> data_of (fst (read now n x io)) = None"
    and whole: "data_of (fst (read now n x io)) = Some d \<Longrightarrow>
      length d \<le> n \<and> waiting io = d # waiting (snd (read now n x io))"
    and drops: "data_of (fst (read now n x io)) = None \<Longrightarrow>
      \<exists>ds. waiting io = ds @ waiting (snd (read now n x io)) \<and> (\<forall>d \<in> set ds. n < length d \<or> d = [])"
    and keeps_deadline: "deadline (snd (read now n x io)) = deadline io"
    and arrive_waiting: "waiting (arrive d io) = waiting io @ [d]"
    and arrive_deadline: "deadline (arrive d io) = deadline io"
begin

text \<open>Only whole datagrams, in their order, each at most once; none at or after the deadline.\<close>

lemma delivered:
  "subseq (map snd (io_run read data_of arrive es io)) (waiting io @ arrivals es)
   \<and> (\<forall>t. deadline io = Some t \<longrightarrow> (\<forall>(now, d) \<in> set (io_run read data_of arrive es io). now < t))"
proof (induction es arbitrary: io)
  case Nil
  then show ?case by simp
next
  case (Cons e es)
  show ?case
  proof (cases e)
    case (IoArrive d)
    with Cons.IH [of "arrive d io"] show ?thesis by (simp add: arrive_waiting arrive_deadline)
  next
    case (IoRead now n x)
    obtain r io' where r: "read now n x io = (r, io')" by fastforce
    have dl: "deadline io' = deadline io" using keeps_deadline [of now n x io] r by simp
    show ?thesis
    proof (cases "data_of r")
      case None
      then obtain ds where "waiting io = ds @ waiting io'" using drops [of now n x io] r by auto
      moreover have "subseq (map snd (io_run read data_of arrive es io')) (waiting io' @ arrivals es)"
        using Cons.IH by blast
      ultimately have "subseq (map snd (io_run read data_of arrive es io')) (waiting io @ arrivals es)"
        by (simp add: list_emb_append2)
      with Cons.IH [of io'] None r dl IoRead show ?thesis by simp
    next
      case (Some d)
      then have "waiting io = d # waiting io'" using whole [of now n x io] r by simp
      moreover have "now < t" if "deadline io = Some t" for t
        using refuses [OF that, of now n x] Some r by (auto simp: not_le [symmetric])
      ultimately show ?thesis using Cons.IH [of io'] Some r dl IoRead by auto
    qed
  qed
qed

end

section \<open>Channels\<close>

text \<open>\<open>SyncSender::try_send\<close> on a channel with or without its receiver.\<close>

datatype 'a try_send = Sent "'a list" | Full | Disconnected

definition try_send :: "bool \<Rightarrow> 'a list \<Rightarrow> 'a \<Rightarrow> 'a try_send" where
  "try_send receiver_alive queue x =
     (if \<not> receiver_alive then Disconnected
      else if CONN_CHANNEL_DEPTH \<le> length queue then Full
      else Sent (queue @ [x]))"

section \<open>Answering in a session\<close>

text \<open>A session between reads: the messaging state, the replies written, its calls, its last activity.\<close>

record dtls_session =
  se_conn :: dgram_conn
  se_sent :: "bytes list"
  se_calls :: "upstream_call list"
  se_last :: instant

text \<open>What one read of a session meets: the times, the handler's table, and whether a write works.\<close>

record session_env =
  sn_now :: instant
  sn_times :: dgram_times
  sn_table :: block1_table
  sn_write_ok :: bool

text \<open>The body of both loops for a decrypted datagram: process, then write the reply if any.\<close>

definition answer_datagram ::
  "upstream \<Rightarrow> u8 \<Rightarrow> device_session \<Rightarrow> session_env \<Rightarrow> bytes \<Rightarrow> dtls_session \<Rightarrow> bool \<times> dtls_session" where
  "answer_datagram up szx session env bs s =
     (case process_datagram up szx (sn_times env) bs session (sn_table env) (se_conn s) of
        (None, _, g, calls) \<Rightarrow> (True, s\<lparr>se_conn := g, se_calls := se_calls s @ calls\<rparr>)
      | (Some reply, _, g, calls) \<Rightarrow>
          (sn_write_ok env, s\<lparr>se_conn := g, se_calls := se_calls s @ calls,
             se_sent := se_sent s @ [reply]\<rparr>))"

text \<open>Every call of a session is for its pigeon, with its token.\<close>

definition session_acts :: "device_session \<Rightarrow> dtls_session \<Rightarrow> bool" where
  "session_acts session s \<longleftrightarrow> (\<forall>c \<in> set (se_calls s).
     uc_pigeon_id c = ds_pigeon_id session \<and> uc_bearer c = ds_token session)"

lemma process_datagram_calls:
  assumes "process_datagram up szx ts bs session t g = (r, t', g', calls)"
  shows "\<forall>c \<in> set calls. uc_pigeon_id c = ds_pigeon_id session \<and> uc_bearer c = ds_token session"
  using assms
  by (auto simp: process_datagram_def Let_def route_call_def dest!: handle_calls
      split: sum.splits if_splits prod.splits option.splits message_type.splits)

lemma answer_datagram_acts:
  assumes "session_acts session s"
    and "ds_pigeon_id session' = ds_pigeon_id session" and "ds_token session' = ds_token session"
  shows "session_acts session (snd (answer_datagram up szx session' env bs s))"
proof -
  obtain r t g calls where p: "process_datagram up szx (sn_times env) bs session' (sn_table env)
      (se_conn s) = (r, t, g, calls)" by (metis prod_cases4)
  from process_datagram_calls [OF p] assms show ?thesis
    by (cases r) (auto simp: answer_datagram_def p session_acts_def)
qed

lemma answer_datagram_last [simp]:
  "se_last (snd (answer_datagram up szx session env bs s)) = se_last s"
  by (simp add: answer_datagram_def split: prod.split option.split)

end
