(* ===== verification/Dtls_Shim.thy ===== *)
theory Dtls_Shim
  imports Listen
begin

text \<open>
  \<open>dtls-ffi-shim/src/dtls_ffi.rs\<close>: the wrappers around the three OpenSSL DTLS primitives the
  \<open>openssl\<close> crate lacks. Everything behind the foreign function interface is a parameter: what
  \<open>SSL_ctrl\<close> returns, the linked version, what \<open>DTLSv1_listen\<close> returns and what the \<open>BIO_ADDR\<close>
  accessors report. An \<open>ErrorStack\<close> is a value of a type variable.
\<close>

definition DTLS_CTRL_GET_TIMEOUT :: int where "DTLS_CTRL_GET_TIMEOUT = 73"
definition DTLS_CTRL_HANDLE_TIMEOUT :: int where "DTLS_CTRL_HANDLE_TIMEOUT = 74"
definition MIN_SUPPORTED_OPENSSL_VERSION :: int where
  "MIN_SUPPORTED_OPENSSL_VERSION = 0x1010000f"

datatype 'e dtls_shim_error =
    UnsupportedOpenSslVersion (linked: int) (minimum: int)
  | Openssl 'e

text \<open>
  \<open>Display\<close> (\<open>{:#x}\<close> of an \<open>i64\<close> shows its two's complement), \<open>source\<close> and \<open>From\<close>; \<open>show_errs\<close> is the text
  of an \<open>ErrorStack\<close>.
\<close>

definition show_hex64 :: "int \<Rightarrow> bytes" where
  "show_hex64 v = [48, 120] @ hex_digits (unat (word_of_int v :: 64 word))"

fun dtls_shim_error_text :: "('e \<Rightarrow> bytes) \<Rightarrow> 'e dtls_shim_error \<Rightarrow> bytes" where
  "dtls_shim_error_text show_errs (UnsupportedOpenSslVersion l m) =
     ascii ''linked OpenSSL version '' @ show_hex64 l @ ascii '' is older than the minimum ''
     @ show_hex64 m @ ascii '' (1.1.0) this DTLS FFI shim supports -- DTLSv1_listen'' @ 39
     # ascii ''s BIO_ADDR-based ABI is not guaranteed before that release''"
| "dtls_shim_error_text show_errs (Openssl e) = ascii ''OpenSSL error: '' @ show_errs e"

fun error_source :: "'e dtls_shim_error \<Rightarrow> 'e option" where
  "error_source (Openssl e) = Some e"
| "error_source (UnsupportedOpenSslVersion l m) = None"

definition from_error_stack :: "'e \<Rightarrow> 'e dtls_shim_error" where
  "from_error_stack e = Openssl e"

definition dtls_listen_supported :: "int \<Rightarrow> bool" where
  "dtls_listen_supported version \<longleftrightarrow> MIN_SUPPORTED_OPENSSL_VERSION \<le> version"

section \<open>Timeouts\<close>

text \<open>\<open>SSL_ctrl\<close>: from the command to the return value and the \<open>timeval\<close> it leaves (zeroed before).\<close>

type_synonym ssl_ctrl = "int \<Rightarrow> int \<times> int \<times> int"

definition dtls_get_timeout :: "ssl_ctrl \<Rightarrow> duration option" where
  "dtls_get_timeout ctrl = (case ctrl DTLS_CTRL_GET_TIMEOUT of (ret, tv_sec, tv_usec) \<Rightarrow>
     if ret \<noteq> 1 then None
     else
       let secs = nat (max tv_sec 0); micros = nat (min (max tv_usec 0) 999999) in
       Some (from_secs secs + micros * 1000))"

datatype handle_timeout_outcome = NoPendingTimeout | Retransmitted

definition dtls_handle_timeout ::
  "ssl_ctrl \<Rightarrow> 'e \<Rightarrow> 'e dtls_shim_error + handle_timeout_outcome" where
  "dtls_handle_timeout ctrl errs =
     (let ret = fst (ctrl DTLS_CTRL_HANDLE_TIMEOUT) in
      if ret = 1 then Inr Retransmitted
      else if ret = 0 then Inr NoPendingTimeout
      else Inl (Openssl errs))"

section \<open>Addresses\<close>

definition AF_INET :: int where "AF_INET = 2"
definition AF_INET6 :: int where "AF_INET6 = 10"

text \<open>
  What the accessors report of a \<open>BIO_ADDR\<close>: the family, the two bytes of the port as they lie in
  memory (network order), and of \<open>BIO_ADDR_rawaddress\<close> the return value, the bytes now in the
  buffer and the length.
\<close>

record bio_addr =
  ba_family :: int
  ba_rawport :: "u8 \<times> u8"
  ba_ok :: int
  ba_bytes :: bytes
  ba_len :: nat

definition to_socket_addr :: "bio_addr \<Rightarrow> socket_addr option" where
  "to_socket_addr a =
     (let port = u16_from_be_bytes (fst (ba_rawport a)) (snd (ba_rawport a)) in
      if ba_family a = AF_INET then
        if ba_ok a = 0 \<or> ba_len a \<noteq> 4 then None
        else (case ba_bytes a of
            [b0, b1, b2, b3] \<Rightarrow> Some \<lparr>sa_ip = V4 (u32_from_be_bytes b0 b1 b2 b3), sa_port = port\<rparr>
          | _ \<Rightarrow> None)
      else if ba_family a = AF_INET6 then
        if ba_ok a = 0 \<or> ba_len a \<noteq> 16 then None
        else Some \<lparr>sa_ip = V6 (v6_from_octets (ba_bytes a)), sa_port = port\<rparr>
      else None)"

section \<open>Listening\<close>

datatype listen_outcome = Retry | Accepted (accepted_peer: "socket_addr option")

text \<open>The result, and whether \<open>DTLSv1_listen\<close> was called at all.\<close>

definition dtlsv1_listen ::
  "int \<Rightarrow> bool \<Rightarrow> 'e \<Rightarrow> int \<times> bio_addr \<Rightarrow> ('e dtls_shim_error + listen_outcome) \<times> bool" where
  "dtlsv1_listen version addr_new_ok errs listen =
     (if \<not> dtls_listen_supported version then
        (Inl (UnsupportedOpenSslVersion version MIN_SUPPORTED_OPENSSL_VERSION), False)
      else if \<not> addr_new_ok then (Inl (Openssl errs), False)
      else (case listen of (ret, addr) \<Rightarrow>
        (if ret < 0 then Inl (Openssl errs)
         else if ret = 0 then Inr Retry
         else Inr (Accepted (to_socket_addr addr)), True)))"

section \<open>Ownership of the address\<close>

text \<open>
  The foreign calls of one \<open>dtlsv1_listen\<close>, in order, on the pointer \<open>BIO_ADDR_new\<close> returned. \<open>BioAddr\<close>
  owns it, so \<open>Drop\<close> frees it where the value goes out of scope: after the last use of every branch.
\<close>

datatype ffi_call =
    AddrNew "nat option"
  | CallListen nat
  | AddrFamily nat
  | AddrRawport nat
  | AddrRawaddress nat
  | AddrFree nat
  | TakeErrors

definition bio_addr_new :: "nat option \<Rightarrow> 'e \<Rightarrow> ('e dtls_shim_error + nat) \<times> ffi_call list" where
  "bio_addr_new ptr errs = (case ptr of
     None \<Rightarrow> (Inl (Openssl errs), [AddrNew None, TakeErrors])
   | Some p \<Rightarrow> (Inr p, [AddrNew (Some p)]))"

definition bio_addr_drop :: "nat \<Rightarrow> ffi_call list" where
  "bio_addr_drop p = [AddrFree p]"

definition to_socket_addr_calls :: "nat \<Rightarrow> bio_addr \<Rightarrow> ffi_call list" where
  "to_socket_addr_calls p a = [AddrFamily p, AddrRawport p]
     @ (if ba_family a = AF_INET \<or> ba_family a = AF_INET6 then [AddrRawaddress p] else [])"

definition dtlsv1_listen_calls ::
  "int \<Rightarrow> nat option \<Rightarrow> 'e \<Rightarrow> int \<times> bio_addr \<Rightarrow> ffi_call list" where
  "dtlsv1_listen_calls version ptr errs listen =
     (if \<not> dtls_listen_supported version then []
      else (case bio_addr_new ptr errs of
          (Inl _, calls) \<Rightarrow> calls
        | (Inr p, calls) \<Rightarrow> calls @ CallListen p #
            (if fst listen < 0 then [TakeErrors]
             else if fst listen = 0 then []
             else to_socket_addr_calls p (snd listen)) @ bio_addr_drop p))"

text \<open>The allocator's view: the pointers live after a run of calls, None after a use or free of another.\<close>

fun heap_run :: "nat set \<Rightarrow> ffi_call list \<Rightarrow> nat set option" where
  "heap_run live [] = Some live"
| "heap_run live (AddrNew None # cs) = heap_run live cs"
| "heap_run live (AddrNew (Some p) # cs) = (if p \<in> live then None else heap_run (insert p live) cs)"
| "heap_run live (AddrFree p # cs) = (if p \<in> live then heap_run (live - {p}) cs else None)"
| "heap_run live (CallListen p # cs) = (if p \<in> live then heap_run live cs else None)"
| "heap_run live (AddrFamily p # cs) = (if p \<in> live then heap_run live cs else None)"
| "heap_run live (AddrRawport p # cs) = (if p \<in> live then heap_run live cs else None)"
| "heap_run live (AddrRawaddress p # cs) = (if p \<in> live then heap_run live cs else None)"
| "heap_run live (TakeErrors # cs) = heap_run live cs"

section \<open>Properties\<close>

text \<open>The address is owned: on every branch, errors included, each pointer the shim uses is live, the
  allocated address is freed exactly once and last, nothing is left allocated, and the library is
  called exactly when the result says so.\<close>

theorem listen_frees_address:
  assumes "\<forall>p. ptr = Some p \<longrightarrow> p \<notin> live"
  shows "heap_run live (dtlsv1_listen_calls version ptr errs listen) = Some live
    \<and> (\<forall>p. count_list (dtlsv1_listen_calls version ptr errs listen) (AddrFree p)
          = (if ptr = Some p \<and> dtls_listen_supported version then 1 else 0))
    \<and> (snd (dtlsv1_listen version (ptr \<noteq> None) errs listen)
          \<longleftrightarrow> (\<exists>p. CallListen p \<in> set (dtlsv1_listen_calls version ptr errs listen)))"
  using assms
  by (cases ptr) (auto simp: dtlsv1_listen_calls_def dtlsv1_listen_def bio_addr_new_def
      bio_addr_drop_def to_socket_addr_calls_def split: prod.split)

theorem listen_frees_address_witness:
  "heap_run {3} (dtlsv1_listen_calls 0x30000000 (Some 4) () (- 1, a)) = Some {3}"
  using listen_frees_address [of "Some 4" "{3}" "0x30000000" "()" "(- 1, a)"] by simp


text \<open>Acceptance is never invented: the shim reports a verified client only when the linked library is
  recent enough, the library was really called and its code is at least one; a code of zero is a
  retry, a negative one an error, and with an older library the foreign function is not called.
  The address it reports is the one the octets and port of the \<open>BIO_ADDR\<close> spell.\<close>

theorem listen_outcome_from_library:
  fixes errs :: 'e
  assumes "dtlsv1_listen version addr_ok errs (ret, addr) = (r, called)"
  shows "(called \<longleftrightarrow> 0x1010000f \<le> version \<and> addr_ok)
    \<and> ((\<exists>p. r = Inr (Accepted p)) \<longleftrightarrow> called \<and> 1 \<le> ret)
    \<and> (r = Inr Retry \<longleftrightarrow> called \<and> ret = 0)
    \<and> (called \<and> ret < 0 \<longrightarrow> r = Inl (Openssl errs))
    \<and> (\<forall>peer. ba_family addr = (case sa_ip peer of V4 _ \<Rightarrow> AF_INET | V6 _ \<Rightarrow> AF_INET6)
          \<and> ba_ok addr = 1 \<and> ba_bytes addr = ip_octets (sa_ip peer)
          \<and> ba_len addr = length (ba_bytes addr)
          \<and> [fst (ba_rawport addr), snd (ba_rawport addr)] = u16_to_be_bytes (sa_port peer)
          \<and> called \<and> 1 \<le> ret \<longrightarrow> r = Inr (Accepted (Some peer)))"
proof -
  have addr: "to_socket_addr addr = Some peer"
    if "ba_family addr = (case sa_ip peer of V4 _ \<Rightarrow> AF_INET | V6 _ \<Rightarrow> AF_INET6)"
      "ba_ok addr = 1" "ba_bytes addr = ip_octets (sa_ip peer)"
      "ba_len addr = length (ba_bytes addr)"
      "[fst (ba_rawport addr), snd (ba_rawport addr)] = u16_to_be_bytes (sa_port peer)" for peer
  proof (cases "sa_ip peer")
    case (V4 x)
    with that have "peer = \<lparr>sa_ip = V4 x, sa_port = sa_port peer\<rparr>" by simp
    with that V4 show ?thesis
      by (simp add: to_socket_addr_def Let_def AF_INET_def u32_to_be_bytes_def u16_to_be_bytes_def
          u32_be_roundtrip u16_be_roundtrip)
  next
    case (V6 x)
    with that have "peer = \<lparr>sa_ip = V6 x, sa_port = sa_port peer\<rparr>" by simp
    with that V6 length_ip_octets [of "V6 x"] show ?thesis
      by (simp add: to_socket_addr_def Let_def AF_INET_def AF_INET6_def u16_to_be_bytes_def
          u16_be_roundtrip v6_octets_roundtrip)
  qed
  from assms show ?thesis
    by (auto simp: dtlsv1_listen_def dtls_listen_supported_def MIN_SUPPORTED_OPENSSL_VERSION_def addr
        split: if_splits)
qed

theorem listen_outcome_from_library_witness:
  "fst (dtlsv1_listen 0x30000000 True () (1, \<lparr>ba_family = AF_INET, ba_rawport = (0x16, 0x34),
      ba_ok = 1, ba_bytes = [10, 0, 0, 1], ba_len = 4\<rparr>))
    = Inr (Accepted (Some \<lparr>sa_ip = V4 0x0A000001, sa_port = 5684\<rparr>))"
proof -
  let ?peer = "\<lparr>sa_ip = V4 0x0A000001, sa_port = 5684\<rparr>"
  let ?a = "\<lparr>ba_family = AF_INET, ba_rawport = (0x16, 0x34), ba_ok = 1, ba_bytes = [10, 0, 0, 1],
    ba_len = 4\<rparr>"
  have "ip_octets (V4 0x0A000001) = [10, 0, 0, 1]" by (simp add: u32_to_be_bytes_def drop_bit_eq_div)
  moreover have "u16_to_be_bytes 5684 = [0x16, 0x34]"
    by (simp add: u16_to_be_bytes_def drop_bit_eq_div)
  ultimately show ?thesis
    using listen_outcome_from_library [OF surjective_pairing, of "0x30000000" True "()" 1 ?a]
    by (auto dest!: spec [of _ ?peer])
qed

text \<open>The retransmission timer: no timer unless the library answers one; the duration is the
  library's for every well-formed \<open>timeval\<close>, zero (due now) is passed through, and garbage is
  clamped to a non-negative time below the next whole second. A handled timeout is an error
  exactly when the library answers neither one nor zero.\<close>

theorem timeout_codes:
  fixes ctrl :: ssl_ctrl and errs :: 'e
  shows "(dtls_get_timeout ctrl = None \<longleftrightarrow> fst (ctrl 73) \<noteq> 1)
    \<and> (\<forall>s us. ctrl 73 = (1, int s, int us) \<and> us < 1000000 \<longrightarrow>
          dtls_get_timeout ctrl = Some (s * 1000000000 + us * 1000))
    \<and> (\<forall>ret s us. ctrl 73 = (ret, s, us) \<longrightarrow>
          (\<forall>d. dtls_get_timeout ctrl = Some d \<longrightarrow> d < (nat s + 1) * 1000000000))
    \<and> ((\<exists>e. dtls_handle_timeout ctrl errs = Inl e) \<longleftrightarrow> fst (ctrl 74) \<notin> {0, 1})
    \<and> (dtls_handle_timeout ctrl errs = Inr Retransmitted \<longleftrightarrow> fst (ctrl 74) = 1)"
proof -
  have lt: "nat (max s 0) * 1000000000 + nat (min (max us 0) 999999) * 1000
      < (nat s + 1) * 1000000000" for s us :: int
  proof -
    have "nat (min (max us 0) 999999) \<le> 999999" by linarith
    moreover have "nat (max s 0) = nat s" by linarith
    ultimately show ?thesis by simp
  qed
  have mi: "nat (min (max (int us) 0) 999999) = us" if "us < 1000000" for us using that by linarith
  show ?thesis
    using lt mi
    by (auto simp: dtls_get_timeout_def dtls_handle_timeout_def DTLS_CTRL_GET_TIMEOUT_def
        DTLS_CTRL_HANDLE_TIMEOUT_def from_secs_def Let_def split: prod.splits if_splits)
qed

theorem timeout_codes_witness:
  "dtls_get_timeout (\<lambda>_. (1, 2, 500000)) = Some 2500000000"
  using timeout_codes [of "\<lambda>_. (1, 2, 500000)" "()"]
  by (auto dest!: spec [of _ "2 :: nat"] spec [of _ "500000 :: nat"])

end
