(* ===== verification/Psk.thy ===== *)
theory Psk
  imports Rust_Str
begin

text \<open>
  \<open>loft/src/psk.rs\<close> and \<open>loft/src/wire.rs\<close>: resolution of a PSK identity to its credential pair
  through a cache with a positive and a negative lifetime and a grace period for stale entries
  when the source cannot be reached. \<open>resolve\<close> takes the cache lock twice with the fetch between, so
  besides the sequential function there is a step relation in which calls of several threads
  interleave at those two points; its invariant says where every answer came from.
\<close>

record psk_entry =
  pe_psk :: bytes
  pe_token :: bytes

section \<open>The dovecote source\<close>

record coap_psk_lookup =
  lk_identity :: bytes
  lk_secret :: bytes
  lk_token :: bytes

text \<open>
  What the HTTP agent's \<open>call\<close> can return: a success whose body its JSON reader turns into the
  lookup record or an error, an error status, or a transport error.
\<close>

datatype ureq_result =
    ReqOk "bytes + coap_psk_lookup"
  | ReqStatus nat
  | ReqTransport bytes

definition psk_lookup_url :: "bytes \<Rightarrow> bytes \<Rightarrow> bytes" where
  "psk_lookup_url base_url identity =
     trim_end_matches 47 base_url @ ascii ''/internal/coap-psk/'' @ identity"

text \<open>\<open>call url authorization\<close> performs the request.\<close>

definition dovecote_fetch ::
  "(bytes \<Rightarrow> bytes \<Rightarrow> ureq_result) \<Rightarrow> bytes \<Rightarrow> bytes \<Rightarrow> bytes \<Rightarrow> bytes + psk_entry option" where
  "dovecote_fetch call base_url service_secret identity =
     (case call (psk_lookup_url base_url identity) (ascii ''Bearer '' @ service_secret) of
        ReqOk (Inr lookup) \<Rightarrow> Inr (Some \<lparr>pe_psk = lk_secret lookup, pe_token = lk_token lookup\<rparr>)
      | ReqOk (Inl e) \<Rightarrow> Inl (ascii ''psk lookup body parse: '' @ e)
      | ReqStatus status \<Rightarrow>
          if status = 404 \<or> status = 400 then Inr None
          else Inl (ascii ''psk lookup: upstream '' @ show_unsigned status)
      | ReqTransport e \<Rightarrow> Inl (ascii ''psk lookup transport: '' @ e))"

section \<open>The resolver\<close>

datatype cache_entry =
    Known psk_entry instant
  | Unknown instant

type_synonym psk_cache = "(bytes, cache_entry) hash_map"

record psk_ttls =
  positive_ttl :: duration
  negative_ttl :: duration
  stale_grace :: duration

definition DEFAULT_POSITIVE_TTL :: duration where "DEFAULT_POSITIVE_TTL = from_secs 60"
definition DEFAULT_NEGATIVE_TTL :: duration where "DEFAULT_NEGATIVE_TTL = from_secs 10"
definition DEFAULT_STALE_GRACE :: duration where "DEFAULT_STALE_GRACE = from_secs 300"

definition new_psk_resolver :: "duration \<Rightarrow> psk_ttls \<times> psk_cache" where
  "new_psk_resolver ttl =
     (\<lparr>positive_ttl = ttl, negative_ttl = DEFAULT_NEGATIVE_TTL, stale_grace = DEFAULT_STALE_GRACE\<rparr>, [])"

text \<open>The first critical section: \<open>Some answer\<close> from the cache, or None to go on to the fetch.\<close>

definition resolve_probe :: "psk_ttls \<Rightarrow> instant \<Rightarrow> bytes \<Rightarrow> psk_cache \<Rightarrow> psk_entry option option" where
  "resolve_probe ttls now identity cache = (case hm_get cache identity of
     Some (Known entry fetched) \<Rightarrow>
       if now - fetched < positive_ttl ttls then Some (Some entry) else None
   | Some (Unknown fetched) \<Rightarrow>
       if now - fetched < negative_ttl ttls then Some None else None
   | None \<Rightarrow> None)"

text \<open>The second one, after the fetch; \<open>now\<close> is still the time the call began.\<close>

definition resolve_settle ::
  "psk_ttls \<Rightarrow> instant \<Rightarrow> bytes \<Rightarrow> bytes + psk_entry option \<Rightarrow> psk_cache \<Rightarrow> psk_entry option \<times> psk_cache"
  where
  "resolve_settle ttls now identity fetched_result cache = (case fetched_result of
     Inr (Some entry) \<Rightarrow> (Some entry, hm_insert identity (Known entry now) cache)
   | Inr None \<Rightarrow> (None, hm_insert identity (Unknown now) cache)
   | Inl e \<Rightarrow>
       ((case hm_get cache identity of
           Some (Known entry fetched) \<Rightarrow>
             if now - fetched < stale_grace ttls then Some entry else None
         | _ \<Rightarrow> None), cache))"

text \<open>
  \<open>resolve\<close> on one thread: the answer, the cache and whether the source was asked.
\<close>

definition resolve ::
  "psk_ttls \<Rightarrow> (bytes \<Rightarrow> bytes + psk_entry option) \<Rightarrow> instant \<Rightarrow> bytes \<Rightarrow> psk_cache
   \<Rightarrow> psk_entry option \<times> psk_cache \<times> bool" where
  "resolve ttls fetch now identity cache = (case resolve_probe ttls now identity cache of
     Some answer \<Rightarrow> (answer, cache, False)
   | None \<Rightarrow>
       (case resolve_settle ttls now identity (fetch identity) cache of
          (answer, cache') \<Rightarrow> (answer, cache', True)))"

lemmas resolve_defs = resolve_def resolve_probe_def resolve_settle_def

section \<open>Concurrent calls\<close>

text \<open>
  The cache, the calls that missed and are fetching (identity and the time they began), what the
  source has answered to which call, and the answers given.
\<close>

record psk_system =
  ps_cache :: psk_cache
  ps_fetching :: "(bytes \<times> instant) list"
  ps_source :: "(bytes \<times> instant \<times> (bytes + psk_entry option)) list"
  ps_answers :: "(bytes \<times> instant \<times> psk_entry option) list"

definition psk_initial :: psk_system where
  "psk_initial = \<lparr>ps_cache = [], ps_fetching = [], ps_source = [], ps_answers = []\<rparr>"

inductive psk_step :: "psk_ttls \<Rightarrow> psk_system \<Rightarrow> psk_system \<Rightarrow> bool" for ttls where
  cached: "resolve_probe ttls now ident (ps_cache s) = Some answer \<Longrightarrow>
     psk_step ttls s (s\<lparr>ps_answers := (ident, now, answer) # ps_answers s\<rparr>)"
| missed: "resolve_probe ttls now ident (ps_cache s) = None \<Longrightarrow>
     psk_step ttls s (s\<lparr>ps_fetching := (ident, now) # ps_fetching s\<rparr>)"
| settled: "(ident, now) \<in> set (ps_fetching s) \<Longrightarrow>
     resolve_settle ttls now ident res (ps_cache s) = (answer, cache') \<Longrightarrow>
     psk_step ttls s (s\<lparr>ps_cache := cache', ps_fetching := remove1 (ident, now) (ps_fetching s),
       ps_source := (ident, now, res) # ps_source s,
       ps_answers := (ident, now, answer) # ps_answers s\<rparr>)"

text \<open>Where an answer at \<open>now\<close> may come from.\<close>

definition answer_justified ::
  "psk_ttls \<Rightarrow> (bytes \<times> instant \<times> (bytes + psk_entry option)) list \<Rightarrow> bytes \<times> instant \<times> psk_entry option \<Rightarrow> bool"
  where
  "answer_justified ttls src a = (case a of
     (ident, now, Some e) \<Rightarrow> (\<exists>t. (ident, t, Inr (Some e)) \<in> set src
        \<and> (t = now \<or> now - t < positive_ttl ttls
           \<or> now - t < stale_grace ttls \<and> (\<exists>x. (ident, now, Inl x) \<in> set src)))
   | (ident, now, None) \<Rightarrow>
        (\<exists>t. (ident, t, Inr None) \<in> set src \<and> (t = now \<or> now - t < negative_ttl ttls))
        \<or> (\<exists>x. (ident, now, Inl x) \<in> set src))"

definition psk_inv :: "psk_ttls \<Rightarrow> psk_system \<Rightarrow> bool" where
  "psk_inv ttls s \<longleftrightarrow>
     (\<forall>ident e t. hm_get (ps_cache s) ident = Some (Known e t) \<longrightarrow> (ident, t, Inr (Some e)) \<in> set (ps_source s))
   \<and> (\<forall>ident t. hm_get (ps_cache s) ident = Some (Unknown t) \<longrightarrow> (ident, t, Inr None) \<in> set (ps_source s))
   \<and> (\<forall>a \<in> set (ps_answers s). answer_justified ttls (ps_source s) a)"

lemma answer_justified_mono:
  "answer_justified ttls src a \<Longrightarrow> answer_justified ttls (x # src) a"
  by (auto simp: answer_justified_def split: prod.splits option.splits; blast)

lemma psk_inv_step:
  assumes "psk_inv ttls s" and "psk_step ttls s s'"
  shows "psk_inv ttls s'"
  using assms(2)
proof (cases rule: psk_step.cases)
  case (cached now ident answer)
  from assms(1) cached(2) have "answer_justified ttls (ps_source s) (ident, now, answer)"
    by (auto simp: psk_inv_def answer_justified_def resolve_probe_def
        split: option.splits cache_entry.splits if_splits)
  with cached(1) assms(1) show ?thesis by (simp add: psk_inv_def)
next
  case (missed now ident)
  with assms(1) show ?thesis by (simp add: psk_inv_def)
next
  case (settled ident now res answer cache')
  have src: "\<And>i e t. hm_get (ps_cache s) i = Some (Known e t) \<Longrightarrow> (i, t, Inr (Some e)) \<in> set (ps_source s)"
    "\<And>i t. hm_get (ps_cache s) i = Some (Unknown t) \<Longrightarrow> (i, t, Inr None) \<in> set (ps_source s)"
    using assms(1) by (auto simp: psk_inv_def)
  have "answer_justified ttls ((ident, now, res) # ps_source s) (ident, now, answer)"
    using settled(3) src
    by (auto simp: answer_justified_def resolve_settle_def
        split: option.splits cache_entry.splits if_splits sum.splits; blast)
  moreover have "(i, t, Inr (Some e)) \<in> set ((ident, now, res) # ps_source s)"
    if "hm_get cache' i = Some (Known e t)" for i e t
    using settled(3) that src
    by (auto simp: resolve_settle_def table_simps split: sum.splits option.splits if_splits)
  moreover have "(i, t, Inr None) \<in> set ((ident, now, res) # ps_source s)"
    if "hm_get cache' i = Some (Unknown t)" for i t
    using settled(3) that src
    by (auto simp: resolve_settle_def table_simps split: sum.splits option.splits if_splits)
  ultimately show ?thesis
    using settled(1) assms(1) by (simp add: psk_inv_def answer_justified_mono)
qed

lemma psk_inv_reachable: "rtranclp (psk_step ttls) psk_initial s \<Longrightarrow> psk_inv ttls s"
  by (induction rule: rtranclp_induct)
     (simp add: psk_initial_def psk_inv_def, rule psk_inv_step)

text \<open>Nothing ever leaves the cache: its entries only change or grow in number.\<close>

lemma psk_step_cache:
  assumes "hm_ok (ps_cache s)" and "psk_step ttls s s'"
  shows "hm_ok (ps_cache s') \<and> hm_len (ps_cache s) \<le> hm_len (ps_cache s')"
  using assms(2)
proof cases
  case (settled ident now res answer cache')
  then have "cache' = ps_cache s \<or> (\<exists>entry. cache' = hm_insert ident entry (ps_cache s))"
    by (auto simp: resolve_settle_def split: sum.splits option.splits)
  with assms(1) settled(1) show ?thesis by (auto simp: hm.ok_insert hm.len_insert)
qed (use assms(1) in simp_all)

lemma psk_run_cache:
  assumes "rtranclp (psk_step ttls) s s'" and "hm_ok (ps_cache s)"
  shows "hm_ok (ps_cache s') \<and> hm_len (ps_cache s) \<le> hm_len (ps_cache s')"
  using assms
proof (induction rule: rtranclp_induct)
  case (step y z)
  with psk_step_cache [of y ttls z] show ?case by (meson le_trans)
qed simp

text \<open>A refused lookup of a name not in the cache.\<close>

lemma psk_refused_grows:
  assumes "hm_ok (ps_cache s)" and "hm_get (ps_cache s) ident = None" and "ps_fetching s = []"
  shows "\<exists>s'. rtranclp (psk_step ttls) s s' \<and> ps_cache s' = hm_insert ident (Unknown now) (ps_cache s)
    \<and> ps_fetching s' = [] \<and> ps_answers s' = (ident, now, None) # ps_answers s"
proof -
  let ?s1 = "s\<lparr>ps_fetching := (ident, now) # ps_fetching s\<rparr>"
  let ?s2 = "?s1\<lparr>ps_cache := hm_insert ident (Unknown now) (ps_cache ?s1),
    ps_fetching := remove1 (ident, now) (ps_fetching ?s1),
    ps_source := (ident, now, Inr None) # ps_source ?s1, ps_answers := (ident, now, None) # ps_answers ?s1\<rparr>"
  have "psk_step ttls s ?s1"
    by (rule psk_step.missed) (simp add: resolve_probe_def assms(2))
  moreover have "psk_step ttls ?s1 ?s2"
    by (rule psk_step.settled) (simp_all add: resolve_settle_def)
  ultimately have "rtranclp (psk_step ttls) s ?s2" by simp
  then show ?thesis by (rule exI [of _ ?s2, OF conjI]) (simp add: assms(3))
qed

section \<open>Properties\<close>

text \<open>C19. No credential outlives its window, however calls interleave: every pair handed to a
  handshake for an identity was given by the source for that same identity to a call that began
  less than the positive lifetime before (or to this very call), or less than the grace period
  before and then only because the source failed for this call. Every rejection is backed by an
  authoritative "unknown" within the negative lifetime or by a failure of the source for this call.\<close>

theorem psk_answers_fresh_and_sourced:
  assumes "rtranclp (psk_step ttls) psk_initial s" and "(ident, now, answer) \<in> set (ps_answers s)"
  shows "case answer of
      Some e \<Rightarrow> (\<exists>t. (ident, t, Inr (Some e)) \<in> set (ps_source s)
        \<and> (t = now \<or> now - t < positive_ttl ttls
           \<or> now - t < stale_grace ttls \<and> (\<exists>x. (ident, now, Inl x) \<in> set (ps_source s))))
    | None \<Rightarrow> (\<exists>t. (ident, t, Inr None) \<in> set (ps_source s) \<and> (t = now \<or> now - t < negative_ttl ttls))
        \<or> (\<exists>x. (ident, now, Inl x) \<in> set (ps_source s))"
  using psk_inv_reachable [OF assms(1)] assms(2)
  by (auto simp: psk_inv_def answer_justified_def split: option.split)

theorem psk_answers_fresh_and_sourced_witness:
  "\<exists>s. rtranclp (psk_step (fst (new_psk_resolver 5))) psk_initial s \<and> ps_answers s = [([1], 7, None)]
     \<and> ([1], 7, Inr None) \<in> set (ps_source s)"
proof -
  let ?t = "fst (new_psk_resolver 5)"
  let ?s1 = "psk_initial\<lparr>ps_fetching := [([1], 7)]\<rparr>"
  let ?s2 = "?s1\<lparr>ps_cache := [([1], Unknown 7)], ps_fetching := [], ps_source := [([1], 7, Inr None)],
    ps_answers := [([1], 7, None)]\<rparr>"
  have "psk_step ?t psk_initial ?s1"
    using psk_step.missed [of ?t 7 "[1]" psk_initial] by (simp add: psk_initial_def resolve_probe_def)
  moreover have "psk_step ?t ?s1 ?s2"
    using psk_step.settled [of "[1]" 7 ?s1 ?t "Inr None" None "[([1], Unknown 7)]"]
    by (simp add: psk_initial_def resolve_settle_def hm_defs)
  ultimately have r: "rtranclp (psk_step ?t) psk_initial ?s2" by simp
  have "([1], 7, Inr None) \<in> set (ps_source ?s2)"
    using psk_answers_fresh_and_sourced [OF r, of "[1]" 7 None] by (auto simp: psk_initial_def)
  with r show ?thesis by (intro exI [of _ ?s2]) simp
qed

text \<open>The cache does its work and errors never poison it: a fetched answer, positive or negative,
  is repeated without asking the source again for its whole lifetime, calls for other identities
  are not affected, and a failed fetch leaves the cache exactly as it was, so the next call asks
  again.\<close>

theorem resolve_caches_answers_not_errors:
  assumes "resolve ttls fetch now ident cache = (answer, cache', True)"
  shows "(\<forall>r. fetch ident = Inr r \<longrightarrow> answer = r
        \<and> (\<forall>now' fetch'. now' - now < (if r = None then negative_ttl ttls else positive_ttl ttls) \<longrightarrow>
             resolve ttls fetch' now' ident cache' = (r, cache', False)))
    \<and> (\<forall>e. fetch ident = Inl e \<longrightarrow> cache' = cache)
    \<and> (\<forall>other now' fetch'. other \<noteq> ident \<longrightarrow>
         fst (resolve ttls fetch' now' other cache') = fst (resolve ttls fetch' now' other cache))"
proof -
  have probe: "resolve_probe ttls now ident cache = None"
    and settle: "resolve_settle ttls now ident (fetch ident) cache = (answer, cache')"
    using assms by (auto simp: resolve_def split: option.splits prod.splits)
  have "answer = r \<and> (\<forall>now' fetch'. now' - now < (if r = None then negative_ttl ttls
      else positive_ttl ttls) \<longrightarrow> resolve ttls fetch' now' ident cache' = (r, cache', False))"
    if "fetch ident = Inr r" for r
    using settle that by (cases r) (auto simp: resolve_defs table_simps)
  moreover have "cache' = cache" if "fetch ident = Inl e" for e
    using settle that by (simp add: resolve_settle_def)
  moreover have "hm_get cache' other = hm_get cache other" if "other \<noteq> ident" for other
    using settle that
    by (auto simp: resolve_settle_def table_simps split: sum.splits option.splits)
  then have "fst (resolve ttls fetch' now' other cache') = fst (resolve ttls fetch' now' other cache)"
    if "other \<noteq> ident" for other now' fetch'
    using that by (auto simp: resolve_defs split: option.split sum.split cache_entry.split)
  ultimately show ?thesis by blast
qed

theorem resolve_caches_answers_not_errors_witness:
  "\<exists>cache. resolve (fst (new_psk_resolver (from_secs 60))) (\<lambda>_. Inr None) 5 [1] []
       = (None, cache, True)
     \<and> resolve (fst (new_psk_resolver (from_secs 60))) (\<lambda>_. Inl []) (5 + from_secs 9) [1] cache
       = (None, cache, False)"
proof -
  let ?t = "fst (new_psk_resolver (from_secs 60))"
  have r: "resolve ?t (\<lambda>_. Inr None) 5 [1] [] = (None, [([1], Unknown 5)], True)"
    by (simp add: resolve_defs hm_defs)
  show ?thesis
    using resolve_caches_answers_not_errors [OF r] r
    by (intro exI [of _ "[([1], Unknown 5)]"])
       (simp add: new_psk_resolver_def DEFAULT_NEGATIVE_TTL_def from_secs_def)
qed

text \<open>Against dovecote only a 404 or 400 becomes a cached rejection. Any other failure (our own
  service secret refused, a server error, an unparsable body, no connection) leaves the cache
  untouched and at worst serves the entry already held; a success yields exactly the secret and
  token of the reply.\<close>

theorem dovecote_errors_never_cached:
  assumes "resolve_probe ttls now ident cache = None"
  shows "(case call (psk_lookup_url base ident) (ascii ''Bearer '' @ secret) of
      ReqOk (Inr lk) \<Rightarrow> resolve ttls (dovecote_fetch call base secret) now ident cache
        = (Some \<lparr>pe_psk = lk_secret lk, pe_token = lk_token lk\<rparr>,
           hm_insert ident (Known \<lparr>pe_psk = lk_secret lk, pe_token = lk_token lk\<rparr> now) cache, True)
    | ReqStatus st \<Rightarrow>
        if st = 404 \<or> st = 400
        then resolve ttls (dovecote_fetch call base secret) now ident cache
             = (None, hm_insert ident (Unknown now) cache, True)
        else \<exists>a. resolve ttls (dovecote_fetch call base secret) now ident cache = (a, cache, True)
             \<and> (\<forall>e. a = Some e \<longrightarrow> (\<exists>t. hm_get cache ident = Some (Known e t) \<and> now - t < stale_grace ttls))
    | _ \<Rightarrow> \<exists>a. resolve ttls (dovecote_fetch call base secret) now ident cache = (a, cache, True)
             \<and> (\<forall>e. a = Some e \<longrightarrow> (\<exists>t. hm_get cache ident = Some (Known e t) \<and> now - t < stale_grace ttls)))"
  using assms
  by (simp add: resolve_def dovecote_fetch_def resolve_settle_def
      split: ureq_result.split sum.split option.split cache_entry.split)

theorem dovecote_errors_never_cached_witness:
  "resolve (fst (new_psk_resolver 0)) (dovecote_fetch (\<lambda>_ _. ReqStatus 401) [] []) 400000000000 [1]
     [([1], Known \<lparr>pe_psk = [5], pe_token = [6]\<rparr> 0)]
   = (None, [([1], Known \<lparr>pe_psk = [5], pe_token = [6]\<rparr> 0)], True)"
proof -
  have p: "resolve_probe (fst (new_psk_resolver 0)) 400000000000 [1]
      [([1], Known \<lparr>pe_psk = [5], pe_token = [6]\<rparr> 0)] = None"
    by (simp add: resolve_probe_def hm_defs new_psk_resolver_def)
  show ?thesis
    using dovecote_errors_never_cached [OF p, of "\<lambda>_ _. ReqStatus 401" "[]" "[]"]
    by (auto simp: hm_defs new_psk_resolver_def DEFAULT_STALE_GRACE_def from_secs_def)
qed

text \<open>C37. The cache has no bound: it is never evicted from, and a peer that proves nothing can make it as
  large as it likes, one entry for every name it invents that dovecote does not know, while every
  one of its handshakes is refused. The entries stay for good.\<close>

theorem psk_cache_grows_without_bound:
  "\<exists>s. rtranclp (psk_step ttls) psk_initial s \<and> hm_len (ps_cache s) = n
    \<and> snd ` snd ` set (ps_answers s) \<subseteq> {None}
    \<and> (\<forall>s'. rtranclp (psk_step ttls) s s' \<longrightarrow> n \<le> hm_len (ps_cache s'))"
proof -
  have "\<exists>s. rtranclp (psk_step ttls) psk_initial s \<and> hm_ok (ps_cache s) \<and> hm_len (ps_cache s) = n
      \<and> ps_fetching s = [] \<and> snd ` snd ` set (ps_answers s) \<subseteq> {None}
      \<and> (\<forall>k. n \<le> k \<longrightarrow> hm_get (ps_cache s) (replicate k 65) = None)"
  proof (induction n)
    case 0
    show ?case by (intro exI [of _ psk_initial]) (simp add: psk_initial_def hm_defs)
  next
    case (Suc n)
    then obtain s where s: "rtranclp (psk_step ttls) psk_initial s" "hm_ok (ps_cache s)"
      "hm_len (ps_cache s) = n" "ps_fetching s = []" "snd ` snd ` set (ps_answers s) \<subseteq> {None}"
      "\<And>k. n \<le> k \<Longrightarrow> hm_get (ps_cache s) (replicate k 65) = None" by blast
    obtain s' where s': "rtranclp (psk_step ttls) s s'"
      "ps_cache s' = hm_insert (replicate n 65) (Unknown 0) (ps_cache s)" "ps_fetching s' = []"
      "ps_answers s' = (replicate n 65, 0, None) # ps_answers s"
      using psk_refused_grows [OF s(2) s(6) [OF order_refl] s(4)] by blast
    have "hm_get (ps_cache s') (replicate k 65) = None" if "Suc n \<le> k" for k
      using that s(6) [of k] by (simp add: s'(2) hm.get_insert)
    moreover have "hm_ok (ps_cache s')" "hm_len (ps_cache s') = Suc n"
      using s(2,3) s(6) [OF order_refl] by (simp_all add: s'(2) hm.ok_insert hm.len_insert)
    ultimately show ?case
      using rtranclp_trans [OF s(1) s'(1)] s'(3,4) s(5) by (intro exI [of _ s']) simp
  qed
  then obtain s where s: "rtranclp (psk_step ttls) psk_initial s" "hm_ok (ps_cache s)"
    "hm_len (ps_cache s) = n" "snd ` snd ` set (ps_answers s) \<subseteq> {None}" by blast
  have "n \<le> hm_len (ps_cache s')" if "rtranclp (psk_step ttls) s s'" for s'
    using psk_run_cache [OF that s(2)] s(3) by simp
  with s show ?thesis by blast
qed

theorem psk_cache_grows_without_bound_witness:
  "\<exists>s. rtranclp (psk_step (fst (new_psk_resolver 60))) psk_initial s \<and> hm_len (ps_cache s) = 1000000"
  using psk_cache_grows_without_bound [of "fst (new_psk_resolver 60)" 1000000] by blast

end
