(* ===== verification/Tls_Common.thy ===== *)
theory Tls_Common
  imports Psk
begin

text \<open>
  \<open>loft/src/tls_common.rs\<close>: the PSK server settings of both OpenSSL listeners, the identity resolution
  every PSK callback shares, and OpenSSL's callback: what it writes to the key buffer, what length
  it returns and which session it attaches to the connection.
\<close>

datatype ssl_method = MethodDtls | MethodTlsServer
datatype ssl_version = DTLS1_2 | TLS1_2

definition PSK_CIPHER_LIST :: bytes where
  "PSK_CIPHER_LIST = ascii ''PSK-AES128-CCM8:PSK-AES128-GCM-SHA256:PSK-AES128-CBC-SHA256''"

text \<open>The settings the builder is given, in the order of the calls.\<close>

datatype builder_call =
    SetMinProto ssl_version
  | SetMaxProto ssl_version
  | SetCipherList bytes
  | SetSecurityLevel nat
  | SetPskServerCallback

definition build_psk_server_context :: "bool \<Rightarrow> builder_call list" where
  "build_psk_server_context is_dtls =
     (let version = (if is_dtls then DTLS1_2 else TLS1_2) in
      [SetMinProto version, SetMaxProto version, SetCipherList PSK_CIPHER_LIST, SetSecurityLevel 0,
       SetPskServerCallback])"

text \<open>Identity resolution; the cache is the resolver's.\<close>

definition resolve_psk_identity ::
  "psk_ttls \<Rightarrow> (bytes \<Rightarrow> bytes + psk_entry option) \<Rightarrow> instant \<Rightarrow> bytes \<Rightarrow> psk_cache
   \<Rightarrow> (bytes \<times> psk_entry) option \<times> psk_cache" where
  "resolve_psk_identity ttls fetch now identity cache =
     (if \<not> from_utf8_ok identity then (None, cache)
      else case resolve ttls fetch now identity cache of
        (Some entry, cache', _) \<Rightarrow> (Some (identity, entry), cache')
      | (None, cache', _) \<Rightarrow> (None, cache'))"

text \<open>
  \<open>psk_callback\<close>: the returned length, the key buffer after, the session attached (the value of
  \<open>SESSION_EX_INDEX\<close>) and the cache.
\<close>

definition psk_callback ::
  "psk_ttls \<Rightarrow> (bytes \<Rightarrow> bytes + psk_entry option) \<Rightarrow> instant \<Rightarrow> bytes option \<Rightarrow> bytes
   \<Rightarrow> (bytes \<times> bytes) option \<Rightarrow> psk_cache \<Rightarrow> nat \<times> bytes \<times> (bytes \<times> bytes) option \<times> psk_cache" where
  "psk_callback ttls fetch now identity_opt psk_out session cache = (case identity_opt of
     None \<Rightarrow> (0, psk_out, session, cache)
   | Some identity0 \<Rightarrow> (case resolve_psk_identity ttls fetch now identity0 cache of
       (None, cache') \<Rightarrow> (0, psk_out, session, cache')
     | (Some (identity, entry), cache') \<Rightarrow>
         let len = length (pe_psk entry) in
         if length psk_out < len then (0, psk_out, session, cache')
         else (len, pe_psk entry @ drop len psk_out, Some (identity, pe_token entry), cache')))"

text \<open>\<open>authenticated_session\<close> reads the attached pair back.\<close>

definition authenticated_session :: "(bytes \<times> bytes) option \<Rightarrow> (bytes \<times> bytes) option" where
  "authenticated_session session = session"

section \<open>Properties\<close>

text \<open>A key is only ever handed to OpenSSL for an identity that resolves, and it is that identity's: a
  non-zero length means the identity is valid UTF-8, the buffer starts with exactly the resolved
  secret and is otherwise unchanged, and the session attached pairs that identity with the token
  of the same entry. In every other case (no identity, bad UTF-8, unknown identity, failed
  lookup, secret too long) the answer is the same zero and no session is attached.\<close>

theorem psk_callback_binds_session:
  assumes "psk_callback ttls fetch now ident out session cache = (n, out', session', cache')"
  shows "(0 < n \<longrightarrow> (\<exists>i e. ident = Some i \<and> from_utf8_ok i
        \<and> fst (resolve ttls fetch now i cache) = Some e \<and> n = length (pe_psk e)
        \<and> take n out' = pe_psk e \<and> drop n out' = drop n out \<and> length out' = length out
        \<and> authenticated_session session' = Some (i, pe_token e)))
    \<and> (session' \<noteq> session \<longrightarrow> (\<exists>i e. ident = Some i \<and> fst (resolve ttls fetch now i cache) = Some e
        \<and> session' = Some (i, pe_token e) \<and> n = length (pe_psk e)))
    \<and> ((\<forall>i e. ident = Some i \<and> from_utf8_ok i \<longrightarrow> fst (resolve ttls fetch now i cache) \<noteq> Some e)
        \<longrightarrow> n = 0 \<and> out' = out \<and> session' = session)"
  using assms
  by (auto simp: psk_callback_def resolve_psk_identity_def authenticated_session_def Let_def
      split: option.splits if_splits prod.splits)

theorem psk_callback_binds_session_witness:
  "\<exists>i. psk_callback (fst (new_psk_resolver 60)) (\<lambda>_. Inr (Some \<lparr>pe_psk = [5, 6], pe_token = [7]\<rparr>)) 0
       (Some [65]) [0, 0, 0] None []
     = (2, [5, 6, 0], Some ([65], [7]), [([65], Known \<lparr>pe_psk = [5, 6], pe_token = [7]\<rparr> 0)])
     \<and> Some [65] = Some i \<and> authenticated_session (Some ([65], [7])) = Some (i, [7])"
proof -
  let ?e = "\<lparr>pe_psk = [5, 6], pe_token = [7]\<rparr>"
  let ?f = "\<lambda>_. Inr (Some ?e)"
  let ?t = "fst (new_psk_resolver 60)"
  have u: "from_utf8_ok [65]" by (rule from_utf8_ok_ascii) simp
  have r: "resolve ?t ?f 0 [65] [] = (Some ?e, [([65], Known ?e 0)], True)"
    by (simp add: resolve_defs hm_defs)
  have c: "psk_callback ?t ?f 0 (Some [65]) [0, 0, 0] None []
      = (2, [5, 6, 0], Some ([65], [7]), [([65], Known ?e 0)])"
    by (simp add: psk_callback_def resolve_psk_identity_def u r del: from_utf8_ok.simps)
  from psk_callback_binds_session [OF c] c r show ?thesis by fastforce
qed

end
