(* ===== verification/Dtls.thy ===== *)
theory Dtls
  imports Dgram_Io Dtls_Shim Tls_Common Quota
begin

text \<open>
  \<open>loft/src/dtls.rs\<close>: the coaps listener over OpenSSL. The datagram transport below OpenSSL, the
  cookie that binds a handshake to its source address, the demultiplexer with its connection map
  and single pending stream, promotion, and the connection thread. The state \<open>dtls_sys\<close> is what
  the listener thread and the connection threads share; \<open>dtls_step\<close> interleaves them. OpenSSL is
  a parameter: the listen results, the handshake's events and the decrypted datagrams.
\<close>

definition DTLS_MTU :: nat where "DTLS_MTU = 1400"

section \<open>The transport\<close>

record dgram_io =
  io_queue :: "bytes list"
  io_connected :: bool
  io_peer :: socket_addr
  io_tick :: duration
  io_deadline :: "instant option"

text \<open>
  One \<open>read\<close> into a buffer of n bytes. \<open>io_connected\<close> is whether the channel still has its sender;
  a quiet tick, like an oversized datagram, is would-block.
\<close>

definition dgram_read :: "instant \<Rightarrow> nat \<Rightarrow> dgram_io \<Rightarrow> (io_error + bytes) \<times> dgram_io" where
  "dgram_read now n io =
     (if (case io_deadline io of None \<Rightarrow> False | Some d \<Rightarrow> d \<le> now) then (Inl TimedOut, io)
      else (case io_queue io of
          dgram # rest \<Rightarrow>
            (if n < length dgram then Inl WouldBlock else Inr dgram, io\<lparr>io_queue := rest\<rparr>)
        | [] \<Rightarrow> (if io_connected io then Inl WouldBlock else Inr [], io)))"

text \<open>\<open>write\<close>: one datagram, to the pinned peer.\<close>

definition dgram_write :: "bytes \<Rightarrow> dgram_io \<Rightarrow> socket_addr \<times> bytes" where
  "dgram_write buf io = (io_peer io, buf)"

text \<open>What OpenSSL takes for data: \<open>Ok\<close> of a positive length.\<close>

definition read_data :: "io_error + bytes \<Rightarrow> bytes option" where
  "read_data r = (case r of Inl _ \<Rightarrow> None | Inr d \<Rightarrow> if d = [] then None else Some d)"

definition io_arrive :: "bytes \<Rightarrow> dgram_io \<Rightarrow> dgram_io" where
  "io_arrive d io = io\<lparr>io_queue := io_queue io @ [d]\<rparr>"

interpretation dgram: datagram_source "\<lambda>now n (_ :: unit). dgram_read now n" read_data io_arrive
  io_queue io_deadline
  by unfold_locales
    (auto simp: dgram_read_def read_data_def io_arrive_def split: if_splits list.splits option.splits)

section \<open>The cookie\<close>

definition cookie_material :: "socket_addr \<Rightarrow> bytes" where
  "cookie_material peer = ip_octets (sa_ip peer) @ u16_to_be_bytes (sa_port peer)"

text \<open>The signer is a parameter: HMAC-SHA256 of a key and a message, or its failure.\<close>

type_synonym signer = "bytes \<Rightarrow> bytes \<Rightarrow> bytes option"

definition generate_cookie :: "signer \<Rightarrow> bytes \<Rightarrow> socket_addr \<Rightarrow> bytes option" where
  "generate_cookie hmac key peer = hmac key (cookie_material peer)"

definition verify_cookie :: "signer \<Rightarrow> bytes \<Rightarrow> socket_addr \<Rightarrow> bytes \<Rightarrow> bool" where
  "verify_cookie hmac key peer cookie = (case generate_cookie hmac key peer of
     Some expected \<Rightarrow> length cookie = length expected \<and> cookie = expected
   | None \<Rightarrow> False)"

text \<open>The callbacks: the address stamped on the \<open>Ssl\<close>, if any, and the output buffer.\<close>

definition cookie_generate_cb ::
  "signer \<Rightarrow> bytes \<Rightarrow> socket_addr option \<Rightarrow> bytes \<Rightarrow> (nat \<times> bytes) option" where
  "cookie_generate_cb hmac key stamped cookie_out = (case stamped of
     None \<Rightarrow> None
   | Some peer \<Rightarrow> (case generate_cookie hmac key peer of
       None \<Rightarrow> None
     | Some cookie \<Rightarrow>
         if length cookie_out < length cookie then None
         else Some (length cookie, cookie @ drop (length cookie) cookie_out)))"

definition cookie_verify_cb :: "signer \<Rightarrow> bytes \<Rightarrow> socket_addr option \<Rightarrow> bytes \<Rightarrow> bool" where
  "cookie_verify_cb hmac key stamped cookie = (case stamped of
     None \<Rightarrow> False
   | Some peer \<Rightarrow> verify_cookie hmac key peer cookie)"

text \<open>The options of the context: those shared with the stream listener, and the cookie exchange.\<close>

definition build_context :: "builder_call list \<times> bool" where
  "build_context = (build_psk_server_context True, True)"

section \<open>The listener and its connections\<close>

text \<open>
  Channels are named by the order of their creation. A thread is its peer, the channel it reads,
  its permit and how far it got: running \<open>connection_thread\<close> (and owning the stream, so the
  channel has its receiver), returned from it, past the removal of its map entry, or unwinding: a
  panic inside \<open>connection_thread\<close> drops the stream and then the permit, and never reaches the
  removal (unlike the mbedTLS listener's, this thread has no \<open>catch_unwind\<close>).
\<close>

type_synonym channel = nat

datatype thread_phase = Serving | Returned | Unmapped | Unwinding

record conn_thread =
  th_peer :: socket_addr
  th_chan :: channel
  th_permit :: conn_permit
  th_phase :: thread_phase

record dtls_sys =
  dy_conns :: "(socket_addr, channel) hash_map"
  dy_pending :: "channel option"
  dy_chans :: "channel \<Rightarrow> bytes list"
  dy_next :: channel
  dy_threads :: "conn_thread list"
  dy_counts :: counts

definition dtls_init :: dtls_sys where
  "dtls_init = \<lparr>dy_conns = [], dy_pending = None, dy_chans = (\<lambda>_. []), dy_next = 0,
     dy_threads = [], dy_counts = new_counts\<rparr>"

text \<open>
  What one datagram meets beyond the state: whether a pending stream can be built, how many queued
  datagrams \<open>DTLSv1_listen\<close> reads and what it answers, and whether a thread can be spawned. An
  \<open>ErrorStack\<close> is its text.
\<close>

record listen_env =
  le_setup_ok :: bool
  le_drained :: nat
  le_listen :: "bytes dtls_shim_error + listen_outcome"
  le_spawn_ok :: bool

definition receiver_alive :: "dtls_sys \<Rightarrow> channel \<Rightarrow> bool" where
  "receiver_alive s c \<longleftrightarrow> dy_pending s = Some c
     \<or> (\<exists>t \<in> set (dy_threads s). th_chan t = c \<and> th_phase t = Serving)"

text \<open>The lookup by source: True when the datagram was delivered or dropped.\<close>

definition demux :: "socket_addr \<Rightarrow> bytes \<Rightarrow> dtls_sys \<Rightarrow> bool \<times> dtls_sys" where
  "demux peer dgram s = (case hm_get (dy_conns s) peer of
     None \<Rightarrow> (False, s)
   | Some c \<Rightarrow> (case try_send (receiver_alive s c) (dy_chans s c) dgram of
       Sent queue \<Rightarrow> (True, s\<lparr>dy_chans := (dy_chans s)(c := queue)\<rparr>)
     | Full \<Rightarrow> (True, s)
     | Disconnected \<Rightarrow> (False, s\<lparr>dy_conns := hm_remove peer (dy_conns s)\<rparr>)))"

definition pending_listen :: "bool \<Rightarrow> dtls_sys \<Rightarrow> (channel \<times> dtls_sys) option" where
  "pending_listen setup_ok s = (case dy_pending s of
     Some c \<Rightarrow> Some (c, s)
   | None \<Rightarrow>
       if setup_ok then
         Some (dy_next s, s\<lparr>dy_pending := Some (dy_next s), dy_next := Suc (dy_next s)\<rparr>)
       else None)"

definition promote_connection ::
  "bool \<Rightarrow> channel \<Rightarrow> conn_permit \<Rightarrow> socket_addr \<Rightarrow> dtls_sys \<Rightarrow> dtls_sys" where
  "promote_connection spawn_ok c permit peer s =
     (let s1 = s\<lparr>dy_conns := hm_insert peer c (dy_conns s)\<rparr> in
      if spawn_ok then
        s1\<lparr>dy_threads := \<lparr>th_peer = peer, th_chan = c, th_permit = permit, th_phase = Serving\<rparr>
             # dy_threads s1\<rparr>
      else s1\<lparr>dy_conns := hm_remove peer (dy_conns s1),
              dy_counts := permit_drop permit (dy_counts s1)\<rparr>)"

text \<open>One round of \<open>listen_loop\<close>.\<close>

definition listen_datagram ::
  "conn_quota \<Rightarrow> listen_env \<Rightarrow> socket_addr \<Rightarrow> bytes \<Rightarrow> dtls_sys \<Rightarrow> dtls_sys" where
  "listen_datagram q env source dgram s =
     (let peer = canonical_peer source in
      case demux peer dgram s of
        (True, s1) \<Rightarrow> s1
      | (False, s1) \<Rightarrow>
          if is_full q (dy_counts s1) then s1
          else (case pending_listen (le_setup_ok env) s1 of
              None \<Rightarrow> s1
            | Some (c, s2) \<Rightarrow> (case try_send True (dy_chans s2 c) dgram of
                Sent queue \<Rightarrow>
                  let s3 = s2\<lparr>dy_chans := (dy_chans s2)(c := drop (le_drained env) queue)\<rparr> in
                  (case le_listen env of
                    Inr Retry \<Rightarrow> s3
                  | Inr (Accepted _) \<Rightarrow>
                      let s4 = s3\<lparr>dy_pending := None\<rparr> in
                      (case try_acquire q (sa_ip peer) (dy_counts s4) of
                        (Some permit, counts) \<Rightarrow>
                          promote_connection (le_spawn_ok env) c permit peer
                            (s4\<lparr>dy_counts := counts\<rparr>)
                      | (None, _) \<Rightarrow> s4)
                  | Inl _ \<Rightarrow> s3\<lparr>dy_pending := None\<rparr>)
              | _ \<Rightarrow> s2\<lparr>dy_pending := None\<rparr>)))"

text \<open>What a connection thread does to the shared state after \<open>connection_thread\<close> returns.\<close>

definition set_phase :: "channel \<Rightarrow> thread_phase \<Rightarrow> dtls_sys \<Rightarrow> dtls_sys" where
  "set_phase c ph s =
     s\<lparr>dy_threads := map (\<lambda>t. if th_chan t = c then t\<lparr>th_phase := ph\<rparr> else t) (dy_threads s)\<rparr>"

definition thread_unmap :: "conn_thread \<Rightarrow> dtls_sys \<Rightarrow> dtls_sys" where
  "thread_unmap t s =
     set_phase (th_chan t) Unmapped (s\<lparr>dy_conns := hm_remove (th_peer t) (dy_conns s)\<rparr>)"

definition thread_finish :: "conn_thread \<Rightarrow> dtls_sys \<Rightarrow> dtls_sys" where
  "thread_finish t s = s\<lparr>dy_threads := remove1 t (dy_threads s),
     dy_counts := permit_drop (th_permit t) (dy_counts s)\<rparr>"

text \<open>
  The interleaving. \<open>le_drained\<close> positive: \<open>DTLSv1_listen\<close> reads the datagram it was called for,
  as its documentation and the comment at the call say.
\<close>

inductive dtls_step :: "conn_quota \<Rightarrow> dtls_sys \<Rightarrow> dtls_sys \<Rightarrow> bool" for q where
  datagram: "0 < le_drained env \<Longrightarrow> dtls_step q s (listen_datagram q env source dgram s)"
| taken: "t \<in> set (dy_threads s) \<Longrightarrow> th_phase t = Serving \<Longrightarrow> dy_chans s (th_chan t) = d # rest \<Longrightarrow>
    dtls_step q s (s\<lparr>dy_chans := (dy_chans s)(th_chan t := rest)\<rparr>)"
| returned: "t \<in> set (dy_threads s) \<Longrightarrow> th_phase t = Serving \<Longrightarrow>
    dtls_step q s (set_phase (th_chan t) Returned s)"
| unmapped: "t \<in> set (dy_threads s) \<Longrightarrow> th_phase t = Returned \<Longrightarrow>
    dtls_step q s (thread_unmap t s)"
| finished: "t \<in> set (dy_threads s) \<Longrightarrow> th_phase t = Unmapped \<Longrightarrow>
    dtls_step q s (thread_finish t s)"
| panicked: "t \<in> set (dy_threads s) \<Longrightarrow> th_phase t = Serving \<Longrightarrow>
    dtls_step q s (set_phase (th_chan t) Unwinding s)"
| unwound: "t \<in> set (dy_threads s) \<Longrightarrow> th_phase t = Unwinding \<Longrightarrow>
    dtls_step q s (thread_finish t s)"

inductive_cases dtls_stepE: "dtls_step q s s'"

abbreviation dtls_reachable :: "conn_quota \<Rightarrow> dtls_sys \<Rightarrow> bool" where
  "dtls_reachable q s \<equiv> rtranclp (dtls_step q) dtls_init s"

section \<open>What one round does\<close>

lemma demux_frame:
  assumes "demux peer d s = (b, s1)"
  shows "dy_threads s1 = dy_threads s" "dy_counts s1 = dy_counts s" "dy_pending s1 = dy_pending s"
    "dy_next s1 = dy_next s"
    "dy_conns s1 = dy_conns s \<or> dy_conns s1 = hm_remove peer (dy_conns s)"
    "dy_chans s1 = dy_chans s \<or> (\<exists>c. hm_get (dy_conns s) peer = Some c \<and> receiver_alive s c
       \<and> length (dy_chans s c) < CONN_CHANNEL_DEPTH
       \<and> dy_chans s1 = (dy_chans s)(c := dy_chans s c @ [d]))"
  using assms
  by (auto simp: demux_def try_send_def split: option.splits try_send.splits if_splits)

lemma pending_listen_frame:
  assumes "pending_listen ok s = Some (c, s2)"
  shows "dy_threads s2 = dy_threads s" "dy_counts s2 = dy_counts s" "dy_conns s2 = dy_conns s"
    "dy_chans s2 = dy_chans s" "dy_pending s2 = Some c"
    "dy_pending s = Some c \<and> s2 = s \<or> dy_pending s = None \<and> c = dy_next s \<and> dy_next s2 = Suc c"
  using assms by (auto simp: pending_listen_def split: option.splits if_splits)

lemmas listen_frames = demux_frame pending_listen_frame

text \<open>The outcomes of a round, as the state after the lookup continues.\<close>

definition accepts :: "listen_env \<Rightarrow> bool" where
  "accepts env \<longleftrightarrow> (\<exists>p. le_listen env = Inr (Accepted p))"

lemma listen_datagram_cases:
  assumes "listen_datagram q env source d s = s'"
  obtains (kept) b where "demux (canonical_peer source) d s = (b, s')"
  | (listened) s1 c s2 chans pend where "demux (canonical_peer source) d s = (False, s1)"
      "pending_listen (le_setup_ok env) s1 = Some (c, s2)"
      "s' = s2\<lparr>dy_chans := chans, dy_pending := pend\<rparr>" "pend = None \<or> pend = dy_pending s2"
      "chans = dy_chans s2 \<and> pend = None
       \<or> chans = (dy_chans s2)(c := drop (le_drained env) (dy_chans s2 c @ [d]))"
  | (promoted) s1 c s2 permit counts where "demux (canonical_peer source) d s = (False, s1)"
      "pending_listen (le_setup_ok env) s1 = Some (c, s2)" "accepts env"
      "\<not> is_full q (dy_counts s)"
      "try_acquire q (sa_ip (canonical_peer source)) (dy_counts s) = (Some permit, counts)"
      "s' = promote_connection (le_spawn_ok env) c permit (canonical_peer source)
        (s2\<lparr>dy_chans := (dy_chans s2)(c := drop (le_drained env) (dy_chans s2 c @ [d])),
           dy_pending := None, dy_counts := counts\<rparr>)"
proof -
  let ?peer = "canonical_peer source"
  obtain b s1 where d: "demux ?peer d s = (b, s1)" by fastforce
  show thesis
  proof (cases "b \<or> is_full q (dy_counts s1) \<or> pending_listen (le_setup_ok env) s1 = None")
    case True
    with assms d have "s' = s1" by (auto simp: listen_datagram_def Let_def split: bool.splits)
    with d kept show ?thesis by blast
  next
    case False
    then obtain c s2 where p: "pending_listen (le_setup_ok env) s1 = Some (c, s2)" by auto
    from False d have d': "demux ?peer d s = (False, s1)" by simp
    note frame = listened [OF d' p]
    have c1: "dy_counts s2 = dy_counts s" "dy_counts s1 = dy_counts s"
      using demux_frame(2) [OF d'] pending_listen_frame(2) [OF p] by simp_all
    show ?thesis
    proof (cases "try_send True (dy_chans s2 c) d")
      case (Sent queue)
      then have q: "queue = dy_chans s2 c @ [d]" by (auto simp: try_send_def split: if_splits)
      let ?chans = "(dy_chans s2)(c := drop (le_drained env) (dy_chans s2 c @ [d]))"
      show ?thesis
      proof (cases "\<exists>permit counts p. le_listen env = Inr (Accepted p)
          \<and> try_acquire q (sa_ip ?peer) (dy_counts s) = (Some permit, counts)")
        case True
        then obtain permit counts p where acc: "le_listen env = Inr (Accepted p)"
          "try_acquire q (sa_ip ?peer) (dy_counts s) = (Some permit, counts)" by blast
        show ?thesis
          by (rule promoted [OF d' p _ _ acc(2)])
            (use assms False d' p Sent q acc c1 in
              \<open>auto simp: listen_datagram_def accepts_def Let_def\<close>)
      next
        case False2: False
        have "s' = s2\<lparr>dy_chans := ?chans, dy_pending := None\<rparr>
            \<or> s' = s2\<lparr>dy_chans := ?chans, dy_pending := dy_pending s2\<rparr>"
          using assms False False2 d' p Sent q c1
          by (auto simp: listen_datagram_def Let_def
              split: sum.splits listen_outcome.splits option.splits prod.splits)
        then show ?thesis using frame by blast
      qed
    next
      case Full
      with assms False d' p have "s' = s2\<lparr>dy_chans := dy_chans s2, dy_pending := None\<rparr>"
        by (auto simp: listen_datagram_def Let_def)
      then show ?thesis using frame by blast
    next
      case Disconnected
      then show ?thesis by (simp add: try_send_def split: if_splits)
    qed
  qed
qed

text \<open>A datagram touches no entry but its own source's.\<close>

lemma listen_keeps_others:
  assumes "canonical_peer source \<noteq> p"
  shows "hm_get (dy_conns (listen_datagram q env source d s)) p = hm_get (dy_conns s) p"
proof (rule listen_datagram_cases [of q env source d s, OF refl])
  fix b assume "demux (canonical_peer source) d s = (b, listen_datagram q env source d s)"
  from demux_frame(5) [OF this] assms show ?thesis by (auto simp: table_simps)
next
  fix s1 c s2 chans pend
  assume "demux (canonical_peer source) d s = (False, s1)"
    and "pending_listen (le_setup_ok env) s1 = Some (c, s2)"
    and "listen_datagram q env source d s = s2\<lparr>dy_chans := chans, dy_pending := pend\<rparr>"
  from demux_frame(5) [OF this(1)] pending_listen_frame(3) [OF this(2)] this(3) assms
  show ?thesis by (auto simp: table_simps)
next
  fix s1 c s2 permit counts
  assume "demux (canonical_peer source) d s = (False, s1)"
    and "pending_listen (le_setup_ok env) s1 = Some (c, s2)"
    and "listen_datagram q env source d s
      = promote_connection (le_spawn_ok env) c permit (canonical_peer source)
        (s2\<lparr>dy_chans := (dy_chans s2)(c := drop (le_drained env) (dy_chans s2 c @ [d])),
           dy_pending := None, dy_counts := counts\<rparr>)"
  from demux_frame(5) [OF this(1)] pending_listen_frame(3) [OF this(2)] this(3) assms
  show ?thesis by (auto simp: promote_connection_def Let_def table_simps)
qed

section \<open>The invariant of the listener\<close>

text \<open>
  Channels are owned once; the pending one and those not yet made are empty; a map entry leads to
  a thread of that peer which has not removed it yet, or is stale: its thread panicked and its
  channel has lost its receiver for good; a permit is the one of its thread's source.
\<close>

definition chans_ok :: "dtls_sys \<Rightarrow> bool" where
  "chans_ok s \<longleftrightarrow> distinct (map th_chan (dy_threads s))
     \<and> (\<forall>t \<in> set (dy_threads s). th_chan t < dy_next s \<and> dy_pending s \<noteq> Some (th_chan t))
     \<and> (\<forall>c. dy_pending s = Some c \<longrightarrow> c < dy_next s \<and> dy_chans s c = [])
     \<and> (\<forall>c \<ge> dy_next s. dy_chans s c = [])"

definition stale :: "dtls_sys \<Rightarrow> channel \<Rightarrow> bool" where
  "stale s c \<longleftrightarrow> c < dy_next s \<and> dy_pending s \<noteq> Some c \<and> (\<forall>t \<in> set (dy_threads s). th_chan t \<noteq> c)"

definition entry_ok :: "dtls_sys \<Rightarrow> socket_addr \<Rightarrow> channel \<Rightarrow> bool" where
  "entry_ok s p c \<longleftrightarrow> canonical_peer p = p \<and> (stale s c
     \<or> (\<exists>t \<in> set (dy_threads s). th_chan t = c \<and> th_peer t = p \<and> th_phase t \<noteq> Unmapped))"

definition entries_ok :: "dtls_sys \<Rightarrow> bool" where
  "entries_ok s \<longleftrightarrow> hm_ok (dy_conns s)
     \<and> (\<forall>p c. hm_get (dy_conns s) p = Some c \<longrightarrow> entry_ok s p c)
     \<and> (\<forall>t \<in> set (dy_threads s). th_permit t = ConnPermit (bucket (sa_ip (th_peer t))))
     \<and> (\<forall>c. length (dy_chans s c) \<le> CONN_CHANNEL_DEPTH)"

definition dtls_inv :: "dtls_sys \<Rightarrow> bool" where
  "dtls_inv s \<longleftrightarrow> chans_ok s \<and> entries_ok s"

lemma dtls_inv_init: "dtls_inv dtls_init"
  by (simp add: dtls_inv_def chans_ok_def entries_ok_def dtls_init_def)

lemma demux_inv:
  assumes inv: "dtls_inv s" and d: "demux peer d s = (b, s1)"
  shows "dtls_inv s1"
proof -
  note f = demux_frame [OF d]
  have "dy_chans s1 c = []" if "dy_chans s c = []" "dy_pending s = Some c \<or> dy_next s \<le> c" for c
  proof -
    have "hm_get (dy_conns s) peer \<noteq> Some c"
      using inv that(2) by (fastforce simp: dtls_inv_def chans_ok_def entries_ok_def entry_ok_def stale_def)
    with f(6) that(1) show ?thesis by auto
  qed
  then have "chans_ok s1" using inv f(1,3,4) by (auto simp: dtls_inv_def chans_ok_def)
  moreover have len: "length (dy_chans s1 c) \<le> CONN_CHANNEL_DEPTH" for c
    using inv f(6) by (auto simp: dtls_inv_def entries_ok_def)
  have "entry_ok s1 = entry_ok s" by (simp add: fun_eq_iff entry_ok_def stale_def f(1,3,4))
  with len have "entries_ok s1"
    using inv f(1,5) by (auto simp: dtls_inv_def entries_ok_def table_simps split: if_splits)
  ultimately show ?thesis by (simp add: dtls_inv_def)
qed

lemma pending_listen_inv:
  assumes inv: "dtls_inv s" and p: "pending_listen ok s = Some (c, s2)"
  shows "dtls_inv s2" and "dy_pending s2 = Some c" and "dy_chans s2 c = []"
    and "\<forall>t \<in> set (dy_threads s2). th_chan t \<noteq> c"
proof -
  note f = pending_listen_frame [OF p]
  show "dy_pending s2 = Some c" by (fact f(5))
  have "chans_ok s2"
    using inv f by (fastforce simp: dtls_inv_def chans_ok_def)
  moreover have "entry_ok s2 p c'" if "entry_ok s p c'" for p c'
    using that f(1,5,6) by (auto simp: entry_ok_def stale_def)
  then have "entries_ok s2" using inv f(1-4) by (simp add: dtls_inv_def entries_ok_def)
  ultimately show "dtls_inv s2" by (simp add: dtls_inv_def)
  then show "dy_chans s2 c = []" and "\<forall>t \<in> set (dy_threads s2). th_chan t \<noteq> c"
    using f(5) by (auto simp: dtls_inv_def chans_ok_def)
qed

lemma listened_inv:
  assumes "dtls_inv s2" and "dy_pending s2 = Some c" and "pend = None \<or> pend = dy_pending s2"
    and "chans = dy_chans s2 \<or> chans = (dy_chans s2)(c := [])"
  shows "dtls_inv (s2\<lparr>dy_chans := chans, dy_pending := pend\<rparr>)"
proof -
  let ?s = "s2\<lparr>dy_chans := chans, dy_pending := pend\<rparr>"
  have "entry_ok ?s p c" if "entry_ok s2 p c" for p c
    using that assms(3) by (auto simp: entry_ok_def stale_def)
  then have "entries_ok ?s" using assms(1,4) by (auto simp: dtls_inv_def entries_ok_def)
  moreover have "chans_ok ?s" using assms by (auto simp: dtls_inv_def chans_ok_def)
  ultimately show ?thesis by (simp add: dtls_inv_def)
qed

lemma promote_connection_inv:
  assumes "dtls_inv s" and "dy_pending s = None" and "\<forall>t \<in> set (dy_threads s). th_chan t \<noteq> c"
    and "c < dy_next s" and "permit = ConnPermit (bucket (sa_ip peer))"
    and "canonical_peer peer = peer" and "\<forall>p. hm_get (dy_conns s) p \<noteq> Some c"
  shows "dtls_inv (promote_connection spawn_ok c permit peer s)"
proof -
  let ?s = "promote_connection spawn_ok c permit peer s"
  have "entry_ok ?s p c'" if g: "hm_get (dy_conns ?s) p = Some c'" for p c'
  proof (cases "p = peer")
    case True
    with g assms(6) show ?thesis
      by (auto simp: promote_connection_def entry_ok_def Let_def table_simps split: if_splits)
  next
    case False
    with g have g': "hm_get (dy_conns s) p = Some c'"
      by (auto simp: promote_connection_def Let_def table_simps split: if_splits)
    with assms(7) have "c' \<noteq> c" by blast
    moreover have "entry_ok s p c'" using assms(1) g' by (simp add: dtls_inv_def entries_ok_def)
    ultimately show ?thesis
      by (auto simp: promote_connection_def entry_ok_def stale_def Let_def)
  qed
  then have "entries_ok ?s"
    using assms(1,5)
    by (auto simp: dtls_inv_def entries_ok_def promote_connection_def Let_def table_simps split: if_splits)
  moreover have "chans_ok ?s"
    using assms(1-4) by (auto simp: dtls_inv_def chans_ok_def promote_connection_def Let_def)
  ultimately show ?thesis by (simp add: dtls_inv_def)
qed

lemma acquired_permit:
  "try_acquire q ip c = (Some p, c') \<Longrightarrow> p = ConnPermit (bucket ip)"
  by (auto simp: try_acquire_def Let_def split: if_splits)

lemma listen_datagram_inv:
  assumes inv: "dtls_inv s" and dr: "0 < le_drained env"
  shows "dtls_inv (listen_datagram q env source d s)"
proof (rule listen_datagram_cases [of q env source d s, OF refl])
  fix b assume "demux (canonical_peer source) d s = (b, listen_datagram q env source d s)"
  with inv show ?thesis by (rule demux_inv)
next
  fix s1 c s2 chans pend
  assume d: "demux (canonical_peer source) d s = (False, s1)"
    and p: "pending_listen (le_setup_ok env) s1 = Some (c, s2)"
    and s': "listen_datagram q env source d s = s2\<lparr>dy_chans := chans, dy_pending := pend\<rparr>"
    and pend: "pend = None \<or> pend = dy_pending s2"
    and ch: "chans = dy_chans s2 \<and> pend = None
      \<or> chans = (dy_chans s2)(c := drop (le_drained env) (dy_chans s2 c @ [d]))"
  note pi = pending_listen_inv [OF demux_inv [OF inv d] p]
  show ?thesis
    unfolding s' using ch pi(3) dr by (intro listened_inv [OF pi(1,2) pend]) auto
next
  fix s1 c s2 permit counts
  assume d: "demux (canonical_peer source) d s = (False, s1)"
    and p: "pending_listen (le_setup_ok env) s1 = Some (c, s2)"
    and t: "try_acquire q (sa_ip (canonical_peer source)) (dy_counts s) = (Some permit, counts)"
    and s': "listen_datagram q env source d s
      = promote_connection (le_spawn_ok env) c permit (canonical_peer source)
        (s2\<lparr>dy_chans := (dy_chans s2)(c := drop (le_drained env) (dy_chans s2 c @ [d])),
           dy_pending := None, dy_counts := counts\<rparr>)"
  note pi = pending_listen_inv [OF demux_inv [OF inv d] p]
  let ?s3 = "s2\<lparr>dy_chans := (dy_chans s2)(c := drop (le_drained env) (dy_chans s2 c @ [d])),
    dy_pending := None\<rparr>"
  have s3: "dtls_inv ?s3" using pi(3) dr by (intro listened_inv [OF pi(1,2)]) auto
  then have "dtls_inv (?s3\<lparr>dy_counts := counts\<rparr>)"
    by (simp add: dtls_inv_def chans_ok_def entries_ok_def entry_ok_def stale_def)
  moreover have "hm_get (dy_conns s2) p \<noteq> Some c" for p
    using pi(1,2,4) by (auto simp: dtls_inv_def entries_ok_def entry_ok_def stale_def)
  ultimately have "dtls_inv (promote_connection (le_spawn_ok env) c permit (canonical_peer source)
      (?s3\<lparr>dy_counts := counts\<rparr>))"
    using pi(1,2,4) acquired_permit [OF t] canonical_peer_idem
    by (intro promote_connection_inv) (auto simp: dtls_inv_def chans_ok_def)
  then show ?thesis by (simp add: s')
qed

lemma set_phase_threads:
  "dy_threads (set_phase c ph s)
    = map (\<lambda>t. if th_chan t = c then t\<lparr>th_phase := ph\<rparr> else t) (dy_threads s)"
  by (simp add: set_phase_def)

lemma set_phase_keys [simp]:
  "map th_chan (dy_threads (set_phase c ph s)) = map th_chan (dy_threads s)"
  "map th_permit (dy_threads (set_phase c ph s)) = map th_permit (dy_threads s)"
  "dy_conns (set_phase c ph s) = dy_conns s" "dy_chans (set_phase c ph s) = dy_chans s"
  "dy_pending (set_phase c ph s) = dy_pending s" "dy_next (set_phase c ph s) = dy_next s"
  "dy_counts (set_phase c ph s) = dy_counts s"
  by (auto simp: set_phase_def comp_def if_distrib cong: if_cong)

lemma set_phase_chans_ok [simp]: "chans_ok (set_phase c ph s) \<longleftrightarrow> chans_ok s"
proof -
  have "(\<forall>t \<in> set (dy_threads (set_phase c ph s)). P (th_chan t))
      \<longleftrightarrow> (\<forall>t \<in> set (dy_threads s). P (th_chan t))" for P
    unfolding set_phase_threads list.set_map ball_simps(9) by (intro ball_cong refl) simp
  note all = this [of "\<lambda>d. d < dy_next s \<and> dy_pending s \<noteq> Some d"]
  show ?thesis
    unfolding chans_ok_def set_phase_keys all ..
qed

lemma same_chan_same_thread:
  "chans_ok s \<Longrightarrow> t \<in> set (dy_threads s) \<Longrightarrow> t' \<in> set (dy_threads s) \<Longrightarrow> th_chan t = th_chan t'
    \<Longrightarrow> t = t'"
  unfolding chans_ok_def by (metis distinct_map inj_on_def)

lemma set_phase_stale [simp]: "stale (set_phase c ph s) c' \<longleftrightarrow> stale s c'"
proof -
  have "(\<forall>t \<in> set (dy_threads u). th_chan t \<noteq> c') \<longleftrightarrow> c' \<notin> set (map th_chan (dy_threads u))" for u
    by auto
  note all = this [of "set_phase c ph s"] this [of s]
  show ?thesis unfolding stale_def all set_phase_keys ..
qed

lemma set_phase_entries_ok:
  assumes e: "entries_ok s" and ph: "ph \<noteq> Unmapped \<or> (\<forall>p. hm_get (dy_conns s) p \<noteq> Some c)"
  shows "entries_ok (set_phase c ph s)"
proof -
  have mem: "(if th_chan t = c then t\<lparr>th_phase := ph\<rparr> else t) \<in> set (dy_threads (set_phase c ph s))"
    if "t \<in> set (dy_threads s)" for t
    using that unfolding set_phase_threads by simp
  have "entry_ok (set_phase c ph s) p c'" if g: "hm_get (dy_conns s) p = Some c'" for p c'
  proof (cases "stale s c'")
    case True
    with e g show ?thesis by (simp add: entries_ok_def entry_ok_def)
  next
    case False
    with e g obtain t where t: "t \<in> set (dy_threads s)" "th_chan t = c'" "th_peer t = p"
      "th_phase t \<noteq> Unmapped" and p: "canonical_peer p = p" unfolding entries_ok_def entry_ok_def by blast
    have "\<exists>t \<in> set (dy_threads (set_phase c ph s)). th_chan t = c' \<and> th_peer t = p
        \<and> th_phase t \<noteq> Unmapped"
    proof (cases "c' = c")
      case True
      with ph g have "ph \<noteq> Unmapped" by blast
      with t True mem [OF t(1)] show ?thesis by (intro bexI [of _ "t\<lparr>th_phase := ph\<rparr>"]) auto
    next
      case False
      with t mem [OF t(1)] show ?thesis by (intro bexI [of _ t]) auto
    qed
    with p show ?thesis by (simp add: entry_ok_def)
  qed
  moreover have "\<forall>t \<in> set (dy_threads (set_phase c ph s)).
      th_permit t = ConnPermit (bucket (sa_ip (th_peer t)))"
    unfolding set_phase_threads list.set_map ball_simps(9)
    using e by (intro ballI) (simp add: entries_ok_def)
  ultimately show ?thesis using e unfolding entries_ok_def set_phase_keys by blast
qed

text \<open>An entry to the channel of a thread is the entry of that thread's peer.\<close>

lemma entry_of_thread:
  assumes inv: "dtls_inv s" and t: "t \<in> set (dy_threads s)" and g: "hm_get (dy_conns s) p = Some (th_chan t)"
  shows "th_peer t = p" and "th_phase t \<noteq> Unmapped"
proof -
  have "\<not> stale s (th_chan t)" using t by (auto simp: stale_def)
  with inv g obtain t' where t': "t' \<in> set (dy_threads s)" "th_chan t' = th_chan t" "th_peer t' = p"
    "th_phase t' \<noteq> Unmapped" unfolding dtls_inv_def entries_ok_def entry_ok_def by blast
  moreover have "chans_ok s" using inv by (simp add: dtls_inv_def)
  ultimately have "t' = t" using same_chan_same_thread t by blast
  with t' show "th_peer t = p" "th_phase t \<noteq> Unmapped" by blast+
qed

lemma thread_unmap_inv:
  assumes inv: "dtls_inv s" and t: "t \<in> set (dy_threads s)"
  shows "dtls_inv (thread_unmap t s)"
proof -
  let ?s0 = "s\<lparr>dy_conns := hm_remove (th_peer t) (dy_conns s)\<rparr>"
  have "chans_ok ?s0" using inv by (simp add: dtls_inv_def chans_ok_def)
  moreover have "entry_ok ?s0 = entry_ok s" by (simp add: fun_eq_iff entry_ok_def stale_def)
  then have "entries_ok ?s0"
    using inv by (auto simp: dtls_inv_def entries_ok_def table_simps split: if_splits)
  moreover have "hm_get (dy_conns ?s0) p \<noteq> Some (th_chan t)" for p
  proof
    assume "hm_get (dy_conns ?s0) p = Some (th_chan t)"
    then have "hm_get (dy_conns s) p = Some (th_chan t)" "p \<noteq> th_peer t"
      by (auto simp: table_simps split: if_splits)
    with entry_of_thread(1) [OF inv t] show False by blast
  qed
  ultimately show ?thesis
    by (simp add: dtls_inv_def thread_unmap_def set_phase_entries_ok)
qed

text \<open>A thread that is gone leaves at most a stale entry behind.\<close>

lemma thread_finish_inv:
  assumes inv: "dtls_inv s" and t: "t \<in> set (dy_threads s)"
  shows "dtls_inv (thread_finish t s)"
proof -
  let ?ts = "remove1 t (dy_threads s)"
  have sub: "set ?ts \<subseteq> set (dy_threads s)" by (rule set_remove1_subset)
  have d: "distinct (map th_chan ?ts)"
    using inv sub unfolding dtls_inv_def chans_ok_def distinct_map
    by (meson distinct_remove1 inj_on_subset)
  have ok: "chans_ok s" using inv by (simp add: dtls_inv_def)
  have "chans_ok (thread_finish t s)"
    using inv d sub unfolding dtls_inv_def chans_ok_def thread_finish_def by auto
  moreover have "distinct (dy_threads s)" using ok by (auto simp: chans_ok_def distinct_map)
  then have ts: "set ?ts = set (dy_threads s) - {t}" by (rule set_remove1_eq)
  have "stale (thread_finish t s) (th_chan t)"
    using ok t same_chan_same_thread [OF ok _ t] by (auto simp: stale_def thread_finish_def ts chans_ok_def)
  then have "entry_ok (thread_finish t s) p c" if "entry_ok s p c" for p c
    using that ts by (auto simp: entry_ok_def stale_def thread_finish_def)
  then have "entries_ok (thread_finish t s)"
    using inv sub unfolding dtls_inv_def entries_ok_def thread_finish_def by auto
  ultimately show ?thesis by (simp add: dtls_inv_def)
qed

lemma taken_inv:
  assumes inv: "dtls_inv s" and t: "t \<in> set (dy_threads s)" "dy_chans s (th_chan t) = d # rest"
  shows "dtls_inv (s\<lparr>dy_chans := (dy_chans s)(th_chan t := rest)\<rparr>)"
proof -
  have "th_chan t < dy_next s" "dy_pending s \<noteq> Some (th_chan t)"
    using t inv by (auto simp: dtls_inv_def chans_ok_def)
  moreover have "length (dy_chans s (th_chan t)) \<le> CONN_CHANNEL_DEPTH"
    using inv by (simp add: dtls_inv_def entries_ok_def)
  ultimately show ?thesis
    using inv t(2) by (simp add: dtls_inv_def chans_ok_def entries_ok_def entry_ok_def stale_def)
qed

lemma dtls_step_inv:
  assumes "dtls_step q s s'" and inv: "dtls_inv s"
  shows "dtls_inv s'"
  using assms(1)
proof cases
  case (returned t)
  have "entries_ok s" "chans_ok s" using inv by (simp_all add: dtls_inv_def)
  with returned(1) show ?thesis by (simp add: dtls_inv_def set_phase_entries_ok)
next
  case (panicked t)
  have "entries_ok s" "chans_ok s" using inv by (simp_all add: dtls_inv_def)
  with panicked(1) show ?thesis by (simp add: dtls_inv_def set_phase_entries_ok)
qed (use inv in \<open>auto intro: listen_datagram_inv taken_inv thread_unmap_inv thread_finish_inv\<close>)

lemma dtls_reachable_inv: "dtls_reachable q s \<Longrightarrow> dtls_inv s"
  by (induction rule: rtranclp_induct) (auto intro: dtls_inv_init dtls_step_inv)

section \<open>The books of the listener\<close>

definition live_permits :: "dtls_sys \<Rightarrow> conn_permit multiset" where
  "live_permits s = mset (map th_permit (dy_threads s))"

lemma listen_datagram_books:
  "keeps_books q (dy_counts s) (live_permits s) (dy_counts (listen_datagram q env source d s))
    (live_permits (listen_datagram q env source d s))"
proof (rule listen_datagram_cases [of q env source d s, OF refl])
  fix b' assume "demux (canonical_peer source) d s = (b', listen_datagram q env source d s)"
  from demux_frame(1,2) [OF this] show ?thesis by (simp add: live_permits_def)
next
  fix s1 c s2 chans pend
  assume "demux (canonical_peer source) d s = (False, s1)"
    and "pending_listen (le_setup_ok env) s1 = Some (c, s2)"
    and "listen_datagram q env source d s = s2\<lparr>dy_chans := chans, dy_pending := pend\<rparr>"
  then show ?thesis by (simp add: live_permits_def listen_frames(1,2,7,8))
next
  fix s1 c s2 permit counts
  assume d: "demux (canonical_peer source) d s = (False, s1)"
    and p: "pending_listen (le_setup_ok env) s1 = Some (c, s2)"
    and t: "try_acquire q (sa_ip (canonical_peer source)) (dy_counts s) = (Some permit, counts)"
    and s': "listen_datagram q env source d s
      = promote_connection (le_spawn_ok env) c permit (canonical_peer source)
        (s2\<lparr>dy_chans := (dy_chans s2)(c := drop (le_drained env) (dy_chans s2 c @ [d])),
           dy_pending := None, dy_counts := counts\<rparr>)"
  have th: "dy_threads s2 = dy_threads s"
    using demux_frame(1) [OF d] pending_listen_frame(1) [OF p] by simp
  show ?thesis
    using keeps_books_acquire [OF t] keeps_books_undone [OF t]
    by (simp add: s' promote_connection_def live_permits_def th Let_def)
qed

lemma thread_finish_books:
  assumes "t \<in> set (dy_threads s)"
  shows "keeps_books q (dy_counts s) (live_permits s) (dy_counts (thread_finish t s))
    (live_permits (thread_finish t s))"
proof -
  have "th_permit t \<in># live_permits s" using assms by (simp add: live_permits_def)
  from keeps_books_drop [OF this, of q "dy_counts s"] show ?thesis
    using assms by (simp add: thread_finish_def live_permits_def image_mset_Diff)
qed

lemma dtls_step_books:
  assumes "dtls_step q s s'"
  shows "keeps_books q (dy_counts s) (live_permits s) (dy_counts s') (live_permits s')"
  using assms
proof cases
  case (datagram env source dgram)
  with listen_datagram_books show ?thesis by simp
next
  case (finished t)
  from thread_finish_books [OF finished(2)] finished(1) show ?thesis by simp
next
  case (unwound t)
  from thread_finish_books [OF unwound(2)] unwound(1) show ?thesis by simp
qed (auto simp: live_permits_def thread_unmap_def simp del: mset_map)

lemma dtls_reachable_booked: "dtls_reachable q s \<Longrightarrow> booked q (dy_counts s) (live_permits s)"
proof (induction rule: rtranclp_induct)
  case base
  show ?case by (simp add: dtls_init_def live_permits_def booked_new)
qed (blast intro: keeps_booksD dtls_step_books)

text \<open>
  Every connection can end: its thread returns, removes the map entry and drops the permit,
  whatever the others do meanwhile. Without threads only stale entries are left, and the next
  datagram of its peer reaps each.
\<close>

lemma dtls_thread_ends:
  assumes "t \<in> set (dy_threads s)"
  shows "\<exists>s'. rtranclp (dtls_step q) s s' \<and> length (dy_threads s') < length (dy_threads s)"
proof -
  have finish: "\<exists>s'. rtranclp (dtls_step q) s s' \<and> length (dy_threads s') < length (dy_threads s)"
    if "t \<in> set (dy_threads s)" "th_phase t = Unmapped \<or> th_phase t = Unwinding" for t s
  proof (intro exI conjI)
    show "rtranclp (dtls_step q) s (thread_finish t s)"
      using that by (auto intro: dtls_step.finished dtls_step.unwound)
    show "length (dy_threads (thread_finish t s)) < length (dy_threads s)"
      using that length_pos_if_in_set [OF that(1)] by (simp add: thread_finish_def length_remove1)
  qed
  have unmap: "\<exists>s'. rtranclp (dtls_step q) s s' \<and> length (dy_threads s') < length (dy_threads s)"
    if t: "t \<in> set (dy_threads s)" "th_phase t = Returned" for t s
  proof -
    have "t\<lparr>th_phase := Unmapped\<rparr> \<in> set (dy_threads (thread_unmap t s))"
      using t(1) by (auto simp: thread_unmap_def set_phase_def intro!: image_eqI [of _ _ t])
    from finish [OF this] have "\<exists>s'. rtranclp (dtls_step q) (thread_unmap t s) s'
        \<and> length (dy_threads s') < length (dy_threads s)"
      by (simp add: thread_unmap_def set_phase_def)
    with dtls_step.unmapped [OF t, of q] show ?thesis by (blast intro: converse_rtranclp_into_rtranclp)
  qed
  show ?thesis
  proof (cases "th_phase t")
    case Serving
    have "t\<lparr>th_phase := Returned\<rparr> \<in> set (dy_threads (set_phase (th_chan t) Returned s))"
      using assms by (auto simp: set_phase_def intro!: image_eqI [of _ _ t])
    from unmap [OF this] have "\<exists>s'. rtranclp (dtls_step q) (set_phase (th_chan t) Returned s) s'
        \<and> length (dy_threads s') < length (dy_threads s)" by (simp add: set_phase_def)
    with dtls_step.returned [OF assms Serving, of q] show ?thesis
      by (blast intro: converse_rtranclp_into_rtranclp)
  qed (use assms finish unmap in auto)
qed

lemma dtls_threads_end: "\<exists>s'. rtranclp (dtls_step q) s s' \<and> dy_threads s' = []"
proof (induction s rule: measure_induct_rule [of "\<lambda>s. length (dy_threads s)"])
  case (less s)
  show ?case
  proof (cases "dy_threads s")
    case (Cons t ts)
    then obtain s1 where "rtranclp (dtls_step q) s s1" "length (dy_threads s1) < length (dy_threads s)"
      using dtls_thread_ends [of t s q] by auto
    with less.IH [of s1] show ?thesis by (blast intro: rtranclp_trans)
  qed blast
qed

lemma stale_disconnected: "stale s c \<Longrightarrow> \<not> receiver_alive s c"
  by (auto simp: stale_def receiver_alive_def)

text \<open>A round in which nothing verifies: what is left of a reaped entry is a datagram like any other.\<close>

definition idle_env :: listen_env where
  "idle_env = \<lparr>le_setup_ok = False, le_drained = 1, le_listen = Inr Retry, le_spawn_ok = False\<rparr>"

lemma stale_reaped:
  assumes inv: "dtls_inv s" and g: "hm_get (dy_conns s) p = Some c" and st: "stale s c"
  shows "dy_conns (listen_datagram q idle_env p d s) = hm_remove p (dy_conns s)"
    and "dy_threads (listen_datagram q idle_env p d s) = dy_threads s"
proof -
  have p: "canonical_peer p = p" using inv g by (auto simp: dtls_inv_def entries_ok_def entry_ok_def)
  let ?s1 = "s\<lparr>dy_conns := hm_remove p (dy_conns s)\<rparr>"
  have d: "demux p d s = (False, ?s1)"
    using g stale_disconnected [OF st] by (simp add: demux_def try_send_def)
  have "dy_conns (listen_datagram q idle_env p d s) = hm_remove p (dy_conns s)
    \<and> dy_threads (listen_datagram q idle_env p d s) = dy_threads s"
    by (simp add: listen_datagram_def p d idle_env_def pending_listen_def Let_def
        split: option.split try_send.split)
  then show "dy_conns (listen_datagram q idle_env p d s) = hm_remove p (dy_conns s)"
    "dy_threads (listen_datagram q idle_env p d s) = dy_threads s" by simp_all
qed

lemma dtls_inv_no_threads:
  assumes "dtls_inv s" and "dy_threads s = []" and "hm_get (dy_conns s) p = Some c"
  shows "stale s c"
  using assms by (auto simp: dtls_inv_def entries_ok_def entry_ok_def)

lemma dtls_all_reaped:
  "dtls_inv s \<Longrightarrow> dy_threads s = [] \<Longrightarrow>
    \<exists>s'. rtranclp (dtls_step q) s s' \<and> dy_threads s' = [] \<and> dy_conns s' = []"
proof (induction s rule: measure_induct_rule [of "\<lambda>s. hm_len (dy_conns s)"])
  case (less s)
  show ?case
  proof (cases "\<exists>p c. hm_get (dy_conns s) p = Some c")
    case False
    then have "dy_conns s = []" using hm_all_None by fastforce
    with less.prems(2) show ?thesis by blast
  next
    case True
    then obtain p c where g: "hm_get (dy_conns s) p = Some c" by blast
    let ?s1 = "listen_datagram q idle_env p [] s"
    have step: "dtls_step q s ?s1" by (rule dtls_step.datagram) (simp add: idle_env_def)
    note r = stale_reaped [OF less.prems(1) g dtls_inv_no_threads [OF less.prems g], of q "[]"]
    have "hm_len (dy_conns ?s1) < hm_len (dy_conns s)"
      using less.prems(1) g hm.len_pos [of "dy_conns s" p c]
      by (auto simp: r(1) hm.len_remove dtls_inv_def entries_ok_def)
    from less.IH [OF this dtls_step_inv [OF step less.prems(1)]] r(2) less.prems(2) step show ?thesis
      by (auto intro: converse_rtranclp_into_rtranclp)
  qed
qed

lemma dtls_winds_down:
  assumes "dtls_inv s"
  shows "\<exists>s'. rtranclp (dtls_step q) s s' \<and> dy_threads s' = [] \<and> dy_conns s' = []"
proof -
  obtain s1 where s1: "rtranclp (dtls_step q) s s1" "dy_threads s1 = []" using dtls_threads_end by blast
  from s1(1) assms have "dtls_inv s1" by (induction rule: rtranclp_induct) (auto intro: dtls_step_inv)
  with dtls_all_reaped [OF _ s1(2)] s1(1) show ?thesis by (blast intro: rtranclp_trans)
qed

section \<open>The queues of the connections\<close>

lemma demux_delivers:
  assumes inv: "dtls_inv s" and d: "demux peer d s = (b, s1)" and t: "t \<in> set (dy_threads s)"
    and ne: "dy_chans s1 (th_chan t) \<noteq> dy_chans s (th_chan t)"
  shows "th_peer t = peer \<and> th_phase t = Serving
    \<and> dy_chans s1 (th_chan t) = dy_chans s (th_chan t) @ [d]"
proof -
  from demux_frame(6) [OF d] ne obtain c where c: "hm_get (dy_conns s) peer = Some c"
    "receiver_alive s c" "dy_chans s1 = (dy_chans s)(c := dy_chans s c @ [d])" by auto
  with ne have tc: "th_chan t = c" by (metis fun_upd_other)
  have ok: "chans_ok s" using inv by (simp add: dtls_inv_def)
  have "dy_pending s \<noteq> Some c" using ok t tc by (auto simp: chans_ok_def)
  with c(2) obtain t' where "t' \<in> set (dy_threads s)" "th_chan t' = c" "th_phase t' = Serving"
    by (auto simp: receiver_alive_def)
  with same_chan_same_thread [OF ok] t tc have "th_phase t = Serving" by metis
  with entry_of_thread(1) [OF inv t] c tc show ?thesis by simp
qed

text \<open>What the lookup does: it drops the source's entry exactly when its connection no longer reads,
  and appends the datagram exactly when it reads and has room.\<close>

definition reads_for :: "dtls_sys \<Rightarrow> channel \<Rightarrow> bool" where
  "reads_for s c \<longleftrightarrow> (\<exists>t \<in> set (dy_threads s). th_chan t = c \<and> th_phase t = Serving)"

lemma entry_reads:
  assumes "dtls_inv s" and "hm_get (dy_conns s) p = Some c"
  shows "receiver_alive s c \<longleftrightarrow> reads_for s c"
proof -
  have "dy_pending s \<noteq> Some c"
    using assms by (fastforce simp: dtls_inv_def chans_ok_def entries_ok_def entry_ok_def stale_def)
  then show ?thesis by (simp add: receiver_alive_def reads_for_def)
qed

lemma demux_exact:
  assumes inv: "dtls_inv s" and d: "demux peer d s = (b, s1)"
  shows "dy_conns s1 = (case hm_get (dy_conns s) peer of
      Some c \<Rightarrow> if reads_for s c then dy_conns s else hm_remove peer (dy_conns s)
    | None \<Rightarrow> dy_conns s)"
    and "dy_chans s1 c' = (if hm_get (dy_conns s) peer = Some c' \<and> reads_for s c'
        \<and> length (dy_chans s c') < CONN_CHANNEL_DEPTH
      then dy_chans s c' @ [d] else dy_chans s c')"
  using d entry_reads [OF inv, of peer]
  by (auto simp: demux_def try_send_def split: option.splits try_send.splits if_splits)

text \<open>After the lookup a round changes no queue of a connection, and a new one starts empty.\<close>

lemma listen_queues:
  assumes inv: "dtls_inv s" and dr: "0 < le_drained env"
  shows "\<exists>b s1. demux (canonical_peer source) d s = (b, s1)
    \<and> (\<forall>t \<in> set (dy_threads (listen_datagram q env source d s)).
        t \<in> set (dy_threads s)
          \<and> dy_chans (listen_datagram q env source d s) (th_chan t) = dy_chans s1 (th_chan t)
        \<or> t \<notin> set (dy_threads s) \<and> th_peer t = canonical_peer source \<and> th_phase t = Serving
          \<and> dy_chans (listen_datagram q env source d s) (th_chan t) = [])"
proof (rule listen_datagram_cases [of q env source d s, OF refl])
  fix b assume d: "demux (canonical_peer source) d s = (b, listen_datagram q env source d s)"
  with demux_frame(1) [OF d] show ?thesis by auto
next
  fix s1 c s2 chans pend
  assume d: "demux (canonical_peer source) d s = (False, s1)"
    and p: "pending_listen (le_setup_ok env) s1 = Some (c, s2)"
    and s': "listen_datagram q env source d s = s2\<lparr>dy_chans := chans, dy_pending := pend\<rparr>"
    and ch: "chans = dy_chans s2 \<and> pend = None
      \<or> chans = (dy_chans s2)(c := drop (le_drained env) (dy_chans s2 c @ [d]))"
  have "chans (th_chan t) = dy_chans s1 (th_chan t)" if "t \<in> set (dy_threads s2)" for t
    using that ch pending_listen_inv(4) [OF demux_inv [OF inv d] p] pending_listen_frame(4) [OF p] by auto
  with d demux_frame(1) [OF d] pending_listen_frame(1) [OF p] show ?thesis by (auto simp: s')
next
  fix s1 c s2 permit counts
  assume d: "demux (canonical_peer source) d s = (False, s1)"
    and p: "pending_listen (le_setup_ok env) s1 = Some (c, s2)"
    and s': "listen_datagram q env source d s
      = promote_connection (le_spawn_ok env) c permit (canonical_peer source)
        (s2\<lparr>dy_chans := (dy_chans s2)(c := drop (le_drained env) (dy_chans s2 c @ [d])),
           dy_pending := None, dy_counts := counts\<rparr>)"
  note pi = pending_listen_inv [OF demux_inv [OF inv d] p]
  have th: "dy_threads s2 = dy_threads s"
    using demux_frame(1) [OF d] pending_listen_frame(1) [OF p] by simp
  have ch: "dy_chans (listen_datagram q env source d s) = (dy_chans s1)(c := [])"
    using pi(3) dr pending_listen_frame(4) [OF p] by (simp add: s' promote_connection_def Let_def)
  have "t \<in> set (dy_threads s) \<and> th_chan t \<noteq> c \<or> t \<notin> set (dy_threads s) \<and> th_chan t = c
      \<and> th_peer t = canonical_peer source \<and> th_phase t = Serving"
    if "t \<in> set (dy_threads (listen_datagram q env source d s))" for t
    using that th pi(4) by (auto simp: s' promote_connection_def Let_def split: if_splits)
  then show ?thesis using d ch by (intro exI conjI) auto
qed

section \<open>The connection thread\<close>

text \<open>
  What OpenSSL does inside \<open>accept\<close>, and what arrives meanwhile: reads of the transport, attempts
  that want more input, and their end. A read refused with another error than would-block ends
  the attempt, which is how the \<open>openssl\<close> crate reports it.
\<close>

datatype accept_event =
    AcceptArrival bytes
  | AcceptRead instant nat
  | AcceptWants instant
  | AcceptFails
  | AcceptDone

datatype accept_end = Established | Aborted | Ongoing

fun complete_handshake ::
  "instant \<Rightarrow> duration \<Rightarrow> accept_event list \<Rightarrow> dgram_io
   \<Rightarrow> accept_end \<times> (instant \<times> bytes) list \<times> dgram_io" where
  "complete_handshake started deadline [] io = (Ongoing, [], io)"
| "complete_handshake started deadline (AcceptArrival d # es) io
     = complete_handshake started deadline es (io_arrive d io)"
| "complete_handshake started deadline (AcceptRead now n # es) io = (case dgram_read now n io of
     (Inl WouldBlock, io') \<Rightarrow> complete_handshake started deadline es io'
   | (Inl _, io') \<Rightarrow> (Aborted, [], io')
   | (Inr d, io') \<Rightarrow> (case complete_handshake started deadline es io' of
       (r, ds, io'') \<Rightarrow> (r, (now, d) # ds, io'')))"
| "complete_handshake started deadline (AcceptWants now # es) io =
     (if deadline < now - started then (Aborted, [], io)
      else complete_handshake started deadline es io)"
| "complete_handshake started deadline (AcceptFails # es) io = (Aborted, [], io)"
| "complete_handshake started deadline (AcceptDone # es) io
     = (Established, [], io\<lparr>io_deadline := None\<rparr>)"

text \<open>The results of \<open>ssl_read\<close>: data, would-block, and everything that ends the session.\<close>

datatype session_read = ReadData session_env bytes | ReadWants instant | ReadEnds

fun serve_datagrams ::
  "upstream \<Rightarrow> u8 \<Rightarrow> device_session \<Rightarrow> session_read list \<Rightarrow> dtls_session \<Rightarrow> bool \<times> dtls_session" where
  "serve_datagrams up szx session [] s = (True, s)"
| "serve_datagrams up szx session (ReadData env bs # rs) s =
     (if bs = [] then (False, s)
      else (case answer_datagram up szx session env bs (s\<lparr>se_last := sn_now env\<rparr>) of
        (False, s') \<Rightarrow> (False, s')
      | (True, s') \<Rightarrow> serve_datagrams up szx session rs s'))"
| "serve_datagrams up szx session (ReadWants now # rs) s =
     (if IDLE_DEADLINE < now - se_last s then (False, s)
      else serve_datagrams up szx session rs s)"
| "serve_datagrams up szx session (ReadEnds # rs) s = (False, s)"

definition new_dtls_session :: "(u8 \<times> u8) option \<Rightarrow> instant \<Rightarrow> dtls_session" where
  "new_dtls_session random now =
     \<lparr>se_conn = \<lparr>gc_dedup = new_dedup_cache, gc_next_mid = rand_u16 random\<rparr>,
      se_sent = [], se_calls = [], se_last = now\<rparr>"

text \<open>
  \<open>connection_thread\<close>, started at \<open>now\<close>, the handshake at \<open>started\<close>; \<open>mtu_ok\<close> is \<open>set_mtu\<close>. The
  session is the pair the PSK callback attached. None when it ends before serving.
\<close>

definition dtls_connection_thread ::
  "upstream \<Rightarrow> u8 \<Rightarrow> instant \<Rightarrow> bool \<Rightarrow> instant \<Rightarrow> duration \<Rightarrow> accept_event list \<Rightarrow> (bytes \<times> bytes) option
   \<Rightarrow> bytes \<Rightarrow> nat \<Rightarrow> (u8 \<times> u8) option \<Rightarrow> instant \<Rightarrow> session_read list \<Rightarrow> dgram_io \<Rightarrow> dtls_session option" where
  "dtls_connection_thread up szx now mtu_ok started deadline es session_data peer conn_id random
       established_at reads io0 =
     (let io = io0\<lparr>io_tick := READ_TICK, io_deadline := Some (now + deadline)\<rparr> in
      if \<not> mtu_ok then None
      else (case complete_handshake started deadline es io of
          (Established, _, _) \<Rightarrow> (case authenticated_session session_data of
              None \<Rightarrow> None
            | Some (identity, token) \<Rightarrow>
                let session = \<lparr>ds_pigeon_id = identity, ds_token = token, ds_peer = peer,
                      ds_conn_id = conn_id\<rparr> in
                Some (snd (serve_datagrams up szx session reads
                  (new_dtls_session random established_at))))
        | _ \<Rightarrow> None))"

text \<open>The channel of a thread as its transport sees it.\<close>

definition sender_alive :: "dtls_sys \<Rightarrow> channel \<Rightarrow> bool" where
  "sender_alive s c \<longleftrightarrow> dy_pending s = Some c \<or> c \<in> snd ` set (dy_conns s)"

definition thread_io :: "dtls_sys \<Rightarrow> instant option \<Rightarrow> conn_thread \<Rightarrow> dgram_io" where
  "thread_io s deadline t = \<lparr>io_queue = dy_chans s (th_chan t),
     io_connected = sender_alive s (th_chan t), io_peer = th_peer t, io_tick = READ_TICK,
     io_deadline = deadline\<rparr>"

lemma dgram_read_deadline: "io_deadline (snd (dgram_read now n io)) = io_deadline io"
  by (rule dgram.keeps_deadline)

lemma complete_handshake_io:
  assumes "complete_handshake started deadline es io = (r, ds, io')" and "io_deadline io = Some t"
  shows "(\<forall>(now, d) \<in> set ds. now < t) \<and> (r = Established \<longleftrightarrow> io_deadline io' = None)
    \<and> ((\<exists>now. AcceptWants now \<in> set es \<and> started + deadline < now
        \<or> (\<exists>n. AcceptRead now n \<in> set es) \<and> t \<le> now) \<longrightarrow> r \<noteq> Ongoing)"
  using assms
proof (induction started deadline es io arbitrary: r ds io' rule: complete_handshake.induct)
  case (3 started deadline now n es io)
  have rd: "io_deadline (snd (dgram_read now n io)) = Some t"
    using "3.prems"(2) dgram_read_deadline by simp
  obtain x io1 where x: "dgram_read now n io = (x, io1)" by fastforce
  then have d1: "io_deadline io1 = Some t" using rd by simp
  have late: "x = Inl TimedOut" if "t \<le> now"
    using x "3.prems"(2) that by (auto simp: dgram_read_def)
  have early: "now < t" if "x = Inr d" for d
    using late that by (cases "t \<le> now") auto
  consider (data) d where "x = Inr d" | (quiet) "x = Inl WouldBlock"
    | (refused) e where "x = Inl e" "e \<noteq> WouldBlock"
    by (metis obj_sumE)
  then show ?case
  proof cases
    case data
    obtain r1 ds1 io2 where c: "complete_handshake started deadline es io1 = (r1, ds1, io2)"
      by (metis prod_cases3)
    then have e: "r = r1" "ds = (now, d) # ds1" "io' = io2" using "3.prems"(1) x data by auto
    from "3.IH"(2) [OF x [symmetric] data c d1] early [OF data] late data e show ?thesis by auto
  next
    case quiet
    then have c: "complete_handshake started deadline es io1 = (r, ds, io')" using "3.prems"(1) x by simp
    from "3.IH"(1) [OF x [symmetric] quiet refl c d1] late quiet show ?thesis by auto
  next
    case refused
    with "3.prems"(1) x d1 show ?thesis by (cases e) auto
  qed
qed (auto simp: io_arrive_def split: if_splits)

text \<open>The datagrams that arrive during the handshake; what is read of them, and of the queue before,
  is whole and in order. An empty read is the end of the channel, not a datagram.\<close>

fun accept_arrivals :: "accept_event list \<Rightarrow> bytes list" where
  "accept_arrivals [] = []"
| "accept_arrivals (AcceptArrival d # es) = d # accept_arrivals es"
| "accept_arrivals (_ # es) = accept_arrivals es"

lemma dgram_read_queue:
  assumes "dgram_read now n io = (x, io1)"
  shows "case x of
      Inr d \<Rightarrow> io_queue io = d # io_queue io1 \<or> d = [] \<and> io_queue io = [] \<and> io_queue io1 = []
    | Inl _ \<Rightarrow> \<exists>ds. io_queue io = ds @ io_queue io1"
  using assms by (auto simp: dgram_read_def split: list.splits if_splits)

lemma complete_handshake_order:
  assumes "complete_handshake started deadline es io = (r, ds, io')"
  shows "subseq (filter (\<lambda>d. d \<noteq> []) (map snd ds)) (io_queue io @ accept_arrivals es)"
  using assms
proof (induction started deadline es io arbitrary: r ds io' rule: complete_handshake.induct)
  case (3 started deadline now n es io)
  obtain x io1 where x: "dgram_read now n io = (x, io1)" by fastforce
  note q = dgram_read_queue [OF x]
  consider (data) d where "x = Inr d" | (quiet) "x = Inl WouldBlock"
    | (refused) e where "x = Inl e" "e \<noteq> WouldBlock"
    by (metis obj_sumE)
  then show ?case
  proof cases
    case data
    obtain r1 ds1 io2 where c: "complete_handshake started deadline es io1 = (r1, ds1, io2)"
      by (metis prod_cases3)
    then have "ds = (now, d) # ds1" using "3.prems" x data by auto
    with "3.IH"(2) [OF x [symmetric] data c] q data show ?thesis by auto
  next
    case quiet
    then have "complete_handshake started deadline es io1 = (r, ds, io')" using "3.prems" x by simp
    from "3.IH"(1) [OF x [symmetric] quiet refl this] q quiet show ?thesis
      by (auto intro: list_emb_append2)
  next
    case refused
    with "3.prems" x show ?thesis by (cases e) auto
  qed
qed (auto simp: io_arrive_def split: if_splits)

lemma serve_datagrams_acts:
  assumes "session_acts session s"
  shows "session_acts session (snd (serve_datagrams up szx session reads s))"
  using assms
proof (induction up szx session reads s rule: serve_datagrams.induct)
  case (2 up szx session env bs rs s)
  obtain go s1 where a: "answer_datagram up szx session env bs (s\<lparr>se_last := sn_now env\<rparr>) = (go, s1)"
    by fastforce
  have "session_acts session s1"
    using answer_datagram_acts [of session "s\<lparr>se_last := sn_now env\<rparr>" session up szx env bs] 2(2) a
    by (simp add: session_acts_def)
  with 2 a show ?case by (cases go) (auto simp: session_acts_def)
qed auto

section \<open>A small run\<close>

text \<open>One source with a verified cookie, admitted by a quota of two.\<close>

definition demo_quota :: conn_quota where "demo_quota = \<lparr>max_total = 2, max_per_ip = 2\<rparr>"
definition demo_peer :: socket_addr where "demo_peer = \<lparr>sa_ip = V4 7, sa_port = 9\<rparr>"
definition demo_env :: "bool \<Rightarrow> listen_env" where
  "demo_env verified = \<lparr>le_setup_ok = True, le_drained = 1,
     le_listen = Inr (if verified then Accepted None else Retry), le_spawn_ok = True\<rparr>"

abbreviation demo_listen :: "bool \<Rightarrow> bytes \<Rightarrow> dtls_sys \<Rightarrow> dtls_sys" where
  "demo_listen verified \<equiv> listen_datagram demo_quota (demo_env verified) demo_peer"

lemmas demo_defs = demo_quota_def demo_peer_def demo_env_def listen_datagram_def demux_def
  pending_listen_def promote_connection_def try_send_def receiver_alive_def try_acquire_def
  is_full_def canonical_peer_def dtls_init_def new_counts_def CONN_CHANNEL_DEPTH_def Let_def hm_defs

lemma demo_step: "dtls_reachable demo_quota s \<Longrightarrow> dtls_reachable demo_quota (demo_listen v d s)"
  by (rule rtranclp.rtrancl_into_rtrancl, assumption, rule dtls_step.datagram) (simp add: demo_env_def)

lemma demo_accepted:
  "demo_listen True d dtls_init = \<lparr>dy_conns = [(demo_peer, 0)], dy_pending = None,
     dy_chans = (\<lambda>_. []), dy_next = 1,
     dy_threads = [\<lparr>th_peer = demo_peer, th_chan = 0, th_permit = ConnPermit (V4 7), th_phase = Serving\<rparr>],
     dy_counts = \<lparr>ct_total = 1, ct_per_ip = [(V4 7, 1)]\<rparr>\<rparr>"
  by (simp add: demo_defs fun_eq_iff)

lemma demo_reachable: "dtls_reachable demo_quota (demo_listen True d dtls_init)"
  by (rule demo_step) simp

section \<open>Properties\<close>

text \<open>Every connection is admitted and counted: in every state the listener and its connection threads
  can reach, the books equal the threads, there are no more threads than the ceiling and no source
  bucket runs more than its fair share, no channel holds more than its depth, and each map entry
  belongs to a thread of that peer, or was left by a thread that panicked: then nothing is ever
  delivered through it and the next datagram of its peer, whatever it is, takes it away. No
  more entries than threads deliver.\<close>

theorem dtls_connections_bounded:
  assumes "dtls_reachable q s"
  shows "length (dy_threads s) \<le> max_total q \<and> ct_total (dy_counts s) = length (dy_threads s)
    \<and> (\<forall>b. length (filter (\<lambda>t. bucket (sa_ip (th_peer t)) = b) (dy_threads s)) \<le> max_per_ip q)
    \<and> (\<forall>c. length (dy_chans s c) \<le> CONN_CHANNEL_DEPTH)
    \<and> (\<forall>p c. hm_get (dy_conns s) p = Some c \<longrightarrow>
          (\<exists>t \<in> set (dy_threads s). th_chan t = c \<and> th_peer t = p)
          \<or> (\<forall>d. demux p d s = (False, s\<lparr>dy_conns := hm_remove p (dy_conns s)\<rparr>)))
    \<and> card {p. \<exists>c. hm_get (dy_conns s) p = Some c \<and> receiver_alive s c} \<le> length (dy_threads s)"
proof (intro conjI allI impI)
  note inv = dtls_reachable_inv [OF assms] and b = dtls_reachable_booked [OF assms]
  have own: "hm_get (dy_conns s) p = Some c \<Longrightarrow>
      stale s c \<or> (\<exists>t \<in> set (dy_threads s). th_chan t = c \<and> th_peer t = p)"
    and permit: "t \<in> set (dy_threads s) \<Longrightarrow> th_permit t = ConnPermit (bucket (sa_ip (th_peer t)))"
    and depth: "length (dy_chans s c) \<le> CONN_CHANNEL_DEPTH" for p c t
    using inv unfolding dtls_inv_def entries_ok_def entry_ok_def by blast+
  show "length (dy_chans s c) \<le> CONN_CHANNEL_DEPTH" for c by (fact depth)
  have "{p. \<exists>c. hm_get (dy_conns s) p = Some c \<and> receiver_alive s c} \<subseteq> th_peer ` set (dy_threads s)"
    using own stale_disconnected by fastforce
  then have "card {p. \<exists>c. hm_get (dy_conns s) p = Some c \<and> receiver_alive s c}
      \<le> card (th_peer ` set (dy_threads s))"
    by (rule card_mono [rotated]) simp
  also have "\<dots> \<le> length (dy_threads s)"
    using card_image_le [of "set (dy_threads s)" th_peer] card_length [of "dy_threads s"] by simp
  finally show "card {p. \<exists>c. hm_get (dy_conns s) p = Some c \<and> receiver_alive s c} \<le> length (dy_threads s)" .
  show "length (dy_threads s) \<le> max_total q" "ct_total (dy_counts s) = length (dy_threads s)"
    using booked_bounds(1,2) [OF b] by (simp_all add: live_permits_def)
  show "(\<exists>t \<in> set (dy_threads s). th_chan t = c \<and> th_peer t = p)
      \<or> (\<forall>d. demux p d s = (False, s\<lparr>dy_conns := hm_remove p (dy_conns s)\<rparr>))"
    if "hm_get (dy_conns s) p = Some c" for p c
    using own [OF that] stale_disconnected that by (auto simp: demux_def try_send_def)
  fix b'
  have "filter (\<lambda>t. bucket (sa_ip (th_peer t)) = b') (dy_threads s)
      = filter (\<lambda>t. th_permit t = ConnPermit b') (dy_threads s)"
    using permit by (intro filter_cong) auto
  moreover have "length (filter (\<lambda>t. th_permit t = p) ts) = count (mset (map th_permit ts)) p"
    for ts :: "conn_thread list" and p
    by (induction ts) auto
  ultimately show "length (filter (\<lambda>t. bucket (sa_ip (th_peer t)) = b') (dy_threads s)) \<le> max_per_ip q"
    using booked_bounds(3) [OF b, of "ConnPermit b'"] unfolding live_permits_def by simp
qed

theorem dtls_connections_bounded_witness:
  "length (dy_threads (demo_listen True [] dtls_init)) \<le> 2"
  using dtls_connections_bounded [OF demo_reachable [of "[]"]] by (simp add: demo_quota_def)

text \<open>C22. An unverified source earns nothing: in a round in which DTLSv1_listen reads the datagram it was called
  for but reports no cookie-verified hello, no thread is started, no permit taken and no map entry
  added. The source's own entry goes exactly when no running thread reads its channel any more;
  every other entry, and that of a live connection even when its queue is full, stays. The
  datagram is appended to the queue of the running connection its source is mapped to, if fewer
  than 32 wait there, and to no other.\<close>

theorem dtls_unverified_source_gains_nothing:
  assumes "dtls_reachable q s" and "\<not> accepts env" and "0 < le_drained env"
    and "listen_datagram q env source d s = s'"
  shows "dy_threads s' = dy_threads s \<and> dy_counts s' = dy_counts s
    \<and> dy_conns s' = (case hm_get (dy_conns s) (canonical_peer source) of
          Some c \<Rightarrow> if reads_for s c then dy_conns s else hm_remove (canonical_peer source) (dy_conns s)
        | None \<Rightarrow> dy_conns s)
    \<and> (\<forall>t \<in> set (dy_threads s). dy_chans s' (th_chan t) =
          (if hm_get (dy_conns s) (canonical_peer source) = Some (th_chan t) \<and> th_phase t = Serving
             \<and> length (dy_chans s (th_chan t)) < CONN_CHANNEL_DEPTH
           then dy_chans s (th_chan t) @ [d] else dy_chans s (th_chan t)))"
proof -
  note inv0 = dtls_reachable_inv [OF assms(1)]
  have own: "reads_for s (th_chan t) \<longleftrightarrow> th_phase t = Serving" if "t \<in> set (dy_threads s)" for t
    using that same_chan_same_thread [of s] inv0 unfolding reads_for_def dtls_inv_def by metis
  show ?thesis
  proof (rule listen_datagram_cases [OF assms(4)])
    fix b assume d: "demux (canonical_peer source) d s = (b, s')"
    from demux_frame(1,2) [OF d] show ?thesis
      by (simp add: demux_exact [OF inv0 d] own)
  next
    fix s1 c s2 chans pend
    assume d: "demux (canonical_peer source) d s = (False, s1)"
      and p: "pending_listen (le_setup_ok env) s1 = Some (c, s2)"
      and s': "s' = s2\<lparr>dy_chans := chans, dy_pending := pend\<rparr>"
      and ch: "chans = dy_chans s2 \<and> pend = None
        \<or> chans = (dy_chans s2)(c := drop (le_drained env) (dy_chans s2 c @ [d]))"
    note inv = demux_inv [OF dtls_reachable_inv [OF assms(1)] d]
    have "dy_chans s' (th_chan t) = dy_chans s1 (th_chan t)" if "t \<in> set (dy_threads s)" for t
    proof -
      have "th_chan t \<noteq> c"
        using pending_listen_inv(4) [OF inv p] that listen_frames(1,7) d p by auto
      with ch show ?thesis using pending_listen_frame(4) [OF p] by (auto simp: s')
    qed
    moreover have "dy_conns s' = dy_conns s1" "dy_threads s' = dy_threads s" "dy_counts s' = dy_counts s"
      using demux_frame(1,2) [OF d] pending_listen_frame(1-3) [OF p] by (simp_all add: s')
    ultimately show ?thesis
      by (simp add: demux_exact [OF inv0 d] own)
  qed (use assms(2) in blast)
qed

theorem dtls_unverified_source_gains_nothing_witness:
  "dy_threads (demo_listen False [22] dtls_init) = []"
proof -
  have "\<not> accepts (demo_env False)" "0 < le_drained (demo_env False)"
    by (simp_all add: accepts_def demo_env_def)
  from dtls_unverified_source_gains_nothing [OF rtranclp.rtrancl_refl this refl,
      of demo_quota demo_peer "[22]"]
  show ?thesis by (simp add: dtls_init_def)
qed

text \<open>C21. Isolation by source: what a round (in which DTLSv1_listen, if called, reads the datagram it was called
  for) queues for a running connection is that datagram, whole, behind what was queued, and only
  if the connection's peer is exactly the (canonical) source it came from and fewer than 32 wait;
  every other connection's queue is untouched; a connection the round starts is its source's and
  begins with an empty queue.\<close>

theorem dtls_datagrams_by_source:
  assumes "dtls_reachable q s" and "0 < le_drained env"
    and "listen_datagram q env source d s = s'" and "t \<in> set (dy_threads s')"
  shows "if t \<in> set (dy_threads s)
    then dy_chans s' (th_chan t) = dy_chans s (th_chan t)
      \<or> th_peer t = canonical_peer source \<and> th_phase t = Serving
        \<and> length (dy_chans s (th_chan t)) < CONN_CHANNEL_DEPTH
        \<and> dy_chans s' (th_chan t) = dy_chans s (th_chan t) @ [d]
    else th_peer t = canonical_peer source \<and> th_phase t = Serving \<and> dy_chans s' (th_chan t) = []"
proof -
  note inv = dtls_reachable_inv [OF assms(1)]
  obtain b s1 where d: "demux (canonical_peer source) d s = (b, s1)"
    and "t \<in> set (dy_threads s) \<and> dy_chans s' (th_chan t) = dy_chans s1 (th_chan t)
      \<or> t \<notin> set (dy_threads s) \<and> th_peer t = canonical_peer source \<and> th_phase t = Serving
        \<and> dy_chans s' (th_chan t) = []"
    using listen_queues [OF inv assms(2), of source d q] assms(3,4) by auto
  then consider (old) "t \<in> set (dy_threads s)" "dy_chans s' (th_chan t) = dy_chans s1 (th_chan t)"
    | (fresh) "t \<notin> set (dy_threads s)" "th_peer t = canonical_peer source" "th_phase t = Serving"
        "dy_chans s' (th_chan t) = []" by blast
  then show ?thesis
  proof cases
    case old
    show ?thesis
    proof (cases "dy_chans s1 (th_chan t) = dy_chans s (th_chan t)")
      case False
      moreover have "length (dy_chans s (th_chan t)) < CONN_CHANNEL_DEPTH"
        using demux_exact(2) [OF inv d, of "th_chan t"] False by (simp split: if_splits)
      ultimately show ?thesis using old demux_delivers [OF inv d old(1)] by simp
    qed (use old in simp)
  qed simp
qed

theorem dtls_datagrams_by_source_witness:
  "th_peer (hd (dy_threads (demo_listen True [] dtls_init))) = canonical_peer demo_peer"
proof -
  let ?s = "demo_listen True [] dtls_init" and ?t = "hd (dy_threads (demo_listen True [] dtls_init))"
  have s': "demo_listen True [23] ?s = ?s\<lparr>dy_chans := (\<lambda>c. if c = 0 then [[23]] else [])\<rparr>"
    unfolding demo_accepted by (simp add: demo_defs fun_eq_iff)
  have "0 < le_drained (demo_env True)" by (simp add: demo_env_def)
  moreover have "?t \<in> set (dy_threads (demo_listen True [23] ?s))"
    unfolding s' by (simp add: demo_accepted)
  moreover have "?t \<in> set (dy_threads ?s)"
    "dy_chans (demo_listen True [23] ?s) (th_chan ?t) \<noteq> dy_chans ?s (th_chan ?t)"
    unfolding s' by (simp_all add: demo_accepted)
  ultimately show ?thesis
    using dtls_datagrams_by_source [OF demo_reachable _ refl, of "demo_env True" ?t] by metis
qed

text \<open>C36. The cookie proves the address: the cookie minted for a source is accepted for that source, and
  for another source only if the MAC gives two different messages the same tag; without a
  stamped address none is minted and none accepted; what is accepted is the exact tag.\<close>

theorem cookie_proves_address:
  assumes "cookie_generate_cb hmac key (Some p) out = Some (n, out')"
  shows "cookie_verify_cb hmac key (Some p) (take n out')
    \<and> (\<forall>p'. cookie_verify_cb hmac key (Some p') (take n out') \<longrightarrow>
          p' = p \<or> (\<exists>m m'. m \<noteq> m' \<and> hmac key m = hmac key m' \<and> hmac key m \<noteq> None))
    \<and> length out' = length out \<and> drop n out' = drop n out
    \<and> (\<forall>c. cookie_verify_cb hmac key (Some p) c \<longrightarrow> c = take n out')
    \<and> cookie_generate_cb hmac key None out = None \<and> \<not> cookie_verify_cb hmac key None (take n out')"
proof -
  from assms obtain c where c: "hmac key (cookie_material p) = Some c" "n = length c"
    "out' = c @ drop (length c) out" "length c \<le> length out"
    by (auto simp: cookie_generate_cb_def generate_cookie_def split: option.splits if_splits)
  have "p' = p \<or> (\<exists>m m'. m \<noteq> m' \<and> hmac key m = hmac key m' \<and> hmac key m \<noteq> None)"
    if "hmac key (cookie_material p') = Some c" for p'
  proof (cases "cookie_material p' = cookie_material p")
    case True
    then show ?thesis using socket_addr_bytes_inj [of p' p] by (simp add: cookie_material_def)
  next
    case False
    with that c(1) show ?thesis by (metis option.distinct(1))
  qed
  with c show ?thesis
    by (auto simp: cookie_verify_cb_def cookie_generate_cb_def verify_cookie_def generate_cookie_def
        split: option.splits)
qed

theorem cookie_proves_address_witness:
  "cookie_verify_cb (\<lambda>k m. Some (k @ m)) [1] (Some demo_peer)
     (take 7 (1 # cookie_material demo_peer @ [0, 0]))"
proof -
  have "cookie_generate_cb (\<lambda>k m. Some (k @ m)) [1] (Some demo_peer) (replicate 9 0)
      = Some (7, 1 # cookie_material demo_peer @ [0, 0])"
    by (simp add: cookie_generate_cb_def generate_cookie_def cookie_material_def demo_peer_def
        numeral_eq_Suc)
  from cookie_proves_address [OF this] show ?thesis by blast
qed

text \<open>C31. The post-cookie handshake is bounded: no datagram is delivered to it at or after its transport's
  deadline however fast a peer feeds it; a read then, or a would-block later than the handshake's
  start plus its time limit, ends it; what it read are whole datagrams of its channel, those queued
  and those that arrived, in order and each at most once (an empty read is the channel's end); and
  only success disarms the deadline.\<close>

theorem dtls_handshake_deadline:
  assumes "complete_handshake started deadline es (io\<lparr>io_deadline := Some t\<rparr>) = (r, ds, io')"
  shows "(\<forall>(now, d) \<in> set ds. now < t)
    \<and> ((\<exists>now. AcceptWants now \<in> set es \<and> started + deadline < now
        \<or> (\<exists>n. AcceptRead now n \<in> set es) \<and> t \<le> now) \<longrightarrow> r \<noteq> Ongoing)
    \<and> subseq (filter (\<lambda>d. d \<noteq> []) (map snd ds)) (io_queue io @ accept_arrivals es)
    \<and> (io_deadline io' = None \<longleftrightarrow> r = Established)"
  using complete_handshake_io [OF assms] complete_handshake_order [OF assms] by auto

theorem dtls_handshake_deadline_witness:
  "fst (complete_handshake 0 5 [AcceptArrival [22], AcceptRead 3 99, AcceptArrival [22], AcceptRead 5 99]
     (\<lparr>io_queue = [], io_connected = True, io_peer = demo_peer, io_tick = 0, io_deadline = None\<rparr>
       \<lparr>io_deadline := Some 5\<rparr>)) \<noteq> Ongoing"
proof -
  let ?es = "[AcceptArrival [22], AcceptRead 3 99, AcceptArrival [22], AcceptRead 5 99]"
  let ?io = "\<lparr>io_queue = [], io_connected = True, io_peer = demo_peer, io_tick = 0, io_deadline = None\<rparr>"
  obtain r ds io' where c: "complete_handshake 0 5 ?es (?io\<lparr>io_deadline := Some 5\<rparr>) = (r, ds, io')"
    by (metis prod_cases3)
  have "\<exists>now. (\<exists>n. AcceptRead now n \<in> set ?es) \<and> 5 \<le> now" by auto
  with dtls_handshake_deadline [OF c] c show ?thesis by auto
qed

text \<open>A DTLS connection serves only the pigeon its handshake authenticated: unless the handshake
  completes and a session was attached nothing is served; otherwise every upstream call of the
  connection is for that identity with its token.\<close>

theorem dtls_connection_acts_as_session:
  shows "(session_data = None \<or> \<not> mtu_ok
        \<or> fst (complete_handshake started deadline es
            (io\<lparr>io_tick := READ_TICK, io_deadline := Some (now + deadline)\<rparr>)) \<noteq> Established \<longrightarrow>
        dtls_connection_thread up szx now mtu_ok started deadline es session_data peer conn_id random
          at reads io = None)
    \<and> (\<forall>s. dtls_connection_thread up szx now mtu_ok started deadline es session_data peer conn_id random
          at reads io = Some s \<longrightarrow>
        (\<exists>identity token. session_data = Some (identity, token) \<and> (\<forall>c \<in> set (se_calls s).
            uc_pigeon_id c = identity \<and> uc_bearer c = token)))"
proof (intro conjI allI impI)
  fix s assume a: "dtls_connection_thread up szx now mtu_ok started deadline es session_data peer
    conn_id random at reads io = Some s"
  then obtain identity token where sd: "session_data = Some (identity, token)"
    by (auto simp: dtls_connection_thread_def authenticated_session_def Let_def
        split: if_splits option.splits prod.splits accept_end.splits)
  let ?session = "\<lparr>ds_pigeon_id = identity, ds_token = token, ds_peer = peer, ds_conn_id = conn_id\<rparr>"
  from a sd have "s = snd (serve_datagrams up szx ?session reads (new_dtls_session random at))"
    by (auto simp: dtls_connection_thread_def authenticated_session_def Let_def
        split: if_splits prod.splits accept_end.splits)
  moreover have "session_acts ?session (new_dtls_session random at)"
    by (simp add: session_acts_def new_dtls_session_def)
  ultimately have "session_acts ?session s" using serve_datagrams_acts by blast
  with sd show "\<exists>identity token. session_data = Some (identity, token) \<and> (\<forall>c \<in> set (se_calls s).
      uc_pigeon_id c = identity \<and> uc_bearer c = token)"
    by (auto simp: session_acts_def)
qed (auto simp: dtls_connection_thread_def authenticated_session_def Let_def
    split: prod.splits accept_end.splits)

theorem dtls_connection_acts_as_session_witness:
  "\<forall>reads io.
     dtls_connection_thread (\<lambda>_. Inl []) 6 0 True 0 5 [AcceptDone] None [] 1 None 3 reads io = None"
  using dtls_connection_acts_as_session by blast

text \<open>C38. The teardown of a connection is not guarded by its identity: when a peer has already been given
  a new connection, the old thread's removal of the peer's map entry takes the new connection's,
  which then loses its only sender: it reads the end of its stream while its peer is live.\<close>

theorem dtls_stale_unmap_closes_successor:
  assumes "dtls_reachable q s" and "old \<in> set (dy_threads s)" and "new \<in> set (dy_threads s)"
    and "th_phase old = Returned" and "th_phase new = Serving" and "th_peer new = th_peer old"
    and "hm_get (dy_conns s) (th_peer new) = Some (th_chan new)" and "dy_chans s (th_chan new) = []"
  shows "dtls_step q s (thread_unmap old s)
    \<and> hm_get (dy_conns (thread_unmap old s)) (th_peer new) = None
    \<and> new \<in> set (dy_threads (thread_unmap old s))
    \<and> fst (dgram_read now n (thread_io (thread_unmap old s) None new)) = Inr []
    \<and> fst (dgram_read now n (thread_io s None new)) = Inl WouldBlock"
proof -
  note inv = dtls_reachable_inv [OF assms(1)]
  have ok: "hm_ok (dy_conns s)" and pend: "dy_pending s \<noteq> Some (th_chan new)"
    using inv assms(3) by (auto simp: dtls_inv_def entries_ok_def chans_ok_def)
  have ne: "th_chan old \<noteq> th_chan new"
    using same_chan_same_thread [of s old new] inv assms(2-5) by (auto simp: dtls_inv_def)
  have ok': "hm_ok (hm_remove (th_peer old) (dy_conns s))" using ok by (simp add: table_simps)
  have "th_chan new \<notin> snd ` set (hm_remove (th_peer old) (dy_conns s))"
  proof
    assume "th_chan new \<in> snd ` set (hm_remove (th_peer old) (dy_conns s))"
    then obtain p where "(p, th_chan new) \<in> set (hm_remove (th_peer old) (dy_conns s))" by auto
    from hm_mem_get [OF ok' this] have "hm_get (dy_conns s) p = Some (th_chan new)" "p \<noteq> th_peer old"
      by (auto simp: table_simps split: if_splits)
    with entry_of_thread(1) [OF inv assms(3)] assms(6) show False by blast
  qed
  moreover have "th_chan new \<in> snd ` set (dy_conns s)" using hm_get_mem [OF assms(7)] by force
  moreover have "new \<in> set (dy_threads (thread_unmap old s))"
    unfolding thread_unmap_def set_phase_threads using assms(3) ne
    by (auto intro!: rev_image_eqI [of new])
  ultimately show ?thesis
    using dtls_step.unmapped [OF assms(2,4), of q] assms(6,8) pend
    by (auto simp: thread_unmap_def dgram_read_def thread_io_def sender_alive_def table_simps)
qed

theorem dtls_stale_unmap_closes_successor_witness:
  "\<exists>s. dtls_reachable demo_quota s \<and> (\<exists>old new. hm_get (dy_conns s) (th_peer new) = Some (th_chan new)
     \<and> hm_get (dy_conns (thread_unmap old s)) (th_peer new) = None
     \<and> new \<in> set (dy_threads (thread_unmap old s)) \<and> th_phase new = Serving)"
proof -
  let ?s1 = "demo_listen True [] dtls_init"
  let ?t = "\<lparr>th_peer = demo_peer, th_chan = 0, th_permit = ConnPermit (V4 7), th_phase = Serving\<rparr>"
  let ?s2 = "set_phase 0 Returned ?s1"
  let ?s3 = "demo_listen True [] ?s2"
  let ?old = "?t\<lparr>th_phase := Returned\<rparr>"
  let ?new = "?t\<lparr>th_chan := 1\<rparr>"
  have "dtls_step demo_quota ?s1 (set_phase (th_chan ?t) Returned ?s1)"
    by (rule dtls_step.returned) (simp_all add: demo_accepted)
  then have "dtls_reachable demo_quota ?s2"
    using demo_reachable [of "[]"] by (auto intro: rtranclp.rtrancl_into_rtrancl)
  then have r: "dtls_reachable demo_quota ?s3" by (rule demo_step)
  have s3: "dy_threads ?s3 = [?new, ?old]" "dy_conns ?s3 = [(demo_peer, 1)]" "dy_chans ?s3 = (\<lambda>_. [])"
    unfolding demo_accepted set_phase_def by (simp_all add: demo_defs fun_eq_iff)
  have pre: "?old \<in> set (dy_threads ?s3)" "?new \<in> set (dy_threads ?s3)" "th_phase ?old = Returned"
    "th_phase ?new = Serving" "th_peer ?new = th_peer ?old"
    "hm_get (dy_conns ?s3) (th_peer ?new) = Some (th_chan ?new)" "dy_chans ?s3 (th_chan ?new) = []"
    unfolding s3 by (simp_all add: hm_defs)
  from dtls_stale_unmap_closes_successor [OF r pre] pre r show ?thesis by blast
qed

text \<open>
  One connection that panics: its source is verified and admitted, its thread unwinds, and the
  entry is what remains.
\<close>

lemma strand_one:
  assumes reach: "dtls_reachable q s" and q: "0 < max_total q" "0 < max_per_ip q"
    and s: "dy_threads s = []" "dy_pending s = None" "dy_chans s = (\<lambda>_. [])" "dy_counts s = new_counts"
    and p: "hm_get (dy_conns s) p = None" "canonical_peer p = p"
  shows "\<exists>s'. dtls_reachable q s' \<and> dy_threads s' = [] \<and> dy_pending s' = None
    \<and> dy_chans s' = (\<lambda>_. []) \<and> dy_counts s' = new_counts
    \<and> dy_conns s' = hm_insert p (dy_next s) (dy_conns s)"
proof -
  let ?env = "demo_env True" and ?b = "bucket (sa_ip p)"
  let ?t = "\<lparr>th_peer = p, th_chan = dy_next s, th_permit = ConnPermit ?b, th_phase = Serving\<rparr>"
  let ?counts = "\<lparr>ct_total = 1, ct_per_ip = [(?b, 1)]\<rparr>"
  let ?s1 = "listen_datagram q ?env p [] s"
  have acq: "try_acquire q (sa_ip p) new_counts = (Some (ConnPermit ?b), ?counts)"
    using q by (simp add: try_acquire_def new_counts_def hm_defs Let_def del: bucket.simps)
  have s1: "?s1 = s\<lparr>dy_conns := hm_insert p (dy_next s) (dy_conns s), dy_next := Suc (dy_next s),
      dy_threads := [?t], dy_counts := ?counts\<rparr>"
    using p s q acq
    by (simp add: listen_datagram_def demux_def is_full_def pending_listen_def demo_env_def try_send_def
        promote_connection_def CONN_CHANNEL_DEPTH_def Let_def fun_upd_idem new_counts_def del: bucket.simps)
  have "dtls_step q s ?s1" by (rule dtls_step.datagram) (simp add: demo_env_def)
  moreover have "dtls_step q ?s1 (set_phase (dy_next s) Unwinding ?s1)"
    using dtls_step.panicked [of ?t ?s1 q] by (simp add: s1)
  moreover have "dtls_step q (set_phase (dy_next s) Unwinding ?s1)
      (thread_finish (?t\<lparr>th_phase := Unwinding\<rparr>) (set_phase (dy_next s) Unwinding ?s1))"
    by (rule dtls_step.unwound) (simp_all add: s1 set_phase_def)
  ultimately have "dtls_reachable q
      (thread_finish (?t\<lparr>th_phase := Unwinding\<rparr>) (set_phase (dy_next s) Unwinding ?s1))"
    using reach by (meson rtranclp.rtrancl_into_rtrancl)
  moreover have "permit_drop (ConnPermit ?b) ?counts = new_counts"
    by (simp add: permit_drop_def new_counts_def hm_defs)
  ultimately show ?thesis
    by (intro exI [of _ "thread_finish (?t\<lparr>th_phase := Unwinding\<rparr>) (set_phase (dy_next s) Unwinding ?s1)"])
      (simp add: thread_finish_def set_phase_def s1 s)
qed

text \<open>C39. An unguarded panic strands a map entry: the quota's slots come back, but nothing else takes the
  entry away than a datagram of its own peer, so connections that panicked leave, one by one, more
  entries than the quota allows connections, with no connection live.\<close>

theorem panicked_threads_strand_entries:
  assumes "0 < max_total q" and "0 < max_per_ip q" and "n \<le> 65536"
  shows "\<exists>s. dtls_reachable q s \<and> dy_threads s = [] \<and> ct_total (dy_counts s) = 0 \<and> hm_len (dy_conns s) = n
    \<and> (\<forall>p c env source d. hm_get (dy_conns s) p = Some c \<and> canonical_peer source \<noteq> p \<longrightarrow>
          hm_get (dy_conns (listen_datagram q env source d s)) p = Some c)"
proof -
  have "\<exists>s. dtls_reachable q s \<and> dy_threads s = [] \<and> dy_pending s = None \<and> dy_chans s = (\<lambda>_. [])
      \<and> dy_counts s = new_counts \<and> hm_len (dy_conns s) = n
      \<and> (\<forall>p. hm_get (dy_conns s) p \<noteq> None \<longrightarrow> unat (sa_port p) < n)"
    using assms(3)
  proof (induction n)
    case 0
    show ?case by (intro exI [of _ dtls_init]) (simp add: dtls_init_def hm_defs)
  next
    case (Suc n)
    then obtain s where s: "dtls_reachable q s" "dy_threads s = []" "dy_pending s = None"
      "dy_chans s = (\<lambda>_. [])" "dy_counts s = new_counts" "hm_len (dy_conns s) = n"
      "\<forall>p. hm_get (dy_conns s) p \<noteq> None \<longrightarrow> unat (sa_port p) < n" by auto
    let ?p = "\<lparr>sa_ip = V4 7, sa_port = of_nat n\<rparr>"
    have u: "unat (of_nat n :: u16) = n" using Suc.prems by (simp add: unat_of_nat take_bit_nat_eq_self)
    then have p: "hm_get (dy_conns s) ?p = None" using s(7) by fastforce
    have "canonical_peer ?p = ?p" by (simp add: canonical_peer_def)
    from strand_one [OF s(1) assms(1,2) s(2-5) p this] obtain s' where s': "dtls_reachable q s'"
      "dy_threads s' = []" "dy_pending s' = None" "dy_chans s' = (\<lambda>_. [])" "dy_counts s' = new_counts"
      "dy_conns s' = hm_insert ?p (dy_next s) (dy_conns s)" by blast
    have ok: "hm_ok (dy_conns s)" using dtls_reachable_inv [OF s(1)] by (simp add: dtls_inv_def entries_ok_def)
    have "hm_len (dy_conns s') = Suc n" using hm.len_insert [OF ok] p s(6) by (simp add: s'(6))
    moreover have "\<forall>p. hm_get (dy_conns s') p \<noteq> None \<longrightarrow> unat (sa_port p) < Suc n"
      using s(7) u by (auto simp: s'(6) table_simps less_Suc_eq)
    ultimately show ?case using s' by blast
  qed
  then obtain s where "dtls_reachable q s" "dy_threads s = []" "ct_total (dy_counts s) = 0"
    "hm_len (dy_conns s) = n" by (auto simp: new_counts_def)
  moreover have "hm_get (dy_conns (listen_datagram q env source d s)) p = Some c"
    if "hm_get (dy_conns s) p = Some c" "canonical_peer source \<noteq> p" for p c env source d
    using that(1) listen_keeps_others [OF that(2), of q env d s] by simp
  ultimately show ?thesis by blast
qed

theorem panicked_threads_strand_entries_witness:
  "\<exists>s. dtls_reachable \<lparr>max_total = 1, max_per_ip = 1\<rparr> s \<and> dy_threads s = [] \<and> hm_len (dy_conns s) = 65536"
proof -
  let ?q = "\<lparr>max_total = 1, max_per_ip = 1\<rparr>"
  have "0 < max_total ?q" "0 < max_per_ip ?q" "65536 \<le> (65536 :: nat)" by simp_all
  from panicked_threads_strand_entries [OF this] show ?thesis by blast
qed

end
