(* ===== verification/Mbed_Shim.thy ===== *)
theory Mbed_Shim
  imports Loft_Prelude
begin

text \<open>
  \<open>mbedtls-ffi-shim\<close> (\<open>session.rs\<close>, \<open>config.rs\<close>, the codes of \<open>error.rs\<close>): the safe face of mbedTLS.
  The library behind the foreign function interface is a parameter, as the codes its functions
  return. Modelled are the retransmission timer, the mapping of outcomes and codes in both
  directions, the credentials a session carries, the PSK callback with its decoy key, the
  cookie-verified flag, the random generator and the construction of a configuration.
\<close>

section \<open>Codes\<close>

definition ERR_SSL_WANT_READ :: int where "ERR_SSL_WANT_READ = - 0x6900"
definition ERR_SSL_WANT_WRITE :: int where "ERR_SSL_WANT_WRITE = - 0x6880"
definition ERR_SSL_TIMEOUT :: int where "ERR_SSL_TIMEOUT = - 0x6800"
definition ERR_SSL_HELLO_VERIFY_REQUIRED :: int where "ERR_SSL_HELLO_VERIFY_REQUIRED = - 0x6A80"
definition ERR_SSL_PEER_CLOSE_NOTIFY :: int where "ERR_SSL_PEER_CLOSE_NOTIFY = - 0x7880"
definition ERR_SSL_CONN_EOF :: int where "ERR_SSL_CONN_EOF = - 0x7280"
definition ERR_NET_SEND_FAILED :: int where "ERR_NET_SEND_FAILED = - 0x004E"
definition ERR_NET_RECV_FAILED :: int where "ERR_NET_RECV_FAILED = - 0x004C"
definition SSL_IS_SERVER :: int where "SSL_IS_SERVER = 1"
definition SSL_IS_CLIENT :: int where "SSL_IS_CLIENT = 0"
definition SSL_TRANSPORT_DATAGRAM :: int where "SSL_TRANSPORT_DATAGRAM = 1"
definition SSL_PRESET_DEFAULT :: int where "SSL_PRESET_DEFAULT = 0"
definition SSL_CID_ENABLED :: int where "SSL_CID_ENABLED = 1"
definition SSL_CID_DISABLED :: int where "SSL_CID_DISABLED = 0"
definition SSL_UNEXPECTED_CID_IGNORE :: int where "SSL_UNEXPECTED_CID_IGNORE = 0"

lemmas code_values [loft_defs] = ERR_SSL_WANT_READ_def ERR_SSL_WANT_WRITE_def ERR_SSL_TIMEOUT_def
  ERR_SSL_HELLO_VERIFY_REQUIRED_def ERR_SSL_PEER_CLOSE_NOTIFY_def ERR_SSL_CONN_EOF_def
  ERR_NET_SEND_FAILED_def ERR_NET_RECV_FAILED_def SSL_CID_ENABLED_def

definition PSK_SUITES :: "int list" where "PSK_SUITES = [0xC0A8, 0x00A8, 0x00AE, 0]"
definition CID_LEN :: nat where "CID_LEN = 8"
definition C_INT_MAX :: int where "C_INT_MAX = 0x7FFFFFFF"

text \<open>
  The text of an error: the library's own, which \<open>strerror\<close> writes into 128 zero bytes, each byte a
  \<open>char\<close>, and the code as \<open>-{:#06x}\<close> of its negation as an \<open>i32\<close>.
\<close>

definition show_hex06 :: "u32 \<Rightarrow> bytes" where
  "show_hex06 w = (let ds = hex_digits (unat w) in [48, 120] @ replicate (4 - length ds) 48 @ ds)"

definition char_utf8 :: "u8 \<Rightarrow> bytes" where
  "char_utf8 b = (if b < 0x80 then [b] else [0xC0 OR drop_bit 6 b, 0x80 OR (b AND 0x3F)])"

definition mbed_error_text :: "(int \<Rightarrow> bytes \<Rightarrow> bytes) \<Rightarrow> int \<Rightarrow> bytes" where
  "mbed_error_text strerror code =
     (let text = concat (map char_utf8 (takeWhile (\<lambda>b. b \<noteq> 0) (strerror code (replicate 128 0))));
          number = 45 # show_hex06 (word_of_int (- code)) in
      if text = [] then ascii ''mbedTLS error '' @ number
      else text @ ascii '' ('' @ number @ ascii '')'')"

section \<open>The timer\<close>

record timer_state =
  tm_int_ms :: nat
  tm_fin_ms :: nat
  tm_start :: "instant option"

definition timer_new :: timer_state where
  "timer_new = \<lparr>tm_int_ms = 0, tm_fin_ms = 0, tm_start = None\<rparr>"

definition timer_set :: "instant \<Rightarrow> nat \<Rightarrow> nat \<Rightarrow> timer_state \<Rightarrow> timer_state" where
  "timer_set now int_ms fin_ms tm = \<lparr>tm_int_ms = int_ms, tm_fin_ms = fin_ms,
     tm_start = (if fin_ms \<noteq> 0 then Some now else None)\<rparr>"

definition timer_status :: "instant \<Rightarrow> timer_state \<Rightarrow> int" where
  "timer_status now tm = (case tm_start tm of
     None \<Rightarrow> - 1
   | Some started \<Rightarrow>
       let elapsed = (now - started) div 1000000 in
       if tm_fin_ms tm \<le> elapsed then 2 else if tm_int_ms tm \<le> elapsed then 1 else 0)"

definition final_expired :: "instant \<Rightarrow> timer_state \<Rightarrow> bool" where
  "final_expired now tm \<longleftrightarrow> timer_status now tm = 2"

definition timer_remaining :: "instant \<Rightarrow> timer_state \<Rightarrow> duration option" where
  "timer_remaining now tm = (case tm_start tm of
     None \<Rightarrow> None
   | Some started \<Rightarrow> Some (from_millis (tm_fin_ms tm) - (now - started)))"

section \<open>The callbacks of the transport\<close>

datatype recv_outcome = RecvData nat | RecvWantRead | RecvTimerExpired | RecvClosed | RecvFailed
datatype send_outcome = Sent_ok nat | SendFailed

text \<open>A callback that panicked is None; lengths are clipped to a C \<open>int\<close>.\<close>

definition send_tramp :: "send_outcome option \<Rightarrow> int" where
  "send_tramp outcome = (case outcome of
     Some (Sent_ok n) \<Rightarrow> min (int n) C_INT_MAX
   | Some SendFailed \<Rightarrow> ERR_NET_SEND_FAILED
   | None \<Rightarrow> ERR_NET_SEND_FAILED)"

definition recv_tramp :: "recv_outcome option \<Rightarrow> int" where
  "recv_tramp outcome = (case outcome of
     Some (RecvData n) \<Rightarrow> min (int n) C_INT_MAX
   | Some RecvWantRead \<Rightarrow> ERR_SSL_WANT_READ
   | Some RecvTimerExpired \<Rightarrow> ERR_SSL_TIMEOUT
   | Some RecvClosed \<Rightarrow> 0
   | Some RecvFailed \<Rightarrow> ERR_NET_RECV_FAILED
   | None \<Rightarrow> ERR_NET_RECV_FAILED)"

section \<open>The calls of a session\<close>

datatype handshake_status = HsDone | HsWantRead | HsWantWrite | HelloVerifyRequired | HsFailed int
datatype read_status = RdData nat | RdWantRead | RdWantWrite | PeerClosed | RdFailed int

definition handshake_result :: "int \<Rightarrow> handshake_status" where
  "handshake_result rc =
     (if rc = 0 then HsDone
      else if rc = ERR_SSL_WANT_READ then HsWantRead
      else if rc = ERR_SSL_WANT_WRITE then HsWantWrite
      else if rc = ERR_SSL_HELLO_VERIFY_REQUIRED then HelloVerifyRequired
      else HsFailed rc)"

definition read_result :: "int \<Rightarrow> read_status" where
  "read_result rc =
     (if 0 \<le> rc then RdData (nat rc)
      else if rc = ERR_SSL_WANT_READ then RdWantRead
      else if rc = ERR_SSL_WANT_WRITE then RdWantWrite
      else if rc = ERR_SSL_PEER_CLOSE_NOTIFY \<or> rc = ERR_SSL_CONN_EOF then PeerClosed
      else RdFailed rc)"

definition write_result :: "int \<Rightarrow> int + nat" where
  "write_result rc = (if 0 \<le> rc then Inr (nat rc) else Inl rc)"

definition unit_result :: "int \<Rightarrow> int + unit" where
  "unit_result rc = (if rc = 0 then Inr () else Inl rc)"

record cid_status =
  cs_negotiated :: bool
  cs_peer_cid :: bytes

text \<open>\<open>peer_cid\<close> from what the library returned and left in the 32-byte buffer.\<close>

definition peer_cid :: "int \<Rightarrow> int \<Rightarrow> bytes \<Rightarrow> nat \<Rightarrow> int + cid_status" where
  "peer_cid rc enabled cid len =
     (if rc \<noteq> 0 then Inl rc
      else Inr \<lparr>cs_negotiated = (enabled = SSL_CID_ENABLED), cs_peer_cid = take (min len (length cid)) cid\<rparr>)"

section \<open>Credentials and the PSK callback\<close>

record resolved_psk =
  rp_psk :: bytes
  rp_identity :: bytes
  rp_token :: bytes

text \<open>What of a session the callback touches: the credentials and the key of the handshake.\<close>

record psk_session =
  pk_credentials :: "(bytes \<times> bytes) option"
  pk_hs_psk :: "bytes option"

definition session_reset :: "int \<Rightarrow> psk_session \<Rightarrow> (int + unit) \<times> psk_session" where
  "session_reset rc s =
     (if rc \<noteq> 0 then (Inl rc, s) else (Inr (), s\<lparr>pk_credentials := None, pk_hs_psk := None\<rparr>))"

definition take_credentials :: "psk_session \<Rightarrow> (bytes \<times> bytes) option \<times> psk_session" where
  "take_credentials s = (pk_credentials s, s\<lparr>pk_credentials := None\<rparr>)"

text \<open>\<open>mbedtls_ssl_set_hs_psk\<close>: the key is installed on a zero code, none is left otherwise.\<close>

definition set_hs_psk :: "(bytes \<Rightarrow> int) \<Rightarrow> bytes \<Rightarrow> psk_session \<Rightarrow> int \<times> psk_session" where
  "set_hs_psk set_rc key s =
     (set_rc key, s\<lparr>pk_hs_psk := (if set_rc key = 0 then Some key else None)\<rparr>)"

text \<open>
  \<open>rng_getrandom\<close> over the results of the system call; None while it has not returned. The model
  returns what was written with the code.
\<close>

datatype getrandom_result = Got bytes | Interrupted | GetrandomError

fun rng_getrandom :: "nat \<Rightarrow> getrandom_result list \<Rightarrow> (int \<times> bytes) option" where
  "rng_getrandom 0 rs = Some (0, [])"
| "rng_getrandom (Suc len) [] = None"
| "rng_getrandom (Suc len) (Interrupted # rs) = rng_getrandom (Suc len) rs"
| "rng_getrandom (Suc len) (GetrandomError # rs) = Some (- 1, [])"
| "rng_getrandom (Suc len) (Got bs # rs) = (case rng_getrandom (Suc len - length bs) rs of
     None \<Rightarrow> None | Some (rc, ws) \<Rightarrow> Some (rc, bs @ ws))"

text \<open>The decoy: the zeroed 32-byte buffer after whatever the generator wrote.\<close>

definition decoy_key :: "bytes \<Rightarrow> bytes" where
  "decoy_key written = take 32 (written @ replicate 32 0)"

definition reject_with_decoy_psk ::
  "(bytes \<Rightarrow> int) \<Rightarrow> bytes \<Rightarrow> psk_session \<Rightarrow> int \<times> psk_session" where
  "reject_with_decoy_psk set_rc written s = (0, snd (set_hs_psk set_rc (decoy_key written) s))"

text \<open>
  \<open>psk_tramp\<close>. The resolver is a function; None is its panic. \<open>has_header\<close>: the user data pointer
  is not null. A null identity is the empty one.
\<close>

definition psk_tramp ::
  "(bytes \<Rightarrow> resolved_psk option option) \<Rightarrow> (bytes \<Rightarrow> int) \<Rightarrow> bytes \<Rightarrow> bool \<Rightarrow> bytes option
   \<Rightarrow> psk_session \<Rightarrow> int \<times> psk_session" where
  "psk_tramp resolve set_rc written has_header ident s =
     (case resolve (case ident of None \<Rightarrow> [] | Some i \<Rightarrow> i) of
        Some (Some resolved) \<Rightarrow>
          (case set_hs_psk set_rc (rp_psk resolved) s of
             (rc, s1) \<Rightarrow>
               if rc \<noteq> 0 then reject_with_decoy_psk set_rc written s1
               else (0, if has_header
                        then s1\<lparr>pk_credentials := Some (rp_identity resolved, rp_token resolved)\<rparr>
                        else s1))
      | _ \<Rightarrow> reject_with_decoy_psk set_rc written s)"

section \<open>The cookie-verified flag\<close>

definition clear_cookie_verified :: "bool \<Rightarrow> bool" where "clear_cookie_verified verified = False"

definition cookie_check_tramp :: "int \<Rightarrow> bool \<Rightarrow> int \<times> bool" where
  "cookie_check_tramp rc verified = (rc, if rc = 0 then True else verified)"

definition take_cookie_verified :: "bool \<Rightarrow> bool \<times> bool" where
  "take_cookie_verified verified = (verified, False)"

text \<open>
  The flag belongs to the configuration, which all sessions share: operations on it arrive from
  any of them. A check carries the session it was made in and the code of the library.
\<close>

datatype flag_op = FlagClear | FlagCheck nat int | FlagTake

fun flag_step :: "flag_op \<Rightarrow> bool \<Rightarrow> bool" where
  "flag_step FlagClear v = clear_cookie_verified v"
| "flag_step (FlagCheck session rc) v = snd (cookie_check_tramp rc v)"
| "flag_step FlagTake v = snd (take_cookie_verified v)"

section \<open>Configurations\<close>

datatype conf_call =
    ConfigNew
  | ConfigDefaults int int int
  | ConfRng
  | ConfTls12Only
  | ConfCiphersuites "int list"
  | ConfCid nat int
  | CookieNew
  | CookieSetup
  | ConfDtlsCookies
  | ConfPskCb
  | ConfPsk bytes bytes

text \<open>The calls that can fail, with the error they become; an allocation fails with a null.\<close>

fun conf_error :: "(conf_call \<Rightarrow> int) \<Rightarrow> conf_call \<Rightarrow> int option" where
  "conf_error sys ConfigNew = (if sys ConfigNew = 0 then Some ERR_NET_RECV_FAILED else None)"
| "conf_error sys CookieNew = (if sys CookieNew = 0 then Some ERR_NET_RECV_FAILED else None)"
| "conf_error sys (ConfigDefaults e t p) =
     (let rc = sys (ConfigDefaults e t p) in if rc \<noteq> 0 then Some rc else None)"
| "conf_error sys (ConfCid n u) = (let rc = sys (ConfCid n u) in if rc \<noteq> 0 then Some rc else None)"
| "conf_error sys CookieSetup = (let rc = sys CookieSetup in if rc \<noteq> 0 then Some rc else None)"
| "conf_error sys (ConfPsk k i) = (let rc = sys (ConfPsk k i) in if rc \<noteq> 0 then Some rc else None)"
| "conf_error sys _ = None"

fun run_conf :: "(conf_call \<Rightarrow> int) \<Rightarrow> conf_call list \<Rightarrow> int + conf_call list" where
  "run_conf sys [] = Inr []"
| "run_conf sys (c # cs) = (case conf_error sys c of
     Some e \<Rightarrow> Inl e
   | None \<Rightarrow> (case run_conf sys cs of Inl e \<Rightarrow> Inl e | Inr made \<Rightarrow> Inr (c # made)))"

definition base_calls :: "bool \<Rightarrow> conf_call list" where
  "base_calls server =
     [ConfigNew,
      ConfigDefaults (if server then SSL_IS_SERVER else SSL_IS_CLIENT) SSL_TRANSPORT_DATAGRAM
        SSL_PRESET_DEFAULT,
      ConfRng, ConfTls12Only, ConfCiphersuites PSK_SUITES]"

text \<open>A finished configuration is the calls that made it.\<close>

definition config_server :: "(conf_call \<Rightarrow> int) \<Rightarrow> int + conf_call list" where
  "config_server sys = run_conf sys (base_calls True @
     [ConfCid CID_LEN SSL_UNEXPECTED_CID_IGNORE, CookieNew, CookieSetup, ConfDtlsCookies, ConfPskCb])"

definition config_client :: "(conf_call \<Rightarrow> int) \<Rightarrow> bytes \<Rightarrow> bytes \<Rightarrow> bool \<Rightarrow> int + conf_call list" where
  "config_client sys ident psk offer_cid = run_conf sys (base_calls False @
     (if offer_cid then [ConfCid 0 SSL_UNEXPECTED_CID_IGNORE] else []) @ [ConfPsk psk ident])"

lemma run_conf_Inr: "run_conf sys cs = Inr made \<Longrightarrow> made = cs \<and> (\<forall>c \<in> set cs. conf_error sys c = None)"
  by (induction cs arbitrary: made) (auto split: option.splits sum.splits)

lemma run_conf_Inl: "run_conf sys cs = Inl e \<Longrightarrow>
    \<exists>pre c post. cs = pre @ c # post \<and> (\<forall>c' \<in> set pre. conf_error sys c' = None)
      \<and> conf_error sys c = Some e"
proof (induction cs)
  case (Cons c cs)
  show ?case
  proof (cases "conf_error sys c")
    case None
    with Cons obtain pre c' post where "cs = pre @ c' # post"
      "\<forall>c' \<in> set pre. conf_error sys c' = None" "conf_error sys c' = Some e"
      by (auto split: sum.splits)
    with None show ?thesis by (intro exI [of _ "c # pre"] exI [of _ c'] exI [of _ post]) auto
  next
    case (Some e')
    with Cons.prems show ?thesis by (intro exI [of _ "[]"] exI [of _ c] exI [of _ cs]) auto
  qed
qed simp

section \<open>Properties\<close>

text \<open>C34. No probing oracle and no borrowed credentials: the PSK callback answers zero whatever happens. When the
  identity (the empty one for a null pointer) resolves and the library takes its key, that key is
  the one installed and the session's credentials become that identity's, if the session has its
  header. On every reject (unknown identity, panic of the resolver, key refused by the library)
  the credentials stay as they were and the 32-byte decoy made from the random generator is
  installed, the same for all of them; no key is installed only if the library refuses the decoy
  too, and a refused key is never the one installed.\<close>

theorem psk_callback_uniform:
  assumes "psk_tramp resolve set_rc written has_header ident s = (rc, s')"
    and "identity = (case ident of None \<Rightarrow> [] | Some i \<Rightarrow> i)"
  shows "rc = 0 \<and> length (decoy_key written) = 32
    \<and> (\<forall>r. resolve identity = Some (Some r) \<and> set_rc (rp_psk r) = 0 \<longrightarrow>
          pk_hs_psk s' = Some (rp_psk r)
          \<and> pk_credentials s' = (if has_header then Some (rp_identity r, rp_token r) else pk_credentials s))
    \<and> ((\<forall>r. resolve identity = Some (Some r) \<longrightarrow> set_rc (rp_psk r) \<noteq> 0) \<longrightarrow>
          pk_credentials s' = pk_credentials s
          \<and> pk_hs_psk s' = (if set_rc (decoy_key written) = 0 then Some (decoy_key written) else None))
    \<and> ((\<exists>r. resolve identity = Some (Some r) \<and> set_rc (rp_psk r) \<noteq> 0) \<longrightarrow>
          (\<forall>r. resolve identity = Some (Some r) \<longrightarrow> pk_hs_psk s' \<noteq> Some (rp_psk r)))"
  using assms
  by (auto simp: psk_tramp_def reject_with_decoy_psk_def set_hs_psk_def decoy_key_def
      split: option.splits if_splits)

theorem psk_callback_uniform_witness:
  "pk_hs_psk (snd (psk_tramp (\<lambda>_. Some None) (\<lambda>_. 0) [1, 2] True (Some [65])
       \<lparr>pk_credentials = None, pk_hs_psk = None\<rparr>)) = Some (1 # 2 # replicate 30 0)
   \<and> pk_hs_psk (snd (psk_tramp (\<lambda>_. Some (Some \<lparr>rp_psk = [], rp_identity = [65], rp_token = [7]\<rparr>))
       (\<lambda>k. if k = [] then - 1 else 0) [1, 2] True (Some [65])
       \<lparr>pk_credentials = None, pk_hs_psk = None\<rparr>)) = Some (1 # 2 # replicate 30 0)"
proof -
  have d: "decoy_key [1, 2] = 1 # 2 # replicate 30 0"
    by (simp add: decoy_key_def numeral_eq_Suc)
  let ?s = "\<lparr>pk_credentials = None, pk_hs_psk = None\<rparr> :: psk_session"
  show ?thesis
    using psk_callback_uniform [OF surjective_pairing refl, of "\<lambda>_. Some None" "\<lambda>_. 0" "[1, 2]" True "Some [65]" ?s]
      psk_callback_uniform [OF surjective_pairing refl, of
        "\<lambda>_. Some (Some \<lparr>rp_psk = [], rp_identity = [65], rp_token = [7]\<rparr>)"
        "\<lambda>k. if k = [] then - 1 else 0" "[1, 2]" True "Some [65]" ?s]
    by (simp add: d)
qed

text \<open>What a read reports: a positive length is data, would-block and expiry are their own codes, and no
  failure or panic is taken for data. A zero-length datagram and a closed channel give mbedTLS
  the same code zero, the code of a closed transport: an empty datagram, which anyone can send
  from a spoofed address, is indistinguishable from the end of the transport.\<close>

theorem recv_codes:
  shows "(\<forall>n. 0 < n \<longrightarrow> 0 < recv_tramp (Some (RecvData n)) \<and> recv_tramp (Some (RecvData n)) \<le> int n)
    \<and> recv_tramp (Some (RecvData 0)) = recv_tramp (Some RecvClosed)
    \<and> (recv_tramp r = 0 \<longleftrightarrow> r = Some (RecvData 0) \<or> r = Some RecvClosed)
    \<and> (recv_tramp r < 0 \<longleftrightarrow> (\<forall>n. r \<noteq> Some (RecvData n)) \<and> r \<noteq> Some RecvClosed)
    \<and> (recv_tramp r = ERR_SSL_TIMEOUT \<longleftrightarrow> r = Some RecvTimerExpired)
    \<and> (recv_tramp r = ERR_SSL_WANT_READ \<longleftrightarrow> r = Some RecvWantRead)"
  by (cases r; simp add: recv_tramp_def code_values C_INT_MAX_def)
    (rename_tac x, case_tac x; auto simp: recv_tramp_def code_values C_INT_MAX_def min_def)

theorem recv_codes_witness:
  "0 < recv_tramp (Some (RecvData 3))"
  using recv_codes by simp

text \<open>The timer mbedTLS reads and the one the transport waits on agree: final expiry is exactly no time
  remaining, a cancelled timer is exactly no bound on the wait, and waiting the remaining time
  and not less reaches expiry.\<close>

theorem timer_agrees:
  assumes "timer_set t0 int_ms fin_ms tm = tm'"
  shows "(timer_remaining now tm' = None \<longleftrightarrow> fin_ms = 0) \<and> (timer_status now tm' = - 1 \<longleftrightarrow> fin_ms = 0)
    \<and> (fin_ms \<noteq> 0 \<longrightarrow> (final_expired now tm' \<longleftrightarrow> timer_remaining now tm' = Some 0)
        \<and> (\<forall>r. timer_remaining now tm' = Some r \<and> t0 \<le> now \<longrightarrow>
              final_expired (now + r) tm' \<and> (\<forall>d < r. \<not> final_expired (now + d) tm')))"
proof -
  have exp: "final_expired n tm' \<longleftrightarrow> fin_ms * 1000000 \<le> n - t0" if "fin_ms \<noteq> 0" for n
    using assms that less_eq_div_iff_mult_less_eq [of 1000000 fin_ms "n - t0"]
    by (auto simp: final_expired_def timer_status_def timer_set_def Let_def split: if_splits)
  show ?thesis
  proof (cases "fin_ms = 0")
    case True
    with assms show ?thesis
      by (auto simp: timer_remaining_def timer_status_def timer_set_def)
  next
    case False
    then have rem: "timer_remaining n tm' = Some (fin_ms * 1000000 - (n - t0))" for n
      using assms by (auto simp: timer_remaining_def timer_set_def from_millis_def)
    have "timer_status now tm' \<noteq> - 1"
      using assms False by (auto simp: timer_status_def timer_set_def Let_def split: if_splits)
    with False rem exp [OF False] show ?thesis by auto
  qed
qed

theorem timer_agrees_witness:
  "timer_remaining 2000000 (timer_set 1000000 1 3 timer_new) = Some 2000000
   \<and> final_expired 4000000 (timer_set 1000000 1 3 timer_new)
   \<and> \<not> final_expired 3999999 (timer_set 1000000 1 3 timer_new)"
proof -
  have r: "timer_remaining 2000000 (timer_set 1000000 1 3 timer_new) = Some 2000000"
    by (simp add: timer_remaining_def timer_set_def from_millis_def)
  from timer_agrees [OF refl, of 2000000 1000000 1 3 timer_new] r
  have "\<forall>d < 2000000. \<not> final_expired (2000000 + d) (timer_set 1000000 1 3 timer_new)"
    and "final_expired (2000000 + 2000000) (timer_set 1000000 1 3 timer_new)" by simp_all
  from this(1) [rule_format, of 1999999] this(2) r show ?thesis by simp
qed

text \<open>A successful check after which nothing cleared the flag, in a history that grows at its end.\<close>

lemma checked_snoc:
  "(\<exists>pre session post. ops @ [op] = pre @ FlagCheck session 0 # post
      \<and> (\<forall>op \<in> set post. op \<noteq> FlagClear \<and> op \<noteq> FlagTake))
   \<longleftrightarrow> (\<exists>session. op = FlagCheck session 0)
      \<or> op \<noteq> FlagClear \<and> op \<noteq> FlagTake
        \<and> (\<exists>pre session post. ops = pre @ FlagCheck session 0 # post
            \<and> (\<forall>op \<in> set post. op \<noteq> FlagClear \<and> op \<noteq> FlagTake))" (is "?l \<longleftrightarrow> ?now \<or> ?before")
proof
  assume ?l
  then obtain pre session post where a: "ops @ [op] = pre @ FlagCheck session 0 # post"
    "\<forall>op \<in> set post. op \<noteq> FlagClear \<and> op \<noteq> FlagTake" by blast
  show "?now \<or> ?before"
  proof (cases post rule: rev_cases)
    case (snoc post' x)
    with a have "ops = pre @ FlagCheck session 0 # post'" "x = op" by simp_all
    with a(2) snoc show ?thesis by fastforce
  qed (use a(1) in simp)
next
  assume "?now \<or> ?before"
  then show ?l
  proof
    assume ?now
    then show ?l by (fastforce intro: exI [of _ ops] exI [of _ "[]"])
  next
    assume b: ?before
    then obtain pre session post where "ops = pre @ FlagCheck session 0 # post"
      "\<forall>op \<in> set post. op \<noteq> FlagClear \<and> op \<noteq> FlagTake" by blast
    with b show ?l by (intro exI [of _ pre] exI [of _ session] exI [of _ "post @ [op]"]) auto
  qed
qed

text \<open>The cookie-verified flag says that some session's cookie check succeeded since the last clear or
  take, not whose: a check made by another session between the listener's clear and take is
  taken for the pending one's.\<close>

theorem cookie_flag_meaning:
  "fst (take_cookie_verified (fold flag_step ops False))
     \<longleftrightarrow> (\<exists>pre session post. ops = pre @ FlagCheck session 0 # post
           \<and> (\<forall>op \<in> set post. op \<noteq> FlagClear \<and> op \<noteq> FlagTake))"
proof (induction ops rule: rev_induct)
  case (snoc op ops)
  then show ?case
    unfolding checked_snoc
    by (cases op) (auto simp: take_cookie_verified_def clear_cookie_verified_def cookie_check_tramp_def)
qed (simp add: take_cookie_verified_def)

theorem cookie_flag_meaning_witness:
  "fst (take_cookie_verified (fold flag_step [FlagClear, FlagCheck 7 0, FlagCheck 1 (- 1)] False))"
proof -
  have "\<exists>pre session post. [FlagClear, FlagCheck 7 0, FlagCheck 1 (- 1)] = pre @ FlagCheck session 0 # post
      \<and> (\<forall>op \<in> set post. op \<noteq> FlagClear \<and> op \<noteq> FlagTake)"
    by (intro exI [of _ "[FlagClear]"] exI [of _ "7 :: nat"] exI [of _ "[FlagCheck 1 (- 1)]"]) simp
  then show ?thesis by (rule cookie_flag_meaning [THEN iffD2])
qed

text \<open>No half-built configuration: a server configuration exists only when every fallible call
  succeeded, and then TLS 1.2 and the three PSK suites were pinned, connection ids of the fixed
  length offered, and cookies and the PSK callback registered; otherwise the error of the first
  failing call is returned. A client is never given the server's callbacks.\<close>

theorem server_config_complete:
  shows "(config_server sys = Inr made \<longrightarrow>
        {ConfTls12Only, ConfCiphersuites [0xC0A8, 0x00A8, 0x00AE, 0], ConfCid 8 0, ConfRng,
          ConfDtlsCookies, ConfPskCb} \<subseteq> set made \<and> (\<forall>c \<in> set made. conf_error sys c = None))
    \<and> (config_server sys = Inl e \<longrightarrow> (\<exists>c \<in> set (base_calls True @ [ConfCid CID_LEN 0, CookieNew,
          CookieSetup]). conf_error sys c = Some e))
    \<and> (config_client sys ident psk offer = Inr made' \<longrightarrow> ConfTls12Only \<in> set made'
        \<and> ConfPsk psk ident \<in> set made' \<and> (ConfCid 0 0 \<in> set made' \<longleftrightarrow> offer)
        \<and> ConfPskCb \<notin> set made' \<and> ConfDtlsCookies \<notin> set made')"
proof (intro conjI impI)
  assume "config_server sys = Inl e"
  from run_conf_Inl [OF this [unfolded config_server_def]] obtain pre c post where
    c: "base_calls True @ [ConfCid CID_LEN SSL_UNEXPECTED_CID_IGNORE, CookieNew, CookieSetup,
      ConfDtlsCookies, ConfPskCb] = pre @ c # post" "conf_error sys c = Some e" by blast
  then have "c \<in> set (base_calls True @ [ConfCid CID_LEN SSL_UNEXPECTED_CID_IGNORE, CookieNew,
      CookieSetup, ConfDtlsCookies, ConfPskCb])" by (metis in_set_conv_decomp)
  moreover have "c \<noteq> ConfDtlsCookies" "c \<noteq> ConfPskCb" using c(2) by auto
  ultimately show "\<exists>c \<in> set (base_calls True @ [ConfCid CID_LEN 0, CookieNew, CookieSetup]).
      conf_error sys c = Some e"
    using c(2) by (auto simp: SSL_UNEXPECTED_CID_IGNORE_def)
next
  assume s: "config_server sys = Inr made"
  note m = run_conf_Inr [OF s [unfolded config_server_def]]
  show "{ConfTls12Only, ConfCiphersuites [0xC0A8, 0x00A8, 0x00AE, 0], ConfCid 8 0, ConfRng,
      ConfDtlsCookies, ConfPskCb} \<subseteq> set made"
    using m by (simp add: base_calls_def PSK_SUITES_def CID_LEN_def SSL_UNEXPECTED_CID_IGNORE_def)
  show "\<forall>c \<in> set made. conf_error sys c = None" using m by simp
next
  assume s: "config_client sys ident psk offer = Inr made'"
  note m = run_conf_Inr [OF s [unfolded config_client_def], THEN conjunct1]
  note defs = base_calls_def SSL_UNEXPECTED_CID_IGNORE_def
  show "ConfTls12Only \<in> set made'" "ConfPsk psk ident \<in> set made'"
    "ConfCid 0 0 \<in> set made' \<longleftrightarrow> offer" "ConfPskCb \<notin> set made'" "ConfDtlsCookies \<notin> set made'"
    unfolding m by (simp_all add: defs)
qed

theorem server_config_complete_witness:
  "ConfPskCb \<in> set (projr (config_server (\<lambda>c. if c = ConfigNew \<or> c = CookieNew then 1 else 0)))"
proof -
  let ?sys = "\<lambda>c. if c = ConfigNew \<or> c = CookieNew then 1 else (0 :: int)"
  have "config_server ?sys = Inr (projr (config_server ?sys))"
    by (simp add: config_server_def base_calls_def)
  with server_config_complete [of ?sys] show ?thesis by blast
qed

end
