(* ===== verification/Dtls_Mbed.thy ===== *)
theory Dtls_Mbed
  imports Dgram_Io Mbed_Shim Tls_Common Quota
begin

text \<open>
  \<open>loft/src/dtls_mbed.rs\<close>: the coaps listener over mbedTLS with RFC 9146 connection ids. The
  transport of a session with its staged and committed peer, the two-map demultiplexer with its
  three routes, the pending session, promotion, and the session thread. The state \<open>mbed_sys\<close> is
  what the listener thread and the session threads share; \<open>mbed_step\<close> interleaves them. mbedTLS
  is a parameter: the results of its calls, as the shim reports them.
\<close>

definition MBED_DTLS_MTU :: nat where "MBED_DTLS_MTU = 1400"
definition CONTENT_TYPE_CID :: u8 where "CONTENT_TYPE_CID = 25"
definition CONTENT_TYPE_HANDSHAKE :: u8 where "CONTENT_TYPE_HANDSHAKE = 22"

section \<open>The transport\<close>

type_synonym sourced = "bytes \<times> socket_addr"

record conn_state =
  cn_queue :: "sourced list"
  cn_connected :: bool
  cn_committed_peer :: socket_addr
  cn_staged_peer :: socket_addr
  cn_pending :: "sourced option"
  cn_tick :: duration
  cn_deadline :: "instant option"

definition take_migration :: "conn_state \<Rightarrow> socket_addr option \<times> conn_state" where
  "take_migration io =
     (if cn_staged_peer io \<noteq> cn_committed_peer io
      then (Some (cn_staged_peer io), io\<lparr>cn_committed_peer := cn_staged_peer io\<rparr>)
      else (None, io))"

definition conn_send :: "(socket_addr \<Rightarrow> bytes \<Rightarrow> nat option) \<Rightarrow> bytes \<Rightarrow> conn_state \<Rightarrow> send_outcome" where
  "conn_send send_to buf io = (case send_to (cn_committed_peer io) buf of
     Some n \<Rightarrow> Sent_ok n | None \<Rightarrow> SendFailed)"

text \<open>How long a read may park.\<close>

definition recv_budget :: "instant \<Rightarrow> timer_state \<Rightarrow> conn_state \<Rightarrow> duration" where
  "recv_budget now tm io =
     (let b1 = (case timer_remaining now tm of None \<Rightarrow> cn_tick io | Some r \<Rightarrow> min (cn_tick io) r) in
      case cn_deadline io of None \<Rightarrow> b1 | Some d \<Rightarrow> min b1 (d - now))"

text \<open>
  \<open>recv\<close> into a buffer of n bytes, entered at \<open>now\<close>; \<open>later\<close> is when a wait that found nothing
  ends. The bytes are those written to the buffer.
\<close>

definition deliver :: "nat \<Rightarrow> sourced \<Rightarrow> conn_state \<Rightarrow> (recv_outcome \<times> bytes) \<times> conn_state" where
  "deliver n fed io = (case fed of (dgram, src) \<Rightarrow>
     if n < length dgram then ((RecvWantRead, []), io)
     else ((RecvData (length dgram), dgram), io\<lparr>cn_staged_peer := src\<rparr>))"

definition conn_recv ::
  "instant \<Rightarrow> instant \<Rightarrow> nat \<Rightarrow> timer_state \<Rightarrow> conn_state \<Rightarrow> (recv_outcome \<times> bytes) \<times> conn_state" where
  "conn_recv now later n tm io =
     (if (case cn_deadline io of None \<Rightarrow> False | Some d \<Rightarrow> d \<le> now) then ((RecvFailed, []), io)
      else (case cn_pending io of
          Some fed \<Rightarrow> deliver n fed (io\<lparr>cn_pending := None\<rparr>)
        | None \<Rightarrow> (case cn_queue io of
            fed # rest \<Rightarrow> deliver n fed (io\<lparr>cn_queue := rest\<rparr>)
          | [] \<Rightarrow>
              (if cn_connected io
               then ((if final_expired later tm then RecvTimerExpired else RecvWantRead, []), io)
               else ((RecvClosed, []), io)))))"

text \<open>The transport provides the contract of a datagram source, for arrivals from any source.\<close>

definition conn_arrive :: "socket_addr \<Rightarrow> bytes \<Rightarrow> conn_state \<Rightarrow> conn_state" where
  "conn_arrive src d io = io\<lparr>cn_queue := cn_queue io @ [(d, src)]\<rparr>"

definition conn_waiting :: "conn_state \<Rightarrow> bytes list" where
  "conn_waiting io =
     map fst ((case cn_pending io of None \<Rightarrow> [] | Some fed \<Rightarrow> [fed]) @ cn_queue io)"

definition recv_data :: "recv_outcome \<times> bytes \<Rightarrow> bytes option" where
  "recv_data r = (case fst r of RecvData _ \<Rightarrow> if snd r = [] then None else Some (snd r) | _ \<Rightarrow> None)"

interpretation conn: datagram_source "\<lambda>now n (later, tm). conn_recv now later n tm" recv_data
  "conn_arrive src" conn_waiting cn_deadline for src
  by unfold_locales
    (auto simp: conn_recv_def deliver_def recv_data_def conn_arrive_def conn_waiting_def
      split: if_splits list.splits option.splits prod.splits)

section \<open>Classifying datagrams\<close>

definition cid_of :: "bytes \<Rightarrow> bytes option" where
  "cid_of dgram =
     (if 21 \<le> length dgram \<and> dgram ! 1 = 0xFE \<and> dgram ! 2 = 0xFD
      then Some (take CID_LEN (drop 11 dgram)) else None)"

definition is_plaintext_handshake :: "bytes \<Rightarrow> bool" where
  "is_plaintext_handshake dgram \<longleftrightarrow> 5 \<le> length dgram \<and> dgram ! 0 = CONTENT_TYPE_HANDSHAKE
     \<and> dgram ! 3 = 0 \<and> dgram ! 4 = 0"

text \<open>\<open>transport_id\<close>: the buffer of 18 bytes after, and the length used.\<close>

definition transport_id :: "socket_addr \<Rightarrow> bytes \<Rightarrow> nat \<times> bytes" where
  "transport_id peer out =
     (let octets = ip_octets (sa_ip peer); used = octets @ u16_to_be_bytes (sa_port peer) in
      (length octets + 2, used @ drop (length used) out))"

section \<open>The listener and its sessions\<close>

type_synonym mb_channel = nat

record session_handle =
  sh_chan :: mb_channel
  sh_conn_id :: nat

text \<open>
  A session thread: what it was promoted with, and how far it got: in the handshake, serving
  (with or without a negotiated connection id, still routed by address or not), returned from
  \<open>session_thread\<close>, past the first and past the second removal.
\<close>

datatype mb_phase = MbHandshaking | MbServing bool bool | MbEnded | MbAddrGone | MbCidGone

record mb_thread =
  mt_peer :: socket_addr
  mt_cid :: bytes
  mt_conn_id :: nat
  mt_chan :: mb_channel
  mt_permit :: conn_permit
  mt_phase :: mb_phase

text \<open>\<open>mb_established\<close> is the flag each handle shares with its session, by connection id.\<close>

record mbed_sys =
  mb_by_addr :: "(socket_addr, session_handle) hash_map"
  mb_by_cid :: "(bytes, session_handle) hash_map"
  mb_pending :: "mb_channel option"
  mb_chans :: "mb_channel \<Rightarrow> sourced list"
  mb_next :: mb_channel
  mb_conn_ids :: nat
  mb_established :: "nat \<Rightarrow> bool"
  mb_threads :: "mb_thread list"
  mb_counts :: counts

definition mbed_init :: mbed_sys where
  "mbed_init = \<lparr>mb_by_addr = [], mb_by_cid = [], mb_pending = None, mb_chans = (\<lambda>_. []), mb_next = 0,
     mb_conn_ids = 1, mb_established = (\<lambda>_. False), mb_threads = [], mb_counts = new_counts\<rparr>"

text \<open>\<open>mint_cid\<close> over the draws of the random generator; None while it has not returned.\<close>

fun mint_cid :: "(bytes, session_handle) hash_map \<Rightarrow> bytes option list \<Rightarrow> bytes option option" where
  "mint_cid by_cid [] = None"
| "mint_cid by_cid (None # draws) = Some None"
| "mint_cid by_cid (Some cid # draws) =
     (if \<not> hm_contains_key by_cid cid then Some (Some cid) else mint_cid by_cid draws)"

definition remove_by_addr_if_mine :: "socket_addr \<Rightarrow> nat \<Rightarrow> mbed_sys \<Rightarrow> mbed_sys" where
  "remove_by_addr_if_mine peer conn_id s =
     (if (case hm_get (mb_by_addr s) peer of Some h \<Rightarrow> sh_conn_id h = conn_id | None \<Rightarrow> False)
      then s\<lparr>mb_by_addr := hm_remove peer (mb_by_addr s)\<rparr> else s)"

definition remove_by_cid_if_mine :: "bytes \<Rightarrow> nat \<Rightarrow> mbed_sys \<Rightarrow> mbed_sys" where
  "remove_by_cid_if_mine cid conn_id s =
     (if (case hm_get (mb_by_cid s) cid of Some h \<Rightarrow> sh_conn_id h = conn_id | None \<Rightarrow> False)
      then s\<lparr>mb_by_cid := hm_remove cid (mb_by_cid s)\<rparr> else s)"

fun mb_running :: "mb_phase \<Rightarrow> bool" where
  "mb_running MbHandshaking = True"
| "mb_running (MbServing cid_active addr_routed) = True"
| "mb_running _ = False"

definition mb_receiver_alive :: "mbed_sys \<Rightarrow> mb_channel \<Rightarrow> bool" where
  "mb_receiver_alive s c \<longleftrightarrow> mb_pending s = Some c
     \<or> (\<exists>t \<in> set (mb_threads s). mt_chan t = c \<and> mb_running (mt_phase t))"

text \<open>Route 1: everything of content type 25, by connection id only.\<close>

definition route_by_cid :: "socket_addr \<Rightarrow> bytes \<Rightarrow> mbed_sys \<Rightarrow> mbed_sys" where
  "route_by_cid peer dgram s =
     (case cid_of dgram of
        None \<Rightarrow> s
      | Some cid \<Rightarrow> (case hm_get (mb_by_cid s) cid of
          None \<Rightarrow> s
        | Some h \<Rightarrow>
            (case try_send (mb_receiver_alive s (sh_chan h)) (mb_chans s (sh_chan h)) (dgram, peer) of
              Sent queue \<Rightarrow> s\<lparr>mb_chans := (mb_chans s)(sh_chan h := queue)\<rparr>
            | Full \<Rightarrow> s
            | Disconnected \<Rightarrow> s\<lparr>mb_by_cid := hm_remove cid (mb_by_cid s)\<rparr>)))"

text \<open>Route 2: by exact source; True when the datagram was delivered or dropped.\<close>

definition route_by_addr :: "socket_addr \<Rightarrow> bytes \<Rightarrow> mbed_sys \<Rightarrow> bool \<times> mbed_sys" where
  "route_by_addr peer dgram s = (case hm_get (mb_by_addr s) peer of
     None \<Rightarrow> (False, s)
   | Some h \<Rightarrow>
       if is_plaintext_handshake dgram \<and> mb_established s (sh_conn_id h) then (False, s)
       else (case try_send (mb_receiver_alive s (sh_chan h)) (mb_chans s (sh_chan h)) (dgram, peer) of
           Sent queue \<Rightarrow> (True, s\<lparr>mb_chans := (mb_chans s)(sh_chan h := queue)\<rparr>)
         | Full \<Rightarrow> (True, s)
         | Disconnected \<Rightarrow> (False, s\<lparr>mb_by_addr := hm_remove peer (mb_by_addr s)\<rparr>)))"

text \<open>
  What a round meets: whether the pending session can be built and reset, the draws of the
  generator, whether the transport id and connection id can be set, the result of the pending
  handshake, the cookie-verified flag after it, and whether a thread can be spawned.
\<close>

record mbed_env =
  me_setup_ok :: bool
  me_reset_ok :: bool
  me_draws :: "bytes option list"
  me_ids_ok :: bool
  me_handshake :: handshake_status
  me_verified :: bool
  me_spawn_ok :: bool

definition mb_pending_listen :: "bool \<Rightarrow> mbed_sys \<Rightarrow> (mb_channel \<times> mbed_sys) option" where
  "mb_pending_listen setup_ok s = (case mb_pending s of
     Some c \<Rightarrow> Some (c, s)
   | None \<Rightarrow>
       if setup_ok then
         Some (mb_next s, s\<lparr>mb_pending := Some (mb_next s), mb_next := Suc (mb_next s)\<rparr>)
       else None)"

definition promote ::
  "bool \<Rightarrow> mb_channel \<Rightarrow> bytes \<Rightarrow> conn_permit \<Rightarrow> socket_addr \<Rightarrow> mbed_sys \<Rightarrow> mbed_sys" where
  "promote spawn_ok c cid permit peer s =
     (case next_conn_id (mb_conn_ids s) of (conn_id, ids) \<Rightarrow>
       let h = \<lparr>sh_chan = c, sh_conn_id = conn_id\<rparr>;
           s1 = s\<lparr>mb_conn_ids := ids, mb_established := (mb_established s)(conn_id := False),
                  mb_by_addr := hm_insert peer h (mb_by_addr s),
                  mb_by_cid := hm_insert cid h (mb_by_cid s)\<rparr> in
       if spawn_ok then
         s1\<lparr>mb_threads := \<lparr>mt_peer = peer, mt_cid = cid, mt_conn_id = conn_id, mt_chan = c,
              mt_permit = permit, mt_phase = MbHandshaking\<rparr> # mb_threads s1\<rparr>
       else remove_by_cid_if_mine cid conn_id (remove_by_addr_if_mine peer conn_id
              (s1\<lparr>mb_counts := permit_drop permit (mb_counts s1)\<rparr>)))"

text \<open>
  Route 3: the pending path. The second component says whether the pending session was driven,
  the only point of a round at which anything is sent.
\<close>

definition route_pending ::
  "conn_quota \<Rightarrow> mbed_env \<Rightarrow> socket_addr \<Rightarrow> mbed_sys \<Rightarrow> mbed_sys \<times> bool" where
  "route_pending q env peer s =
     (if is_full q (mb_counts s) then (s, False)
      else (case mb_pending_listen (me_setup_ok env) s of
          None \<Rightarrow> (s, False)
        | Some (c, s2) \<Rightarrow>
            if \<not> me_reset_ok env then (s2\<lparr>mb_pending := None\<rparr>, False)
            else (case mint_cid (mb_by_cid s2) (me_draws env) of
                Some (Some cid) \<Rightarrow>
                  if \<not> me_ids_ok env then (s2\<lparr>mb_pending := None\<rparr>, False)
                  else ((case me_handshake env of
                      HelloVerifyRequired \<Rightarrow> s2
                    | HsDone \<Rightarrow> s2\<lparr>mb_pending := None\<rparr>
                    | HsFailed _ \<Rightarrow> s2
                    | _ \<Rightarrow>
                        if me_verified env then
                          let s3 = s2\<lparr>mb_pending := None\<rparr> in
                          (case try_acquire q (sa_ip peer) (mb_counts s3) of
                            (Some permit, counts) \<Rightarrow>
                              promote (me_spawn_ok env) c cid permit peer (s3\<lparr>mb_counts := counts\<rparr>)
                          | (None, _) \<Rightarrow> s3)
                        else s2), True)
              | _ \<Rightarrow> (s2, False))))"

definition mb_listen_datagram ::
  "conn_quota \<Rightarrow> mbed_env \<Rightarrow> socket_addr \<Rightarrow> bytes \<Rightarrow> mbed_sys \<Rightarrow> mbed_sys \<times> bool" where
  "mb_listen_datagram q env source dgram s =
     (let peer = canonical_peer source in
      if dgram \<noteq> [] \<and> dgram ! 0 = CONTENT_TYPE_CID then (route_by_cid peer dgram s, False)
      else (case route_by_addr peer dgram s of
          (True, s1) \<Rightarrow> (s1, False)
        | (False, s1) \<Rightarrow> route_pending q env peer s1))"

section \<open>What the session threads do to the shared state\<close>

definition mb_set_phase :: "nat \<Rightarrow> mb_phase \<Rightarrow> mbed_sys \<Rightarrow> mbed_sys" where
  "mb_set_phase conn_id ph s = s\<lparr>mb_threads :=
     map (\<lambda>t. if mt_conn_id t = conn_id then t\<lparr>mt_phase := ph\<rparr> else t) (mb_threads s)\<rparr>"

text \<open>The handshake is done and the credentials taken.\<close>

definition mb_establish :: "mb_thread \<Rightarrow> bool \<Rightarrow> mbed_sys \<Rightarrow> mbed_sys" where
  "mb_establish t cid_active s =
     (let s1 = s\<lparr>mb_established := (mb_established s)(mt_conn_id t := True)\<rparr> in
      mb_set_phase (mt_conn_id t) (MbServing cid_active True)
        (if cid_active then s1 else remove_by_cid_if_mine (mt_cid t) (mt_conn_id t) s1))"

text \<open>The first authenticated read of a session with a connection id.\<close>

definition mb_first_read :: "mb_thread \<Rightarrow> mbed_sys \<Rightarrow> mbed_sys" where
  "mb_first_read t s = mb_set_phase (mt_conn_id t) (MbServing True False)
     (remove_by_addr_if_mine (mt_peer t) (mt_conn_id t) s)"

definition mb_remove_addr :: "mb_thread \<Rightarrow> mbed_sys \<Rightarrow> mbed_sys" where
  "mb_remove_addr t s = mb_set_phase (mt_conn_id t) MbAddrGone
     (remove_by_addr_if_mine (mt_peer t) (mt_conn_id t) s)"

definition mb_remove_cid :: "mb_thread \<Rightarrow> mbed_sys \<Rightarrow> mbed_sys" where
  "mb_remove_cid t s = mb_set_phase (mt_conn_id t) MbCidGone
     (remove_by_cid_if_mine (mt_cid t) (mt_conn_id t) s)"

definition mb_finish :: "mb_thread \<Rightarrow> mbed_sys \<Rightarrow> mbed_sys" where
  "mb_finish t s = s\<lparr>mb_threads := remove1 t (mb_threads s),
     mb_counts := permit_drop (mt_permit t) (mb_counts s)\<rparr>"

text \<open>
  \<open>session_thread\<close> may end at any point (a panic included); the cleanup follows it. \<open>other_ids\<close>:
  the stream listener draws from the same counter.
\<close>

inductive mbed_step :: "conn_quota \<Rightarrow> mbed_sys \<Rightarrow> mbed_sys \<Rightarrow> bool" for q where
  datagram: "mbed_step q s (fst (mb_listen_datagram q env source dgram s))"
| taken: "t \<in> set (mb_threads s) \<Longrightarrow> mb_running (mt_phase t) \<Longrightarrow> mb_chans s (mt_chan t) = d # rest \<Longrightarrow>
    mbed_step q s (s\<lparr>mb_chans := (mb_chans s)(mt_chan t := rest)\<rparr>)"
| established: "t \<in> set (mb_threads s) \<Longrightarrow> mt_phase t = MbHandshaking \<Longrightarrow>
    mbed_step q s (mb_establish t cid_active s)"
| first_read: "t \<in> set (mb_threads s) \<Longrightarrow> mt_phase t = MbServing True True \<Longrightarrow>
    mbed_step q s (mb_first_read t s)"
| ended: "t \<in> set (mb_threads s) \<Longrightarrow> mb_running (mt_phase t) \<Longrightarrow>
    mbed_step q s (mb_set_phase (mt_conn_id t) MbEnded s)"
| addr_removed: "t \<in> set (mb_threads s) \<Longrightarrow> mt_phase t = MbEnded \<Longrightarrow>
    mbed_step q s (mb_remove_addr t s)"
| cid_removed: "t \<in> set (mb_threads s) \<Longrightarrow> mt_phase t = MbAddrGone \<Longrightarrow>
    mbed_step q s (mb_remove_cid t s)"
| finished: "t \<in> set (mb_threads s) \<Longrightarrow> mt_phase t = MbCidGone \<Longrightarrow> mbed_step q s (mb_finish t s)"
| other_ids: "mbed_step q s (s\<lparr>mb_conn_ids := snd (next_conn_id (mb_conn_ids s))\<rparr>)"

abbreviation mbed_reachable :: "conn_quota \<Rightarrow> mbed_sys \<Rightarrow> bool" where
  "mbed_reachable q s \<equiv> rtranclp (mbed_step q) mbed_init s"

section \<open>The invariant\<close>

definition mb_handle :: "mb_thread \<Rightarrow> session_handle" where
  "mb_handle t = \<lparr>sh_chan = mt_chan t, sh_conn_id = mt_conn_id t\<rparr>"

fun cid_live :: "mb_phase \<Rightarrow> bool" where
  "cid_live MbHandshaking = True"
| "cid_live (MbServing cid_active addr_routed) = cid_active"
| "cid_live _ = False"

fun flag_ok :: "mb_phase \<Rightarrow> bool \<Rightarrow> bool" where
  "flag_ok MbHandshaking b = (\<not> b)"
| "flag_ok (MbServing cid_active addr_routed) b = b"
| "flag_ok _ b = True"

definition mb_ids_ok :: "mbed_sys \<Rightarrow> bool" where
  "mb_ids_ok s \<longleftrightarrow> distinct (map mt_conn_id (mb_threads s)) \<and> distinct (map mt_chan (mb_threads s))
     \<and> (\<forall>t \<in> set (mb_threads s). mt_conn_id t < mb_conn_ids s \<and> mt_chan t < mb_next s
          \<and> mb_pending s \<noteq> Some (mt_chan t)
          \<and> mt_permit t = ConnPermit (bucket (sa_ip (mt_peer t))))
     \<and> (\<forall>c. mb_pending s = Some c \<longrightarrow> c < mb_next s \<and> mb_chans s c = [])
     \<and> (\<forall>c. mb_next s \<le> c \<longrightarrow> mb_chans s c = [])
     \<and> (\<forall>c. length (mb_chans s c) \<le> CONN_CHANNEL_DEPTH)"

definition mb_maps_ok :: "mbed_sys \<Rightarrow> bool" where
  "mb_maps_ok s \<longleftrightarrow> hm_ok (mb_by_addr s) \<and> hm_ok (mb_by_cid s)
     \<and> (\<forall>p h. hm_get (mb_by_addr s) p = Some h \<longrightarrow> (\<exists>t \<in> set (mb_threads s).
          h = mb_handle t \<and> mt_peer t = p \<and> mt_phase t \<noteq> MbAddrGone \<and> mt_phase t \<noteq> MbCidGone))
     \<and> (\<forall>k h. hm_get (mb_by_cid s) k = Some h \<longrightarrow> (\<exists>t \<in> set (mb_threads s).
          h = mb_handle t \<and> mt_cid t = k \<and> mt_phase t \<noteq> MbCidGone))"

definition mb_live_ok :: "mbed_sys \<Rightarrow> bool" where
  "mb_live_ok s \<longleftrightarrow> (\<forall>t \<in> set (mb_threads s).
     (cid_live (mt_phase t) \<longrightarrow> hm_get (mb_by_cid s) (mt_cid t) = Some (mb_handle t))
     \<and> flag_ok (mt_phase t) (mb_established s (mt_conn_id t)))"

definition mb_inv :: "mbed_sys \<Rightarrow> bool" where
  "mb_inv s \<longleftrightarrow> mb_ids_ok s \<and> mb_maps_ok s \<and> mb_live_ok s"

lemma mb_inv_init: "mb_inv mbed_init"
  by (simp add: mb_inv_def mb_ids_ok_def mb_maps_ok_def mb_live_ok_def mbed_init_def)

lemma mb_handle_eq [simp]:
  "sh_conn_id (mb_handle t) = mt_conn_id t" "sh_chan (mb_handle t) = mt_chan t"
  "mb_handle (t\<lparr>mt_phase := ph\<rparr>) = mb_handle t"
  by (simp_all add: mb_handle_def)

lemma same_conn_same_thread:
  "mb_ids_ok s \<Longrightarrow> t \<in> set (mb_threads s) \<Longrightarrow> t' \<in> set (mb_threads s) \<Longrightarrow>
    mt_conn_id t = mt_conn_id t' \<or> mt_chan t = mt_chan t' \<Longrightarrow> t = t'"
  unfolding mb_ids_ok_def by (metis distinct_map inj_on_def)

lemma remove_by_addr_frame:
  "hm_get (mb_by_addr (remove_by_addr_if_mine peer i s)) p =
     (case hm_get (mb_by_addr s) p of
        Some h \<Rightarrow> if p = peer \<and> sh_conn_id h = i then None else Some h | None \<Rightarrow> None)"
  "mb_by_cid (remove_by_addr_if_mine peer i s) = mb_by_cid s"
  "hm_ok (mb_by_addr s) \<Longrightarrow> hm_ok (mb_by_addr (remove_by_addr_if_mine peer i s))"
  "mb_threads (remove_by_addr_if_mine peer i s) = mb_threads s"
  "mb_chans (remove_by_addr_if_mine peer i s) = mb_chans s"
  "mb_pending (remove_by_addr_if_mine peer i s) = mb_pending s"
  "mb_next (remove_by_addr_if_mine peer i s) = mb_next s"
  "mb_conn_ids (remove_by_addr_if_mine peer i s) = mb_conn_ids s"
  "mb_established (remove_by_addr_if_mine peer i s) = mb_established s"
  "mb_counts (remove_by_addr_if_mine peer i s) = mb_counts s"
  by (auto simp: remove_by_addr_if_mine_def table_simps split: option.splits)

lemma remove_by_cid_frame:
  "hm_get (mb_by_cid (remove_by_cid_if_mine cid i s)) k =
     (case hm_get (mb_by_cid s) k of
        Some h \<Rightarrow> if k = cid \<and> sh_conn_id h = i then None else Some h | None \<Rightarrow> None)"
  "mb_by_addr (remove_by_cid_if_mine cid i s) = mb_by_addr s"
  "hm_ok (mb_by_cid s) \<Longrightarrow> hm_ok (mb_by_cid (remove_by_cid_if_mine cid i s))"
  "mb_threads (remove_by_cid_if_mine cid i s) = mb_threads s"
  "mb_chans (remove_by_cid_if_mine cid i s) = mb_chans s"
  "mb_pending (remove_by_cid_if_mine cid i s) = mb_pending s"
  "mb_next (remove_by_cid_if_mine cid i s) = mb_next s"
  "mb_conn_ids (remove_by_cid_if_mine cid i s) = mb_conn_ids s"
  "mb_established (remove_by_cid_if_mine cid i s) = mb_established s"
  "mb_counts (remove_by_cid_if_mine cid i s) = mb_counts s"
  by (auto simp: remove_by_cid_if_mine_def table_simps split: option.splits)

lemmas remove_frames = remove_by_addr_frame remove_by_cid_frame

lemma set_phase_frame [simp]:
  "mb_by_addr (mb_set_phase i ph s) = mb_by_addr s" "mb_by_cid (mb_set_phase i ph s) = mb_by_cid s"
  "mb_chans (mb_set_phase i ph s) = mb_chans s" "mb_pending (mb_set_phase i ph s) = mb_pending s"
  "mb_next (mb_set_phase i ph s) = mb_next s" "mb_conn_ids (mb_set_phase i ph s) = mb_conn_ids s"
  "mb_established (mb_set_phase i ph s) = mb_established s"
  "mb_counts (mb_set_phase i ph s) = mb_counts s"
  "map mt_conn_id (mb_threads (mb_set_phase i ph s)) = map mt_conn_id (mb_threads s)"
  "map mt_chan (mb_threads (mb_set_phase i ph s)) = map mt_chan (mb_threads s)"
  "map mt_permit (mb_threads (mb_set_phase i ph s)) = map mt_permit (mb_threads s)"
  by (auto simp: mb_set_phase_def comp_def if_distrib cong: if_cong)

lemma set_phase_mem:
  "t \<in> set (mb_threads s) \<Longrightarrow> (if mt_conn_id t = i then t\<lparr>mt_phase := ph\<rparr> else t)
    \<in> set (mb_threads (mb_set_phase i ph s))"
  by (simp add: mb_set_phase_def)

lemma set_phase_ball:
  "(\<forall>t \<in> set (mb_threads (mb_set_phase i ph s)). P t)
    \<longleftrightarrow> (\<forall>t \<in> set (mb_threads s). P (if mt_conn_id t = i then t\<lparr>mt_phase := ph\<rparr> else t))"
proof -
  have "mb_threads (mb_set_phase i ph s)
      = map (\<lambda>t. if mt_conn_id t = i then t\<lparr>mt_phase := ph\<rparr> else t) (mb_threads s)"
    by (simp add: mb_set_phase_def)
  then show ?thesis by (simp only: list.set_map ball_simps(9))
qed

lemma set_phase_ids_ok [simp]: "mb_ids_ok (mb_set_phase i ph s) \<longleftrightarrow> mb_ids_ok s"
proof -
  have "(\<forall>t \<in> set (mb_threads (mb_set_phase i ph s)). mt_conn_id t < mb_conn_ids s
      \<and> mt_chan t < mb_next s \<and> mb_pending s \<noteq> Some (mt_chan t)
      \<and> mt_permit t = ConnPermit (bucket (sa_ip (mt_peer t))))
    \<longleftrightarrow> (\<forall>t \<in> set (mb_threads s). mt_conn_id t < mb_conn_ids s
      \<and> mt_chan t < mb_next s \<and> mb_pending s \<noteq> Some (mt_chan t)
      \<and> mt_permit t = ConnPermit (bucket (sa_ip (mt_peer t))))"
    unfolding set_phase_ball by (intro ball_cong refl) simp
  then show ?thesis unfolding mb_ids_ok_def set_phase_frame by blast
qed

lemma set_phase_maps_ok:
  assumes m: "mb_maps_ok s"
    and a: "ph = MbAddrGone \<or> ph = MbCidGone \<Longrightarrow>
      \<forall>p h. hm_get (mb_by_addr s) p = Some h \<longrightarrow> sh_conn_id h \<noteq> i"
    and c: "ph = MbCidGone \<Longrightarrow> \<forall>k h. hm_get (mb_by_cid s) k = Some h \<longrightarrow> sh_conn_id h \<noteq> i"
  shows "mb_maps_ok (mb_set_phase i ph s)"
proof -
  have "\<exists>t \<in> set (mb_threads (mb_set_phase i ph s)). h = mb_handle t \<and> mt_peer t = p
      \<and> mt_phase t \<noteq> MbAddrGone \<and> mt_phase t \<noteq> MbCidGone"
    if g: "hm_get (mb_by_addr s) p = Some h" for p h
  proof -
    obtain t where t: "t \<in> set (mb_threads s)" "h = mb_handle t" "mt_peer t = p"
      "mt_phase t \<noteq> MbAddrGone" "mt_phase t \<noteq> MbCidGone" using m g unfolding mb_maps_ok_def by blast
    have "sh_conn_id h \<noteq> i" if "ph = MbAddrGone \<or> ph = MbCidGone" using a [OF that] g by blast
    then have "mt_conn_id t = i \<longrightarrow> ph \<noteq> MbAddrGone \<and> ph \<noteq> MbCidGone" using t(2) by auto
    with t show ?thesis
      by (intro bexI [OF _ set_phase_mem [OF t(1), of i ph]]) auto
  qed
  moreover have "\<exists>t \<in> set (mb_threads (mb_set_phase i ph s)). h = mb_handle t \<and> mt_cid t = k
      \<and> mt_phase t \<noteq> MbCidGone" if g: "hm_get (mb_by_cid s) k = Some h" for k h
  proof -
    obtain t where t: "t \<in> set (mb_threads s)" "h = mb_handle t" "mt_cid t = k"
      "mt_phase t \<noteq> MbCidGone" using m g unfolding mb_maps_ok_def by blast
    have "sh_conn_id h \<noteq> i" if "ph = MbCidGone" using c [OF that] g by blast
    then have "mt_conn_id t = i \<longrightarrow> ph \<noteq> MbCidGone" using t(2) by auto
    with t show ?thesis
      by (intro bexI [OF _ set_phase_mem [OF t(1), of i ph]]) auto
  qed
  ultimately show ?thesis using m unfolding mb_maps_ok_def set_phase_frame by blast
qed

lemma set_phase_live_ok:
  assumes l: "\<forall>t \<in> set (mb_threads s). mt_conn_id t \<noteq> i \<longrightarrow>
      (cid_live (mt_phase t) \<longrightarrow> hm_get (mb_by_cid s) (mt_cid t) = Some (mb_handle t))
      \<and> flag_ok (mt_phase t) (mb_established s (mt_conn_id t))"
    and n: "\<forall>t \<in> set (mb_threads s). mt_conn_id t = i \<longrightarrow>
      (cid_live ph \<longrightarrow> hm_get (mb_by_cid s) (mt_cid t) = Some (mb_handle t))
      \<and> flag_ok ph (mb_established s i)"
  shows "mb_live_ok (mb_set_phase i ph s)"
  unfolding mb_live_ok_def set_phase_ball set_phase_frame
  using l n by (intro ballI) simp

section \<open>The session threads preserve it\<close>

lemma remove_ids_ok [simp]:
  "mb_ids_ok (remove_by_addr_if_mine peer i s) \<longleftrightarrow> mb_ids_ok s"
  "mb_ids_ok (remove_by_cid_if_mine cid i s) \<longleftrightarrow> mb_ids_ok s"
  by (simp_all add: mb_ids_ok_def remove_frames)

lemma remove_maps_ok:
  assumes "mb_maps_ok s"
  shows "mb_maps_ok (remove_by_addr_if_mine peer i s)" "mb_maps_ok (remove_by_cid_if_mine cid i s)"
  using assms
  by (auto simp: mb_maps_ok_def remove_frames split: option.splits if_splits)

lemma removed_mine:
  assumes i: "mb_ids_ok s" and m: "mb_maps_ok s" and t: "t \<in> set (mb_threads s)"
  shows "\<forall>p h. hm_get (mb_by_addr (remove_by_addr_if_mine (mt_peer t) (mt_conn_id t) s)) p = Some h
      \<longrightarrow> sh_conn_id h \<noteq> mt_conn_id t"
    and "\<forall>k h. hm_get (mb_by_cid (remove_by_cid_if_mine (mt_cid t) (mt_conn_id t) s)) k = Some h
      \<longrightarrow> sh_conn_id h \<noteq> mt_conn_id t"
proof -
  have same: "t' = t" if "t' \<in> set (mb_threads s)" "sh_conn_id (mb_handle t') = mt_conn_id t" for t'
    using same_conn_same_thread [OF i that(1) t] that(2) by simp
  have "sh_conn_id h \<noteq> mt_conn_id t" if "hm_get (mb_by_addr s) p = Some h" "p \<noteq> mt_peer t" for p h
  proof -
    note g = that
    obtain t' where "t' \<in> set (mb_threads s)" "h = mb_handle t'" "mt_peer t' = p"
      using m g(1) unfolding mb_maps_ok_def by blast
    with same [of t'] g(2) show ?thesis by auto
  qed
  then show "\<forall>p h. hm_get (mb_by_addr (remove_by_addr_if_mine (mt_peer t) (mt_conn_id t) s)) p = Some h
      \<longrightarrow> sh_conn_id h \<noteq> mt_conn_id t"
    by (auto simp: remove_by_addr_frame split: option.splits if_splits)
  have "sh_conn_id h \<noteq> mt_conn_id t" if "hm_get (mb_by_cid s) k = Some h" "k \<noteq> mt_cid t" for k h
  proof -
    note g = that
    obtain t' where "t' \<in> set (mb_threads s)" "h = mb_handle t'" "mt_cid t' = k"
      using m g(1) unfolding mb_maps_ok_def by blast
    with same [of t'] g(2) show ?thesis by auto
  qed
  then show "\<forall>k h. hm_get (mb_by_cid (remove_by_cid_if_mine (mt_cid t) (mt_conn_id t) s)) k = Some h
      \<longrightarrow> sh_conn_id h \<noteq> mt_conn_id t"
    by (auto simp: remove_by_cid_frame split: option.splits if_splits)
qed

text \<open>Removing one's own entries leaves the routes of the other live sessions.\<close>

definition others_live :: "nat \<Rightarrow> mbed_sys \<Rightarrow> bool" where
  "others_live i s \<longleftrightarrow> (\<forall>t \<in> set (mb_threads s). mt_conn_id t \<noteq> i \<longrightarrow>
     (cid_live (mt_phase t) \<longrightarrow> hm_get (mb_by_cid s) (mt_cid t) = Some (mb_handle t))
     \<and> flag_ok (mt_phase t) (mb_established s (mt_conn_id t)))"

lemma others_live_remove:
  assumes "others_live i s"
  shows "others_live i (remove_by_addr_if_mine peer i s)" "others_live i (remove_by_cid_if_mine cid i s)"
  using assms by (auto simp: others_live_def remove_frames)

lemma live_others: "mb_live_ok s \<Longrightarrow> others_live i s"
  by (auto simp: mb_live_ok_def others_live_def)

lemma quiet_phase_inv:
  assumes "mb_ids_ok s" and "mb_maps_ok s" and "others_live i s" and "\<not> cid_live ph" and "\<forall>b. flag_ok ph b"
    and "ph = MbAddrGone \<or> ph = MbCidGone \<Longrightarrow>
      \<forall>p h. hm_get (mb_by_addr s) p = Some h \<longrightarrow> sh_conn_id h \<noteq> i"
    and "ph = MbCidGone \<Longrightarrow> \<forall>k h. hm_get (mb_by_cid s) k = Some h \<longrightarrow> sh_conn_id h \<noteq> i"
  shows "mb_inv (mb_set_phase i ph s)"
proof -
  have "mb_live_ok (mb_set_phase i ph s)"
    using assms(3-5) unfolding others_live_def by (intro set_phase_live_ok) blast+
  moreover have "mb_maps_ok (mb_set_phase i ph s)"
    by (rule set_phase_maps_ok [OF assms(2)], rule assms(6), assumption, rule assms(7), assumption)
  ultimately show ?thesis using assms(1) by (simp add: mb_inv_def)
qed

lemma mb_ended_inv: "mb_inv s \<Longrightarrow> mb_inv (mb_set_phase i MbEnded s)"
  by (rule quiet_phase_inv) (auto simp: mb_inv_def live_others)

lemma mb_remove_addr_inv:
  assumes inv: "mb_inv s" and t: "t \<in> set (mb_threads s)"
  shows "mb_inv (mb_remove_addr t s)"
  unfolding mb_remove_addr_def
  by (rule quiet_phase_inv)
    (use inv removed_mine(1) [OF _ _ t] in
      \<open>auto simp: mb_inv_def live_others intro!: remove_maps_ok others_live_remove\<close>)

lemma no_addr_entry:
  assumes inv: "mb_inv s" and t: "t \<in> set (mb_threads s)" and ph: "mt_phase t = MbAddrGone \<or> mt_phase t = MbCidGone"
  shows "\<forall>p h. hm_get (mb_by_addr s) p = Some h \<longrightarrow> sh_conn_id h \<noteq> mt_conn_id t"
proof (intro allI impI notI)
  fix p h assume h: "hm_get (mb_by_addr s) p = Some h" "sh_conn_id h = mt_conn_id t"
  then obtain t' where "t' \<in> set (mb_threads s)" "h = mb_handle t'" "mt_phase t' \<noteq> MbAddrGone"
    "mt_phase t' \<noteq> MbCidGone" using inv unfolding mb_inv_def mb_maps_ok_def by blast
  moreover from this h have "t' = t"
    using same_conn_same_thread [of s t' t] inv t by (auto simp: mb_inv_def)
  ultimately show False using ph by blast
qed

lemma no_cid_entry:
  assumes inv: "mb_inv s" and t: "t \<in> set (mb_threads s)" and ph: "mt_phase t = MbCidGone"
  shows "\<forall>k h. hm_get (mb_by_cid s) k = Some h \<longrightarrow> sh_conn_id h \<noteq> mt_conn_id t"
proof (intro allI impI notI)
  fix k h assume h: "hm_get (mb_by_cid s) k = Some h" "sh_conn_id h = mt_conn_id t"
  then obtain t' where "t' \<in> set (mb_threads s)" "h = mb_handle t'" "mt_phase t' \<noteq> MbCidGone"
    using inv unfolding mb_inv_def mb_maps_ok_def by blast
  moreover from this h have "t' = t"
    using same_conn_same_thread [of s t' t] inv t by (auto simp: mb_inv_def)
  ultimately show False using ph by blast
qed

lemma mb_remove_cid_inv:
  assumes inv: "mb_inv s" and t: "t \<in> set (mb_threads s)" and ph: "mt_phase t = MbAddrGone"
  shows "mb_inv (mb_remove_cid t s)"
  unfolding mb_remove_cid_def
proof (rule quiet_phase_inv)
  show "\<forall>p h. hm_get (mb_by_addr (remove_by_cid_if_mine (mt_cid t) (mt_conn_id t) s)) p = Some h
      \<longrightarrow> sh_conn_id h \<noteq> mt_conn_id t"
    using no_addr_entry [OF inv t] ph by (simp add: remove_by_cid_frame)
qed (use inv removed_mine(2) [OF _ _ t] in
      \<open>auto simp: mb_inv_def live_others intro!: remove_maps_ok others_live_remove\<close>)

lemma mb_establish_inv:
  assumes inv: "mb_inv s" and t: "t \<in> set (mb_threads s)" and ph: "mt_phase t = MbHandshaking"
  shows "mb_inv (mb_establish t cid_active s)"
proof -
  let ?i = "mt_conn_id t"
  let ?s1 = "s\<lparr>mb_established := (mb_established s)(?i := True)\<rparr>"
  let ?s2 = "if cid_active then ?s1 else remove_by_cid_if_mine (mt_cid t) ?i ?s1"
  have s1: "mb_ids_ok ?s1" "mb_maps_ok ?s1" "others_live ?i ?s1"
    using inv by (auto simp: mb_inv_def mb_ids_ok_def mb_maps_ok_def mb_live_ok_def others_live_def)
  then have s2: "mb_ids_ok ?s2" "mb_maps_ok ?s2" "others_live ?i ?s2"
    by (simp_all add: remove_maps_ok others_live_remove)
  have "\<forall>t' \<in> set (mb_threads ?s2). mt_conn_id t' = ?i \<longrightarrow> t' = t"
    using same_conn_same_thread [OF s1(1), of _ t] t by (auto simp: remove_frames)
  moreover have "cid_active \<Longrightarrow> hm_get (mb_by_cid ?s2) (mt_cid t) = Some (mb_handle t)"
    using inv t ph by (fastforce simp: mb_inv_def mb_live_ok_def)
  ultimately have "mb_live_ok (mb_set_phase ?i (MbServing cid_active True) ?s2)"
    by (intro set_phase_live_ok s2(3) [unfolded others_live_def]) (auto simp: remove_frames)
  moreover have "mb_maps_ok (mb_set_phase ?i (MbServing cid_active True) ?s2)"
    by (rule set_phase_maps_ok [OF s2(2)]) simp_all
  ultimately show ?thesis using s2(1) by (simp add: mb_inv_def mb_establish_def Let_def)
qed

lemma mb_first_read_inv:
  assumes inv: "mb_inv s" and t: "t \<in> set (mb_threads s)" and ph: "mt_phase t = MbServing True True"
  shows "mb_inv (mb_first_read t s)"
proof -
  let ?i = "mt_conn_id t"
  let ?s2 = "remove_by_addr_if_mine (mt_peer t) ?i s"
  have s2: "mb_ids_ok ?s2" "mb_maps_ok ?s2" "others_live ?i ?s2"
    using inv by (simp_all add: mb_inv_def remove_maps_ok others_live_remove live_others)
  have "\<forall>t' \<in> set (mb_threads ?s2). mt_conn_id t' = ?i \<longrightarrow> t' = t"
    using same_conn_same_thread [of s _ t] t inv by (auto simp: remove_frames mb_inv_def)
  moreover have "hm_get (mb_by_cid ?s2) (mt_cid t) = Some (mb_handle t)" "mb_established ?s2 ?i"
    using inv t ph by (auto simp: mb_inv_def mb_live_ok_def remove_frames)
  ultimately have "mb_live_ok (mb_set_phase ?i (MbServing True False) ?s2)"
    by (intro set_phase_live_ok s2(3) [unfolded others_live_def]) auto
  moreover have "mb_maps_ok (mb_set_phase ?i (MbServing True False) ?s2)"
    by (rule set_phase_maps_ok [OF s2(2)]) simp_all
  ultimately show ?thesis using s2(1) by (simp add: mb_inv_def mb_first_read_def)
qed

lemma mb_finish_inv:
  assumes inv: "mb_inv s" and t: "t \<in> set (mb_threads s)" and ph: "mt_phase t = MbCidGone"
  shows "mb_inv (mb_finish t s)"
proof -
  let ?ts = "remove1 t (mb_threads s)"
  have sub: "set ?ts \<subseteq> set (mb_threads s)" by (rule set_remove1_subset)
  have keep: "t' \<in> set ?ts" if "t' \<in> set (mb_threads s)" "mt_phase t' \<noteq> MbCidGone" for t'
    using that ph in_set_remove1 [of t' t "mb_threads s"] by blast
  have "distinct (map mt_conn_id ?ts)" "distinct (map mt_chan ?ts)"
    using inv sub unfolding mb_inv_def mb_ids_ok_def distinct_map
    by (meson distinct_remove1 inj_on_subset)+
  then have "mb_ids_ok (mb_finish t s)"
    using inv sub unfolding mb_inv_def mb_ids_ok_def mb_finish_def by auto
  moreover have "\<exists>t' \<in> set ?ts. h = mb_handle t' \<and> mt_peer t' = p \<and> mt_phase t' \<noteq> MbAddrGone
      \<and> mt_phase t' \<noteq> MbCidGone" if "hm_get (mb_by_addr s) p = Some h" for p h
    using that inv keep unfolding mb_inv_def mb_maps_ok_def by blast
  moreover have "\<exists>t' \<in> set ?ts. h = mb_handle t' \<and> mt_cid t' = k \<and> mt_phase t' \<noteq> MbCidGone"
    if "hm_get (mb_by_cid s) k = Some h" for k h
    using that inv keep unfolding mb_inv_def mb_maps_ok_def by blast
  ultimately show ?thesis
    using inv sub unfolding mb_inv_def mb_maps_ok_def mb_live_ok_def by (auto simp: mb_finish_def)
qed

lemma mb_taken_inv:
  assumes inv: "mb_inv s" and t: "t \<in> set (mb_threads s)" "mb_chans s (mt_chan t) = d # rest"
  shows "mb_inv (s\<lparr>mb_chans := (mb_chans s)(mt_chan t := rest)\<rparr>)"
proof -
  have "mt_chan t < mb_next s" "mb_pending s \<noteq> Some (mt_chan t)"
    using t inv by (auto simp: mb_inv_def mb_ids_ok_def)
  moreover have "length (mb_chans s (mt_chan t)) \<le> CONN_CHANNEL_DEPTH"
    using inv by (simp add: mb_inv_def mb_ids_ok_def)
  ultimately show ?thesis
    using inv t(2) by (simp add: mb_inv_def mb_ids_ok_def mb_maps_ok_def mb_live_ok_def)
qed

lemma mb_other_ids_inv: "mb_inv s \<Longrightarrow> mb_inv (s\<lparr>mb_conn_ids := snd (next_conn_id (mb_conn_ids s))\<rparr>)"
  by (auto simp: mb_inv_def mb_ids_ok_def mb_maps_ok_def mb_live_ok_def next_conn_id_def)

section \<open>The listener preserves it\<close>

lemma mb_queue_inv:
  assumes inv: "mb_inv s" and t: "t \<in> set (mb_threads s)" and c: "c = mt_chan t"
    and q: "length queue \<le> CONN_CHANNEL_DEPTH"
  shows "mb_inv (s\<lparr>mb_chans := (mb_chans s)(c := queue)\<rparr>)"
proof -
  have "c < mb_next s" "mb_pending s \<noteq> Some c"
    using t inv c by (auto simp: mb_inv_def mb_ids_ok_def)
  then show ?thesis
    using inv q by (simp add: mb_inv_def mb_ids_ok_def mb_maps_ok_def mb_live_ok_def)
qed

lemma dead_not_live:
  assumes "mb_inv s" and "t \<in> set (mb_threads s)" and "\<not> mb_receiver_alive s (mt_chan t)"
  shows "\<not> cid_live (mt_phase t)"
  using assms(2,3) by (cases "mt_phase t") (auto simp: mb_receiver_alive_def)

lemma route_by_cid_inv:
  assumes inv: "mb_inv s"
  shows "mb_inv (route_by_cid peer d s)"
proof (cases "cid_of d")
  case None
  with inv show ?thesis by (simp add: route_by_cid_def)
next
  case (Some cid)
  show ?thesis
  proof (cases "hm_get (mb_by_cid s) cid")
    case None
    with inv Some show ?thesis by (simp add: route_by_cid_def)
  next
    case (Some h)
    then obtain t where t: "t \<in> set (mb_threads s)" "h = mb_handle t" "mt_cid t = cid"
      using inv unfolding mb_inv_def mb_maps_ok_def by blast
    show ?thesis
    proof (cases "try_send (mb_receiver_alive s (sh_chan h)) (mb_chans s (sh_chan h)) (d, peer)")
      case (Sent queue)
      then have "length queue \<le> CONN_CHANNEL_DEPTH" by (auto simp: try_send_def split: if_splits)
      with mb_queue_inv [OF inv t(1) refl] Sent Some t(2) \<open>cid_of d = Some cid\<close> show ?thesis
        by (simp add: route_by_cid_def)
    next
      case Full
      with inv Some \<open>cid_of d = Some cid\<close> show ?thesis by (simp add: route_by_cid_def)
    next
      case Disconnected
      then have dead: "\<not> cid_live (mt_phase t)"
        using dead_not_live [OF inv t(1)] t(2) by (simp add: try_send_def split: if_splits)
      have ok: "mb_ids_ok s" using inv by (simp add: mb_inv_def)
      have "hm_get (hm_remove cid (mb_by_cid s)) (mt_cid t') = Some (mb_handle t')"
        if "t' \<in> set (mb_threads s)" "cid_live (mt_phase t')" for t'
      proof -
        have g: "hm_get (mb_by_cid s) (mt_cid t') = Some (mb_handle t')"
          using inv that by (simp add: mb_inv_def mb_live_ok_def)
        have "mt_cid t' \<noteq> cid"
        proof
          assume "mt_cid t' = cid"
          with g Some t(2) have "mt_conn_id t' = mt_conn_id t" by (metis mb_handle_eq(1) option.inject)
          with same_conn_same_thread [OF ok that(1) t(1)] dead that(2) show False by simp
        qed
        with g show ?thesis by (simp add: table_simps)
      qed
      then have "mb_live_ok (s\<lparr>mb_by_cid := hm_remove cid (mb_by_cid s)\<rparr>)"
        using inv by (simp add: mb_inv_def mb_live_ok_def)
      moreover have "mb_maps_ok (s\<lparr>mb_by_cid := hm_remove cid (mb_by_cid s)\<rparr>)"
        using inv by (auto simp: mb_inv_def mb_maps_ok_def table_simps)
      moreover have "mb_ids_ok (s\<lparr>mb_by_cid := hm_remove cid (mb_by_cid s)\<rparr>)"
        using ok by (simp add: mb_ids_ok_def)
      ultimately show ?thesis
        using Some Disconnected \<open>cid_of d = Some cid\<close> by (simp add: route_by_cid_def mb_inv_def)
    qed
  qed
qed

lemma route_by_cid_frame [simp]:
  "mb_threads (route_by_cid peer d s) = mb_threads s" "mb_counts (route_by_cid peer d s) = mb_counts s"
  "mb_pending (route_by_cid peer d s) = mb_pending s" "mb_by_addr (route_by_cid peer d s) = mb_by_addr s"
  "mb_next (route_by_cid peer d s) = mb_next s" "mb_conn_ids (route_by_cid peer d s) = mb_conn_ids s"
  "mb_established (route_by_cid peer d s) = mb_established s"
  by (auto simp: route_by_cid_def split: option.splits try_send.splits)

lemma route_by_addr_frame:
  assumes "route_by_addr peer d s = (b, s1)"
  shows "mb_threads s1 = mb_threads s" "mb_counts s1 = mb_counts s" "mb_pending s1 = mb_pending s"
    "mb_by_cid s1 = mb_by_cid s" "mb_next s1 = mb_next s" "mb_conn_ids s1 = mb_conn_ids s"
    "mb_established s1 = mb_established s"
    "mb_by_addr s1 = mb_by_addr s \<or> mb_by_addr s1 = hm_remove peer (mb_by_addr s)"
    "\<not> b \<Longrightarrow> mb_chans s1 = mb_chans s"
  using assms
  by (auto simp: route_by_addr_def split: option.splits try_send.splits if_splits)

lemma route_by_addr_inv:
  assumes inv: "mb_inv s" and r: "route_by_addr peer d s = (b, s1)"
  shows "mb_inv s1"
proof (cases "hm_get (mb_by_addr s) peer")
  case None
  with inv r show ?thesis by (simp add: route_by_addr_def)
next
  case (Some h)
  then obtain t where t: "t \<in> set (mb_threads s)" "h = mb_handle t"
    using inv unfolding mb_inv_def mb_maps_ok_def by blast
  have rem: "mb_inv (s\<lparr>mb_by_addr := hm_remove peer (mb_by_addr s)\<rparr>)"
    using inv by (auto simp: mb_inv_def mb_ids_ok_def mb_maps_ok_def mb_live_ok_def table_simps)
  show ?thesis
  proof (cases "try_send (mb_receiver_alive s (sh_chan h)) (mb_chans s (sh_chan h)) (d, peer)")
    case (Sent queue)
    then have "length queue \<le> CONN_CHANNEL_DEPTH" by (auto simp: try_send_def split: if_splits)
    with mb_queue_inv [OF inv t(1) refl] Sent Some t(2) r inv show ?thesis
      by (auto simp: route_by_addr_def split: if_splits)
  qed (use Some r inv rem in \<open>auto simp: route_by_addr_def split: if_splits\<close>)
qed

lemma mb_pending_listen_inv:
  assumes inv: "mb_inv s" and p: "mb_pending_listen ok s = Some (c, s2)"
  shows "mb_inv s2" "mb_pending s2 = Some c" "c < mb_next s2"
    "\<forall>t \<in> set (mb_threads s2). mt_chan t \<noteq> c"
    "mb_threads s2 = mb_threads s" "mb_counts s2 = mb_counts s" "mb_by_cid s2 = mb_by_cid s"
    "mb_by_addr s2 = mb_by_addr s" "mb_chans s2 = mb_chans s" "mb_established s2 = mb_established s"
proof -
  show "mb_threads s2 = mb_threads s" "mb_counts s2 = mb_counts s" "mb_by_cid s2 = mb_by_cid s"
    "mb_by_addr s2 = mb_by_addr s" "mb_chans s2 = mb_chans s" "mb_established s2 = mb_established s"
    and pc: "mb_pending s2 = Some c"
    using p by (auto simp: mb_pending_listen_def split: option.splits if_splits)
  have "mb_ids_ok s2"
    using inv p by (fastforce simp: mb_pending_listen_def mb_inv_def mb_ids_ok_def
        split: option.splits if_splits)
  moreover have "mb_maps_ok s2 \<and> mb_live_ok s2"
    using inv p by (auto simp: mb_pending_listen_def mb_inv_def mb_maps_ok_def mb_live_ok_def
        split: option.splits if_splits)
  ultimately show "mb_inv s2" by (simp add: mb_inv_def)
  then show "c < mb_next s2" "\<forall>t \<in> set (mb_threads s2). mt_chan t \<noteq> c"
    using pc by (auto simp: mb_inv_def mb_ids_ok_def)
qed

lemma drop_pending_inv: "mb_inv s \<Longrightarrow> mb_inv (s\<lparr>mb_pending := None\<rparr>)"
  by (simp add: mb_inv_def mb_ids_ok_def mb_maps_ok_def mb_live_ok_def)

lemma mint_cid_fresh: "mint_cid by_cid draws = Some (Some cid) \<Longrightarrow> hm_get by_cid cid = None"
  by (induction by_cid draws rule: mint_cid.induct) (auto simp: hm_contains_key_def split: if_splits)

lemma promote_inv:
  assumes inv: "mb_inv s" and pend: "mb_pending s = None" and c: "c < mb_next s"
    and fresh: "\<forall>t \<in> set (mb_threads s). mt_chan t \<noteq> c" and cid: "hm_get (mb_by_cid s) cid = None"
    and permit: "permit = ConnPermit (bucket (sa_ip peer))"
  shows "mb_inv (promote spawn_ok c cid permit peer s)"
proof -
  have nid: "mt_conn_id t \<noteq> mb_conn_ids s" if "t \<in> set (mb_threads s)" for t
    using inv that by (auto simp: mb_inv_def mb_ids_ok_def)
  have ncid: "mt_cid t \<noteq> cid" if "t \<in> set (mb_threads s)" "cid_live (mt_phase t)" for t
    using inv that cid by (auto simp: mb_inv_def mb_live_ok_def)
  show ?thesis
  proof (cases spawn_ok)
    case True
    have "mb_ids_ok (promote True c cid permit peer s)"
      using inv pend c fresh nid permit
      by (auto simp: promote_def next_conn_id_def Let_def mb_inv_def mb_ids_ok_def)
    moreover have "mb_maps_ok (promote True c cid permit peer s)"
      using inv by (auto simp: promote_def next_conn_id_def Let_def mb_inv_def mb_maps_ok_def
          table_simps mb_handle_def split: if_splits)
    moreover have "mb_live_ok (promote True c cid permit peer s)"
      using inv nid ncid by (auto simp: promote_def next_conn_id_def Let_def mb_inv_def mb_live_ok_def
          table_simps mb_handle_def)
    ultimately show ?thesis using True by (simp add: mb_inv_def)
  next
    case False
    have gone: "hm_get (mb_by_addr (promote False c cid permit peer s)) p
        = (if p = peer then None else hm_get (mb_by_addr s) p)"
      "hm_get (mb_by_cid (promote False c cid permit peer s)) k
        = (if k = cid then None else hm_get (mb_by_cid s) k)" for p k
      by (auto simp: promote_def next_conn_id_def Let_def remove_frames table_simps split: option.splits)
    have same: "mb_threads (promote False c cid permit peer s) = mb_threads s"
      "mb_established (promote False c cid permit peer s)
        = (mb_established s)(mb_conn_ids s := False)"
      by (simp_all add: promote_def next_conn_id_def Let_def remove_frames)
    have "mb_ids_ok (promote False c cid permit peer s)"
      using inv by (auto simp: promote_def next_conn_id_def Let_def mb_inv_def mb_ids_ok_def remove_frames)
    moreover have "hm_ok (mb_by_addr (promote False c cid permit peer s))"
      "hm_ok (mb_by_cid (promote False c cid permit peer s))"
      using inv by (auto simp: promote_def next_conn_id_def Let_def mb_inv_def mb_maps_ok_def
          remove_frames table_simps)
    then have "mb_maps_ok (promote False c cid permit peer s)"
      using inv by (auto simp: mb_maps_ok_def gone same mb_inv_def)
    moreover have "mb_live_ok (promote False c cid permit peer s)"
      using inv nid ncid by (auto simp: mb_live_ok_def gone same mb_inv_def)
    ultimately show ?thesis using False by (simp add: mb_inv_def)
  qed
qed

text \<open>The pending path admits when its handshake wants more input with a verified cookie.\<close>

definition mb_accepts :: "mbed_env \<Rightarrow> bool" where
  "mb_accepts env \<longleftrightarrow> (me_handshake env = HsWantRead \<or> me_handshake env = HsWantWrite)
     \<and> me_verified env"

lemma route_pending_cases:
  assumes "route_pending q env peer s = (s', driven)"
  obtains (kept) "s' = s" "\<not> driven"
  | (waiting) c s2 pend where "mb_pending_listen (me_setup_ok env) s = Some (c, s2)"
      "pend = None \<or> pend = mb_pending s2" "s' = s2\<lparr>mb_pending := pend\<rparr>"
  | (promoted) c s2 cid permit counts where "mb_pending_listen (me_setup_ok env) s = Some (c, s2)"
      "mint_cid (mb_by_cid s2) (me_draws env) = Some (Some cid)" "mb_accepts env"
      "try_acquire q (sa_ip peer) (mb_counts s2) = (Some permit, counts)" "driven"
      "s' = promote (me_spawn_ok env) c cid permit peer (s2\<lparr>mb_pending := None, mb_counts := counts\<rparr>)"
proof (cases "is_full q (mb_counts s) \<or> mb_pending_listen (me_setup_ok env) s = None")
  case True
  with assms have "s' = s" "\<not> driven" by (auto simp: route_pending_def split: if_splits)
  then show thesis by (rule kept)
next
  case False
  then obtain c s2 where p: "mb_pending_listen (me_setup_ok env) s = Some (c, s2)" by auto
  have wait: thesis if "s' = s2\<lparr>mb_pending := None\<rparr> \<or> s' = s2"
    using that waiting [OF p, of None] waiting [OF p, of "mb_pending s2"] by auto
  show thesis
  proof (cases "me_reset_ok env \<and> me_ids_ok env \<and> mb_accepts env
      \<and> (\<exists>cid. mint_cid (mb_by_cid s2) (me_draws env) = Some (Some cid))
      \<and> (\<exists>permit counts. try_acquire q (sa_ip peer) (mb_counts s2) = (Some permit, counts))")
    case True
    then obtain cid permit counts where m: "mint_cid (mb_by_cid s2) (me_draws env) = Some (Some cid)"
      and t: "try_acquire q (sa_ip peer) (mb_counts s2) = (Some permit, counts)"
      and e: "me_reset_ok env" "me_ids_ok env" "mb_accepts env" by blast
    show thesis
      by (rule promoted [OF p m e(3) t])
        (use assms False p m t e in \<open>auto simp: route_pending_def mb_accepts_def Let_def\<close>)
  next
    case F: False
    show thesis
    proof (cases "mint_cid (mb_by_cid s2) (me_draws env)")
      case None
      with assms False p show thesis by (intro wait) (auto simp: route_pending_def split: if_splits)
    next
      case (Some r)
      show thesis
      proof (cases r)
        case None
        with Some assms False p show thesis
          by (intro wait) (auto simp: route_pending_def split: if_splits)
      next
        case (Some cid)
        with \<open>mint_cid _ _ = Some r\<close> F assms False p show thesis
          by (intro wait) (auto simp: route_pending_def mb_accepts_def Let_def
              split: if_splits handshake_status.splits prod.splits option.splits)
      qed
    qed
  qed
qed

lemma route_pending_inv:
  assumes inv: "mb_inv s" and r: "route_pending q env peer s = (s', driven)"
  shows "mb_inv s'"
  using r
proof (cases rule: route_pending_cases)
  case kept
  with inv show ?thesis by simp
next
  case (waiting c s2 pend)
  with mb_pending_listen_inv(1) [OF inv waiting(1)] drop_pending_inv show ?thesis by auto
next
  case (promoted c s2 cid permit counts)
  note p = mb_pending_listen_inv [OF inv promoted(1)]
  have "permit = ConnPermit (bucket (sa_ip peer))"
    using promoted(4) by (auto simp: try_acquire_def Let_def split: if_splits)
  moreover have "mb_inv (s2\<lparr>mb_pending := None, mb_counts := counts\<rparr>)"
    using drop_pending_inv [OF p(1)] by (simp add: mb_inv_def mb_ids_ok_def mb_maps_ok_def mb_live_ok_def)
  ultimately show ?thesis
    unfolding promoted(6) using p(3,4) mint_cid_fresh [OF promoted(2)] by (intro promote_inv) auto
qed

lemma mb_listen_datagram_inv:
  assumes inv: "mb_inv s"
  shows "mb_inv (fst (mb_listen_datagram q env source d s))"
proof (cases "d \<noteq> [] \<and> d ! 0 = CONTENT_TYPE_CID")
  case True
  with route_by_cid_inv [OF inv] show ?thesis by (simp add: mb_listen_datagram_def Let_def)
next
  case False
  obtain b s1 where r: "route_by_addr (canonical_peer source) d s = (b, s1)" by fastforce
  obtain s2 driven where p: "route_pending q env (canonical_peer source) s1 = (s2, driven)" by fastforce
  have s1: "mb_inv s1" using route_by_addr_inv [OF inv r] .
  have "fst (mb_listen_datagram q env source d s) = (if b then s1 else s2)"
    using False r p by (cases b) (auto simp: mb_listen_datagram_def Let_def)
  then show ?thesis using s1 route_pending_inv [OF s1 p] by simp
qed

lemma mbed_step_inv:
  assumes "mbed_step q s s'" and inv: "mb_inv s"
  shows "mb_inv s'"
  using assms(1)
  by cases (use inv in \<open>auto intro: mb_listen_datagram_inv mb_taken_inv mb_establish_inv
      mb_first_read_inv mb_ended_inv mb_remove_addr_inv mb_remove_cid_inv mb_finish_inv
      mb_other_ids_inv\<close>)

lemma mbed_reachable_inv: "mbed_reachable q s \<Longrightarrow> mb_inv s"
  by (induction rule: rtranclp_induct) (auto intro: mb_inv_init mbed_step_inv)

section \<open>The books\<close>

definition mb_live_permits :: "mbed_sys \<Rightarrow> conn_permit multiset" where
  "mb_live_permits s = mset (map mt_permit (mb_threads s))"

lemma mb_permits_frame [simp]:
  "mb_live_permits (mb_set_phase i ph s) = mb_live_permits s"
  "mb_live_permits (remove_by_addr_if_mine peer i s) = mb_live_permits s"
  "mb_live_permits (remove_by_cid_if_mine cid i s) = mb_live_permits s"
  "mb_live_permits (route_by_cid peer d s) = mb_live_permits s"
  by (simp_all add: mb_live_permits_def remove_frames del: mset_map)

lemma mb_promote_books:
  assumes "try_acquire q ip c = (Some permit, mb_counts s)"
  shows "keeps_books q c (mb_live_permits s) (mb_counts (promote spawn_ok ch cid permit peer s))
    (mb_live_permits (promote spawn_ok ch cid permit peer s))"
  using keeps_books_acquire [OF assms] keeps_books_undone [OF assms]
  by (auto simp: promote_def next_conn_id_def Let_def mb_live_permits_def remove_frames)

lemma route_pending_books:
  assumes inv: "mb_inv s" and r: "route_pending q env peer s = (s', driven)"
  shows "keeps_books q (mb_counts s) (mb_live_permits s) (mb_counts s') (mb_live_permits s')"
  using r
proof (cases rule: route_pending_cases)
  case (waiting c s2 pend)
  with mb_pending_listen_inv(5,6) [OF inv waiting(1)] show ?thesis by (simp add: mb_live_permits_def)
next
  case (promoted c s2 cid permit counts)
  note p = mb_pending_listen_inv(5,6) [OF inv promoted(1)]
  let ?s3 = "s2\<lparr>mb_pending := None, mb_counts := counts\<rparr>"
  have "try_acquire q (sa_ip peer) (mb_counts s) = (Some permit, mb_counts ?s3)"
    using promoted(4) p(2) by simp
  from mb_promote_books [OF this] show ?thesis
    unfolding promoted(6) using p(1) by (simp add: mb_live_permits_def)
qed simp

lemma mb_listen_books:
  assumes inv: "mb_inv s"
  shows "keeps_books q (mb_counts s) (mb_live_permits s)
    (mb_counts (fst (mb_listen_datagram q env source d s)))
    (mb_live_permits (fst (mb_listen_datagram q env source d s)))"
proof (cases "d \<noteq> [] \<and> d ! 0 = CONTENT_TYPE_CID")
  case True
  then show ?thesis by (simp add: mb_listen_datagram_def Let_def)
next
  case False
  obtain b' s1 where r: "route_by_addr (canonical_peer source) d s = (b', s1)" by fastforce
  obtain s2 driven where p: "route_pending q env (canonical_peer source) s1 = (s2, driven)" by fastforce
  have "mb_counts s1 = mb_counts s" "mb_live_permits s1 = mb_live_permits s"
    using route_by_addr_frame(1,2) [OF r] by (simp_all add: mb_live_permits_def)
  moreover have "fst (mb_listen_datagram q env source d s) = (if b' then s1 else s2)"
    using False r p by (cases b') (auto simp: mb_listen_datagram_def Let_def)
  ultimately show ?thesis using route_pending_books [OF route_by_addr_inv [OF inv r] p] by simp
qed

lemma mbed_step_books:
  assumes st: "mbed_step q s s'" and inv: "mb_inv s"
  shows "keeps_books q (mb_counts s) (mb_live_permits s) (mb_counts s') (mb_live_permits s')"
  using st
proof cases
  case (datagram env source dgram)
  with mb_listen_books [OF inv] show ?thesis by simp
next
  case (finished t)
  have "mt_permit t \<in># mb_live_permits s" using finished(2) by (simp add: mb_live_permits_def)
  from keeps_books_drop [OF this, of q "mb_counts s"] show ?thesis
    using finished(2) by (simp add: finished(1) mb_finish_def mb_live_permits_def image_mset_Diff)
next
  case (established t cid_active)
  then show ?thesis
    by (simp add: mb_establish_def Let_def remove_frames) (simp add: mb_live_permits_def)
next
  case (taken t d rest)
  then show ?thesis by (simp add: mb_live_permits_def)
next
  case other_ids
  then show ?thesis by (simp add: mb_live_permits_def)
qed (simp_all add: mb_first_read_def mb_remove_addr_def mb_remove_cid_def remove_frames)

lemma mbed_reachable_booked: "mbed_reachable q s \<Longrightarrow> booked q (mb_counts s) (mb_live_permits s)"
proof (induction rule: rtranclp_induct)
  case base
  show ?case by (simp add: mbed_init_def mb_live_permits_def booked_new)
qed (blast intro: keeps_booksD mbed_step_books mbed_reachable_inv)

text \<open>
  Every session can end, through its two removals; without sessions no route is left.
\<close>

lemma mb_phase_mem:
  assumes "t \<in> set (mb_threads s)"
  shows "t\<lparr>mt_phase := ph\<rparr> \<in> set (mb_threads (mb_set_phase (mt_conn_id t) ph s))"
  using assms by (auto simp: mb_set_phase_def intro!: image_eqI [of _ _ t])

lemma mb_thread_ends:
  assumes "t \<in> set (mb_threads s)"
  shows "\<exists>s'. rtranclp (mbed_step q) s s' \<and> length (mb_threads s') < length (mb_threads s)"
proof -
  let ?ends = "\<lambda>s n. \<exists>s'. rtranclp (mbed_step q) s s' \<and> length (mb_threads s') < n"
  have step: "?ends s n" if "mbed_step q s s1" "?ends s1 n" for s s1 n
    using that by (blast intro: converse_rtranclp_into_rtranclp)
  have len: "length (mb_threads (mb_set_phase i ph s)) = length (mb_threads s)" for i ph s
    by (simp add: mb_set_phase_def)
  have finish: "?ends s (length (mb_threads s))"
    if t: "t \<in> set (mb_threads s)" "mt_phase t = MbCidGone" for t s
    using mbed_step.finished [OF t, of q] length_pos_if_in_set [OF t(1)] t(1)
    by (intro exI [of _ "mb_finish t s"]) (auto simp: mb_finish_def length_remove1)
  have cid: "?ends s (length (mb_threads s))"
    if t: "t \<in> set (mb_threads s)" "mt_phase t = MbAddrGone" for t s
  proof (rule step [OF mbed_step.cid_removed [OF t]])
    have "t\<lparr>mt_phase := MbCidGone\<rparr> \<in> set (mb_threads (mb_remove_cid t s))"
      unfolding mb_remove_cid_def using t(1) by (intro mb_phase_mem) (simp add: remove_frames)
    from finish [OF this] show "?ends (mb_remove_cid t s) (length (mb_threads s))"
      by (simp add: mb_remove_cid_def len remove_frames)
  qed
  have addr: "?ends s (length (mb_threads s))"
    if t: "t \<in> set (mb_threads s)" "mt_phase t = MbEnded" for t s
  proof (rule step [OF mbed_step.addr_removed [OF t]])
    have "t\<lparr>mt_phase := MbAddrGone\<rparr> \<in> set (mb_threads (mb_remove_addr t s))"
      unfolding mb_remove_addr_def using t(1) by (intro mb_phase_mem) (simp add: remove_frames)
    from cid [OF this] show "?ends (mb_remove_addr t s) (length (mb_threads s))"
      by (simp add: mb_remove_addr_def len remove_frames)
  qed
  show ?thesis
  proof (cases "mb_running (mt_phase t)")
    case True
    from addr [OF mb_phase_mem [OF assms]] show ?thesis
      by (intro step [OF mbed_step.ended [OF assms True]]) (simp add: len)
  next
    case False
    then show ?thesis using assms finish cid addr by (cases "mt_phase t") auto
  qed
qed

lemma mb_threads_end: "\<exists>s'. rtranclp (mbed_step q) s s' \<and> mb_threads s' = []"
proof (induction s rule: measure_induct_rule [of "\<lambda>s. length (mb_threads s)"])
  case (less s)
  show ?case
  proof (cases "mb_threads s")
    case (Cons t ts)
    then obtain s1 where "rtranclp (mbed_step q) s s1" "length (mb_threads s1) < length (mb_threads s)"
      using mb_thread_ends [of t s q] by auto
    with less.IH [of s1] show ?thesis by (blast intro: rtranclp_trans)
  qed blast
qed

lemma mb_inv_no_threads:
  assumes "mb_inv s" and "mb_threads s = []"
  shows "mb_by_addr s = []" and "mb_by_cid s = []"
proof -
  have "hm_get (mb_by_addr s) p \<noteq> Some h" "hm_get (mb_by_cid s) k \<noteq> Some h" for p k h
    using assms by (auto simp: mb_inv_def mb_maps_ok_def)
  then show "mb_by_addr s = []" "mb_by_cid s = []" by (intro hm_all_None; metis option.exhaust)+
qed

text \<open>There are no more routes than threads.\<close>

lemma mb_table_sizes:
  assumes "mb_inv s"
  shows "hm_len (mb_by_addr s) \<le> length (mb_threads s)" and "hm_len (mb_by_cid s) \<le> length (mb_threads s)"
proof -
  have ok: "hm_ok (mb_by_addr s)" "hm_ok (mb_by_cid s)"
    using assms unfolding mb_inv_def mb_maps_ok_def by blast+
  have card: "card A \<le> length (mb_threads s)" if "A \<subseteq> f ` set (mb_threads s)" for A :: "'b set" and f
  proof -
    have "card A \<le> card (f ` set (mb_threads s))" using that by (rule card_mono [rotated]) simp
    also have "\<dots> \<le> length (mb_threads s)"
      using card_image_le [of "set (mb_threads s)" f] card_length [of "mb_threads s"] by simp
    finally show ?thesis .
  qed
  have "dom (hm_get (mb_by_addr s)) \<subseteq> mt_peer ` set (mb_threads s)"
    "dom (hm_get (mb_by_cid s)) \<subseteq> mt_cid ` set (mb_threads s)"
    using assms unfolding mb_inv_def mb_maps_ok_def by fastforce+
  from card [OF this(1)] card [OF this(2)]
  show "hm_len (mb_by_addr s) \<le> length (mb_threads s)" "hm_len (mb_by_cid s) \<le> length (mb_threads s)"
    using hm.len_dom [OF ok(1)] hm.len_dom [OF ok(2)] by simp_all
qed

text \<open>The draws that are taken are passed over; the first free one is returned.\<close>

lemma mint_cid_result:
  "mint_cid by_cid (map Some cids @ draws) =
     (case find (\<lambda>cid. hm_get by_cid cid = None) cids of
        Some cid \<Rightarrow> Some (Some cid) | None \<Rightarrow> mint_cid by_cid draws)"
  by (induction cids) (auto simp: hm_contains_key_def)

lemma fresh_draw:
  assumes "hm_ok by_cid" and "distinct cids" and "hm_len by_cid < length cids"
  shows "\<exists>cid \<in> set cids. hm_get by_cid cid = None"
proof (rule ccontr)
  assume "\<not> (\<exists>cid \<in> set cids. hm_get by_cid cid = None)"
  then have sub: "set cids \<subseteq> dom (hm_get by_cid)" by auto
  moreover have "finite (dom (hm_get by_cid))" by (simp add: hm_get_def finite_dom_map_of)
  ultimately have "card (set cids) \<le> card (dom (hm_get by_cid))" by (rule card_mono [rotated])
  with assms show False using hm.len_dom [OF assms(1)] distinct_card [OF assms(2)] by simp
qed

section \<open>The session thread\<close>

text \<open>
  What happens during the handshake calls: arrivals, reads the library makes, results. A read that
  fails outright is the failure of the call, as mbedTLS reports its transport's errors.
\<close>

datatype mb_hs_event =
    HsArrival bytes socket_addr
  | HsRecv instant instant nat timer_state
  | HsReturns instant handshake_status

datatype mb_hs_end = MbDone | MbAborted | MbOngoing

fun mb_handshake ::
  "instant \<Rightarrow> duration \<Rightarrow> mb_hs_event list \<Rightarrow> conn_state
   \<Rightarrow> mb_hs_end \<times> (instant \<times> bytes) list \<times> conn_state" where
  "mb_handshake started deadline [] io = (MbOngoing, [], io)"
| "mb_handshake started deadline (HsArrival d src # es) io
     = mb_handshake started deadline es (conn_arrive src d io)"
| "mb_handshake started deadline (HsRecv now later n tm # es) io =
     (case conn_recv now later n tm io of ((outcome, bs), io') \<Rightarrow>
       if outcome = RecvFailed then (MbAborted, [], io')
       else (case mb_handshake started deadline es io' of (r, ds, io'') \<Rightarrow>
         (r, (if recv_data (outcome, bs) = None then ds else (now, bs) # ds), io'')))"
| "mb_handshake started deadline (HsReturns now status # es) io = (case status of
     HsDone \<Rightarrow> (MbDone, [], io\<lparr>cn_deadline := None\<rparr>)
   | HelloVerifyRequired \<Rightarrow> (MbAborted, [], io)
   | HsFailed _ \<Rightarrow> (MbAborted, [], io)
   | _ \<Rightarrow>
       if deadline < now - started then (MbAborted, [], io)
       else mb_handshake started deadline es io)"

text \<open>The loop of an established session.\<close>

datatype mb_event =
    MbArrival bytes socket_addr
  | MbRecv instant instant nat timer_state
  | MbReads session_env read_status bytes

record mbed_session =
  ms_io :: conn_state
  ms_dtls :: dtls_session
  ms_dev :: device_session
  ms_addr_routed :: bool
  ms_out :: "(socket_addr \<times> bytes) list"

text \<open>An authenticated read: activity, the address route given up, the peer moved.\<close>

definition note_read ::
  "(socket_addr \<Rightarrow> bytes) \<Rightarrow> bool \<Rightarrow> instant \<Rightarrow> mbed_session \<Rightarrow> mbed_session" where
  "note_read show_addr cid_active now s =
     (let s1 = s\<lparr>ms_dtls := (ms_dtls s)\<lparr>se_last := now\<rparr>\<rparr> in
      if cid_active then
        (case take_migration (ms_io s1) of
           (Some new_peer, io) \<Rightarrow> s1\<lparr>ms_addr_routed := False, ms_io := io,
               ms_dev := (ms_dev s1)\<lparr>ds_peer := show_addr new_peer\<rparr>\<rparr>
         | (None, io) \<Rightarrow> s1\<lparr>ms_addr_routed := False, ms_io := io\<rparr>)
      else s1)"

text \<open>The answer goes to the committed peer, as every write of the transport does.\<close>

definition mb_answer ::
  "upstream \<Rightarrow> u8 \<Rightarrow> session_env \<Rightarrow> bytes \<Rightarrow> mbed_session \<Rightarrow> bool \<times> mbed_session" where
  "mb_answer up szx env bs s =
     (case answer_datagram up szx (ms_dev s) env bs (ms_dtls s) of (go, d) \<Rightarrow>
       (go, s\<lparr>ms_dtls := d, ms_out := ms_out s @
          map (Pair (cn_committed_peer (ms_io s))) (drop (length (se_sent (ms_dtls s))) (se_sent d))\<rparr>))"

fun mb_serve ::
  "upstream \<Rightarrow> u8 \<Rightarrow> (socket_addr \<Rightarrow> bytes) \<Rightarrow> bool \<Rightarrow> duration \<Rightarrow> mb_event list \<Rightarrow> mbed_session
   \<Rightarrow> bool \<times> mbed_session" where
  "mb_serve up szx show_addr cid_active idle [] s = (True, s)"
| "mb_serve up szx show_addr cid_active idle (MbArrival d src # es) s
     = mb_serve up szx show_addr cid_active idle es (s\<lparr>ms_io := conn_arrive src d (ms_io s)\<rparr>)"
| "mb_serve up szx show_addr cid_active idle (MbRecv now later n tm # es) s
     = mb_serve up szx show_addr cid_active idle es
         (s\<lparr>ms_io := snd (conn_recv now later n tm (ms_io s))\<rparr>)"
| "mb_serve up szx show_addr cid_active idle (MbReads env status bs # es) s = (case status of
     RdData n \<Rightarrow>
       let s1 = note_read show_addr cid_active (sn_now env) s in
       if n = 0 then mb_serve up szx show_addr cid_active idle es s1
       else (case mb_answer up szx env (take n bs) s1 of
           (True, s2) \<Rightarrow> mb_serve up szx show_addr cid_active idle es s2
         | (False, s2) \<Rightarrow> (False, s2))
   | PeerClosed \<Rightarrow> (False, s)
   | RdFailed _ \<Rightarrow> (False, s)
   | _ \<Rightarrow>
       if idle < sn_now env - se_last (ms_dtls s) then (False, s)
       else mb_serve up szx show_addr cid_active idle es s)"

text \<open>
  \<open>session_thread\<close>: the handshake, the negotiated connection id, the credentials, then the loop.
  None when it ends before serving.
\<close>

definition session_thread ::
  "upstream \<Rightarrow> u8 \<Rightarrow> (socket_addr \<Rightarrow> bytes) \<Rightarrow> duration \<Rightarrow> instant \<Rightarrow> duration \<Rightarrow> mb_hs_event list
   \<Rightarrow> int + cid_status \<Rightarrow> psk_session \<Rightarrow> socket_addr \<Rightarrow> nat \<Rightarrow> (u8 \<times> u8) option \<Rightarrow> instant
   \<Rightarrow> mb_event list \<Rightarrow> conn_state \<Rightarrow> mbed_session option" where
  "session_thread up szx show_addr cid_idle started deadline hs cid_result psk peer conn_id random at es io0 =
     (case mb_handshake started deadline hs io0 of
        (MbDone, _, io) \<Rightarrow>
          let cid_active = (case cid_result of Inr st \<Rightarrow> cs_negotiated st | Inl _ \<Rightarrow> False) in
          (case fst (take_credentials psk) of
             None \<Rightarrow> None
           | Some (identity, token) \<Rightarrow>
               Some (snd (mb_serve up szx show_addr cid_active
                 (if cid_active then cid_idle else IDLE_DEADLINE) es
                 \<lparr>ms_io = io,
                  ms_dtls = \<lparr>se_conn = \<lparr>gc_dedup = new_dedup_cache, gc_next_mid = rand_u16 random\<rparr>,
                     se_sent = [], se_calls = [], se_last = at\<rparr>,
                  ms_dev = \<lparr>ds_pigeon_id = identity, ds_token = token, ds_peer = show_addr peer,
                     ds_conn_id = conn_id\<rparr>,
                  ms_addr_routed = True, ms_out = []\<rparr>)))
      | _ \<Rightarrow> None)"

lemma conn_recv_peers:
  assumes "conn_recv now later n tm io = ((outcome, bs), io')"
  shows "cn_committed_peer io' = cn_committed_peer io"
    and "cn_staged_peer io' \<noteq> cn_staged_peer io \<Longrightarrow> outcome = RecvData (length bs)
      \<and> (cn_pending io = Some (bs, cn_staged_peer io') \<or> hd (cn_queue io) = (bs, cn_staged_peer io'))"
  using assms
  by (auto simp: conn_recv_def deliver_def split: if_splits option.splits list.splits prod.splits)

lemma note_read_peers:
  "cn_committed_peer (ms_io (note_read show_addr cid_active now s))
    = (if cid_active then cn_staged_peer (ms_io s) else cn_committed_peer (ms_io s))"
  "ms_out (note_read show_addr cid_active now s) = ms_out s"
  "se_sent (ms_dtls (note_read show_addr cid_active now s)) = se_sent (ms_dtls s)"
  "se_calls (ms_dtls (note_read show_addr cid_active now s)) = se_calls (ms_dtls s)"
  "ds_pigeon_id (ms_dev (note_read show_addr cid_active now s)) = ds_pigeon_id (ms_dev s)"
  "ds_token (ms_dev (note_read show_addr cid_active now s)) = ds_token (ms_dev s)"
  by (auto simp: note_read_def take_migration_def Let_def)

lemma mb_answer_frame:
  assumes "mb_answer up szx env bs s = (go, s')"
  shows "ms_io s' = ms_io s" "ms_dev s' = ms_dev s"
    "\<exists>rs. ms_out s' = ms_out s @ map (Pair (cn_committed_peer (ms_io s))) rs"
  using assms by (auto simp: mb_answer_def split: prod.splits)

definition no_read_data :: "mb_event \<Rightarrow> bool" where
  "no_read_data e \<longleftrightarrow> (case e of MbReads env (RdData n) bs \<Rightarrow> False | _ \<Rightarrow> True)"

lemma quiet_serve:
  assumes "\<forall>e \<in> set es. no_read_data e"
  shows "cn_committed_peer (ms_io (snd (mb_serve up szx show_addr cid_active idle es s)))
      = cn_committed_peer (ms_io s)
    \<and> ms_out (snd (mb_serve up szx show_addr cid_active idle es s)) = ms_out s"
  using assms
proof (induction up szx show_addr cid_active idle es s rule: mb_serve.induct)
  case (3 up szx show_addr cid_active idle now later n tm es s)
  obtain x io' where "conn_recv now later n tm (ms_io s) = (x, io')" by fastforce
  with 3 conn_recv_peers(1) [of now later n tm "ms_io s" "fst x" "snd x" io'] show ?case by simp
next
  case (4 up szx show_addr cid_active idle env status bs es s)
  then show ?case by (cases status) (auto simp: no_read_data_def)
qed (auto simp: conn_arrive_def)

lemma mb_serve_append:
  "mb_serve up szx show_addr cid_active idle (es @ es') s
    = (case mb_serve up szx show_addr cid_active idle es s of
         (True, s1) \<Rightarrow> mb_serve up szx show_addr cid_active idle es' s1
       | (False, s1) \<Rightarrow> (False, s1))"
proof (induction up szx show_addr cid_active idle es s rule: mb_serve.induct)
  case (4 up szx show_addr cid_active idle env status bs es s)
  then show ?case by (cases status) (auto simp: Let_def split: prod.splits bool.splits)
qed simp_all

text \<open>
  Where the datagram delivered last came from, told without the staged peer: over the datagrams that
  wait with their sources, those that arrive, and the reads; \<open>src\<close> when none is delivered.
\<close>

definition conn_sourced :: "conn_state \<Rightarrow> sourced list" where
  "conn_sourced io = (case cn_pending io of None \<Rightarrow> [] | Some fed \<Rightarrow> [fed]) @ cn_queue io"

fun last_source :: "instant option \<Rightarrow> sourced list \<Rightarrow> socket_addr \<Rightarrow> mb_event list \<Rightarrow> socket_addr" where
  "last_source deadline queue src [] = src"
| "last_source deadline queue src (MbArrival d a # es) = last_source deadline (queue @ [(d, a)]) src es"
| "last_source deadline queue src (MbRecv now later n tm # es) =
     (if \<exists>t. deadline = Some t \<and> t \<le> now then last_source deadline queue src es
      else case queue of
          [] \<Rightarrow> last_source deadline [] src es
        | (d, a) # rest \<Rightarrow> last_source deadline rest (if length d \<le> n then a else src) es)"
| "last_source deadline queue src (MbReads env status bs # es) = last_source deadline queue src es"

lemma last_source_recv:
  assumes "conn_recv now later n tm io = (x, io')"
  shows "last_source (cn_deadline io) (conn_sourced io) (cn_staged_peer io) (MbRecv now later n tm # es)
    = last_source (cn_deadline io') (conn_sourced io') (cn_staged_peer io') es"
  using assms
  by (auto simp: conn_recv_def deliver_def conn_sourced_def split: option.splits list.splits if_splits prod.splits)

lemma last_source_staged:
  assumes "\<forall>e \<in> set es. no_read_data e"
    and "mb_serve up szx show_addr cid_active idle es s = (True, s1)"
  shows "cn_staged_peer (ms_io s1)
    = last_source (cn_deadline (ms_io s)) (conn_sourced (ms_io s)) (cn_staged_peer (ms_io s)) es"
  using assms
proof (induction up szx show_addr cid_active idle es s rule: mb_serve.induct)
  case (2 up szx show_addr cid_active idle d src es s)
  then show ?case by (simp add: conn_arrive_def conn_sourced_def)
next
  case (3 up szx show_addr cid_active idle now later n tm es s)
  obtain x io' where r: "conn_recv now later n tm (ms_io s) = (x, io')" by fastforce
  from 3 r show ?case unfolding last_source_recv [OF r] by simp
next
  case (4 up szx show_addr cid_active idle env status bs es s)
  then show ?case by (cases status) (auto simp: no_read_data_def split: if_splits)
qed simp

lemma mb_serve_acts:
  assumes "session_acts dev (ms_dtls s)" and "ds_pigeon_id (ms_dev s) = ds_pigeon_id dev"
    and "ds_token (ms_dev s) = ds_token dev"
  shows "session_acts dev (ms_dtls (snd (mb_serve up szx show_addr cid_active idle es s)))"
  using assms
proof (induction up szx show_addr cid_active idle es s rule: mb_serve.induct)
  case (4 up szx show_addr cid_active idle env status bs es s)
  show ?case
  proof (cases status)
    case (RdData n)
    let ?s1 = "note_read show_addr cid_active (sn_now env) s"
    have s1: "session_acts dev (ms_dtls ?s1)" "ds_pigeon_id (ms_dev ?s1) = ds_pigeon_id dev"
      "ds_token (ms_dev ?s1) = ds_token dev"
      using "4.prems" by (simp_all add: session_acts_def note_read_peers)
    show ?thesis
    proof (cases "n = 0")
      case True
      with "4.IH"(1) RdData s1 show ?thesis by simp
    next
      case False
      obtain go s2 where a: "mb_answer up szx env (take n bs) ?s1 = (go, s2)" by fastforce
      obtain go' d where d: "answer_datagram up szx (ms_dev ?s1) env (take n bs) (ms_dtls ?s1) = (go', d)"
        by fastforce
      then have "ms_dtls s2 = d" using a by (auto simp: mb_answer_def)
      then have s2: "session_acts dev (ms_dtls s2)"
        using answer_datagram_acts [OF s1, of up szx env "take n bs"] d by simp
      show ?thesis
        using "4.IH"(2) [OF RdData refl False a [symmetric]] RdData False a s2 s1
          mb_answer_frame(2) [OF a]
        by (cases go) auto
    qed
  qed (use 4 in auto)
qed auto

text \<open>Some read was entered at or after \<open>t\<close>, or some attempt returned after the limit.\<close>

definition overdue :: "instant \<Rightarrow> instant \<Rightarrow> mb_hs_event list \<Rightarrow> bool" where
  "overdue t limit es \<longleftrightarrow> (\<exists>now. (\<exists>later n tm. HsRecv now later n tm \<in> set es) \<and> t \<le> now
     \<or> (\<exists>st. HsReturns now st \<in> set es) \<and> limit < now)"

lemma overdue_simps [simp]:
  "\<not> overdue t limit []"
  "overdue t limit (HsArrival d src # es) \<longleftrightarrow> overdue t limit es"
  "overdue t limit (HsRecv now later n tm # es) \<longleftrightarrow> t \<le> now \<or> overdue t limit es"
  "overdue t limit (HsReturns now st # es) \<longleftrightarrow> limit < now \<or> overdue t limit es"
  unfolding overdue_def by (auto; blast)+

lemma mb_handshake_overdue:
  assumes "mb_handshake started deadline es io = (r, ds, io')" and "cn_deadline io = Some t"
  shows "(\<forall>(now, d) \<in> set ds. now < t) \<and> (r = MbDone \<longleftrightarrow> cn_deadline io' = None)
    \<and> (overdue t (started + deadline) es \<longrightarrow> r \<noteq> MbOngoing)"
  using assms
proof (induction started deadline es io arbitrary: r ds io' rule: mb_handshake.induct)
  case (2 started deadline d src es io)
  then show ?case by (fastforce simp: conn_arrive_def)
next
  case (3 started deadline now later n tm es io)
  obtain outcome bs io1 where x: "conn_recv now later n tm io = ((outcome, bs), io1)"
    by (metis prod_cases3 surj_pair)
  have d1: "cn_deadline io1 = Some t"
    using conn.keeps_deadline [of now n "(later, tm)" io] x "3.prems"(2) by simp
  show ?case
  proof (cases "outcome = RecvFailed")
    case True
    with "3.prems"(1) x d1 show ?thesis by auto
  next
    case False
    obtain r1 ds1 io2 where c: "mb_handshake started deadline es io1 = (r1, ds1, io2)"
      by (metis prod_cases3)
    have e: "r = r1" "io' = io2" "set ds \<subseteq> insert (now, bs) (set ds1)"
      using "3.prems"(1) x False c by (auto split: if_splits)
    have "now < t" using x "3.prems"(2) False by (cases "t \<le> now") (auto simp: conn_recv_def)
    with "3.IH" [OF x [symmetric] refl False c d1] e show ?thesis by fastforce
  qed
next
  case (4 started deadline now status es io)
  show ?case
  proof (cases "(status = HsWantRead \<or> status = HsWantWrite) \<and> \<not> deadline < now - started")
    case True
    then have "mb_handshake started deadline es io = (r, ds, io')" using 4(3) by auto
    with 4(1,2) [OF _ _ _ 4(4)] True show ?thesis by auto
  next
    case False
    with 4(3,4) show ?thesis by (cases status) (auto split: if_splits)
  qed
qed simp

lemmas mb_handshake_bound = mb_handshake_overdue [unfolded overdue_def]

section \<open>A small run\<close>

definition mb_demo_quota :: conn_quota where "mb_demo_quota = \<lparr>max_total = 2, max_per_ip = 2\<rparr>"
definition mb_demo_peer :: socket_addr where "mb_demo_peer = \<lparr>sa_ip = V4 7, sa_port = 9\<rparr>"
definition mb_demo_env :: "bool \<Rightarrow> mbed_env" where
  "mb_demo_env verified = \<lparr>me_setup_ok = True, me_reset_ok = True,
     me_draws = [Some [1, 2, 3, 4, 5, 6, 7, 8]], me_ids_ok = True, me_handshake = HsWantRead,
     me_verified = verified, me_spawn_ok = True\<rparr>"
definition mb_demo_thread :: mb_thread where
  "mb_demo_thread = \<lparr>mt_peer = mb_demo_peer, mt_cid = [1, 2, 3, 4, 5, 6, 7, 8], mt_conn_id = 1,
     mt_chan = 0, mt_permit = ConnPermit (V4 7), mt_phase = MbHandshaking\<rparr>"
definition mb_demo_state :: mbed_sys where
  "mb_demo_state = fst (mb_listen_datagram mb_demo_quota (mb_demo_env True) mb_demo_peer [22] mbed_init)"

lemmas mb_demo_defs = mb_demo_quota_def mb_demo_peer_def mb_demo_env_def mb_listen_datagram_def
  route_by_addr_def route_pending_def mb_pending_listen_def promote_def next_conn_id_def
  try_acquire_def is_full_def canonical_peer_def mbed_init_def new_counts_def CONTENT_TYPE_CID_def
  hm_defs Let_def

lemma mb_demo_eq:
  "mb_demo_state = \<lparr>mb_by_addr = [(mb_demo_peer, mb_handle mb_demo_thread)],
     mb_by_cid = [([1, 2, 3, 4, 5, 6, 7, 8], mb_handle mb_demo_thread)], mb_pending = None,
     mb_chans = (\<lambda>_. []), mb_next = 1, mb_conn_ids = 2, mb_established = (\<lambda>_. False),
     mb_threads = [mb_demo_thread], mb_counts = \<lparr>ct_total = 1, ct_per_ip = [(V4 7, 1)]\<rparr>\<rparr>"
  unfolding mb_demo_state_def mb_demo_thread_def mb_handle_def
  by (simp add: mb_demo_defs fun_eq_iff)

lemma mb_demo_reachable: "mbed_reachable mb_demo_quota mb_demo_state"
  unfolding mb_demo_state_def by (intro r_into_rtranclp mbed_step.datagram)

section \<open>Properties\<close>

text \<open>C14. The connection-id route of a live session is its own: in every reachable state each session that is
  in its handshake, or serves with a negotiated connection id, is found under its id by the
  demultiplexer, and no other session's teardown, promotion or address change can take it; two
  live sessions never share an id, and an id leads only to a session that owns it.\<close>

theorem mbed_live_cid_routes_kept:
  assumes "mbed_reachable q s"
  shows "(\<forall>t \<in> set (mb_threads s). cid_live (mt_phase t) \<longrightarrow>
        hm_get (mb_by_cid s) (mt_cid t) = Some (mb_handle t))
    \<and> (\<forall>t \<in> set (mb_threads s). \<forall>t' \<in> set (mb_threads s). cid_live (mt_phase t)
        \<and> cid_live (mt_phase t') \<and> mt_cid t = mt_cid t' \<longrightarrow> t = t')
    \<and> (\<forall>k h. hm_get (mb_by_cid s) k = Some h \<longrightarrow>
        (\<exists>t \<in> set (mb_threads s). h = mb_handle t \<and> mt_cid t = k))"
proof (intro conjI ballI allI impI)
  note inv = mbed_reachable_inv [OF assms, unfolded mb_inv_def]
  fix t assume t: "t \<in> set (mb_threads s)"
  show live: "hm_get (mb_by_cid s) (mt_cid t) = Some (mb_handle t)" if "cid_live (mt_phase t)"
    using inv t that unfolding mb_live_ok_def by blast
  fix t' assume t': "t' \<in> set (mb_threads s)"
    and c: "cid_live (mt_phase t) \<and> cid_live (mt_phase t') \<and> mt_cid t = mt_cid t'"
  then have "hm_get (mb_by_cid s) (mt_cid t') = Some (mb_handle t')"
    using inv unfolding mb_live_ok_def by blast
  with live c have "mb_handle t = mb_handle t'" by simp
  then have "mt_conn_id t = mt_conn_id t'" by (metis mb_handle_eq(1))
  with same_conn_same_thread t t' inv show "t = t'" by blast
next
  fix k h assume "hm_get (mb_by_cid s) k = Some h"
  then show "\<exists>t \<in> set (mb_threads s). h = mb_handle t \<and> mt_cid t = k"
    using mbed_reachable_inv [OF assms] unfolding mb_inv_def mb_maps_ok_def by blast
qed

theorem mbed_live_cid_routes_kept_witness:
  "hm_get (mb_by_cid mb_demo_state) [1, 2, 3, 4, 5, 6, 7, 8] = Some (mb_handle mb_demo_thread)"
proof -
  have "mb_demo_thread \<in> set (mb_threads mb_demo_state)" by (simp add: mb_demo_eq)
  moreover have "cid_live (mt_phase mb_demo_thread)" by (simp add: mb_demo_thread_def)
  ultimately have "hm_get (mb_by_cid mb_demo_state) (mt_cid mb_demo_thread) = Some (mb_handle mb_demo_thread)"
    using mbed_live_cid_routes_kept [OF mb_demo_reachable] by blast
  then show ?thesis by (simp add: mb_demo_thread_def)
qed

text \<open>Every session is admitted and counted: both maps have at most one entry per running thread's
  session, threads stay within the ceiling and each source bucket within its fair share, the
  books equal the threads, and no channel exceeds its depth.\<close>

theorem mbed_connections_bounded:
  assumes "mbed_reachable q s"
  shows "hm_len (mb_by_addr s) \<le> length (mb_threads s) \<and> hm_len (mb_by_cid s) \<le> length (mb_threads s)
    \<and> length (mb_threads s) \<le> max_total q \<and> ct_total (mb_counts s) = length (mb_threads s)
    \<and> (\<forall>b. length (filter (\<lambda>t. bucket (sa_ip (mt_peer t)) = b) (mb_threads s)) \<le> max_per_ip q)
    \<and> (\<forall>c. length (mb_chans s c) \<le> CONN_CHANNEL_DEPTH)"
proof (intro conjI allI)
  note inv = mbed_reachable_inv [OF assms] and b = mbed_reachable_booked [OF assms]
  have permit: "t \<in> set (mb_threads s) \<Longrightarrow> mt_permit t = ConnPermit (bucket (sa_ip (mt_peer t)))" for t
    using inv unfolding mb_inv_def mb_ids_ok_def by blast
  show "hm_len (mb_by_addr s) \<le> length (mb_threads s)" "hm_len (mb_by_cid s) \<le> length (mb_threads s)"
    using mb_table_sizes [OF inv] by simp_all
  show "length (mb_threads s) \<le> max_total q" "ct_total (mb_counts s) = length (mb_threads s)"
    using booked_bounds(1,2) [OF b] by (simp_all add: mb_live_permits_def)
  fix b'
  have "filter (\<lambda>t. bucket (sa_ip (mt_peer t)) = b') (mb_threads s)
      = filter (\<lambda>t. mt_permit t = ConnPermit b') (mb_threads s)"
    using permit by (intro filter_cong) auto
  moreover have "length (filter (\<lambda>t. mt_permit t = p) ts) = count (mset (map mt_permit ts)) p"
    for ts :: "mb_thread list" and p
    by (induction ts) auto
  ultimately show "length (filter (\<lambda>t. bucket (sa_ip (mt_peer t)) = b') (mb_threads s)) \<le> max_per_ip q"
    using booked_bounds(3) [OF b, of "ConnPermit b'"] unfolding mb_live_permits_def by simp
  show "length (mb_chans s c) \<le> CONN_CHANNEL_DEPTH" for c
    using inv by (simp add: mb_inv_def mb_ids_ok_def)
qed

theorem mbed_connections_bounded_witness:
  "hm_len (mb_by_cid mb_demo_state) \<le> length (mb_threads mb_demo_state)"
  using mbed_connections_bounded [OF mb_demo_reachable] by blast

text \<open>C30. The search for a connection id ends: in every reachable state, as soon as the generator has
  drawn one value more than the quota admits sessions, all of them different, one is returned that
  no session owns, whatever is drawn after; a failing generator ends it with its error.\<close>

theorem mint_cid_terminates:
  assumes "mbed_reachable q s" and "distinct cids" and "length cids = Suc (max_total q)"
  shows "(\<exists>cid \<in> set cids. mint_cid (mb_by_cid s) (map Some cids @ draws) = Some (Some cid)
        \<and> hm_get (mb_by_cid s) cid = None)
    \<and> (\<forall>taken. (\<forall>cid \<in> set taken. hm_get (mb_by_cid s) cid \<noteq> None) \<longrightarrow>
        mint_cid (mb_by_cid s) (map Some taken @ None # draws) = Some None)"
proof -
  note inv = mbed_reachable_inv [OF assms(1)]
  have "size (mb_live_permits s) \<le> max_total q"
    using booked_bounds(2) [OF mbed_reachable_booked [OF assms(1)]] .
  with mb_table_sizes(2) [OF inv] assms(3) have "hm_len (mb_by_cid s) < length cids"
    by (simp add: mb_live_permits_def)
  with inv assms(2) have "\<exists>cid \<in> set cids. hm_get (mb_by_cid s) cid = None"
    by (intro fresh_draw) (auto simp: mb_inv_def mb_maps_ok_def)
  then obtain cid where f: "find (\<lambda>cid. hm_get (mb_by_cid s) cid = None) cids = Some cid"
    by (cases "find (\<lambda>cid. hm_get (mb_by_cid s) cid = None) cids") (auto simp: find_None_iff)
  then have "cid \<in> set cids" "hm_get (mb_by_cid s) cid = None" by (auto simp: find_Some_iff)
  moreover have "mint_cid (mb_by_cid s) (map Some cids @ draws) = Some (Some cid)"
    unfolding mint_cid_result f by simp
  moreover have "mint_cid (mb_by_cid s) (map Some taken @ None # draws) = Some None"
    if "\<forall>cid \<in> set taken. hm_get (mb_by_cid s) cid \<noteq> None" for taken
  proof -
    from that have "find (\<lambda>cid. hm_get (mb_by_cid s) cid = None) taken = None"
      by (simp add: find_None_iff)
    then show ?thesis unfolding mint_cid_result by simp
  qed
  ultimately show ?thesis by blast
qed

theorem mint_cid_terminates_witness:
  "mint_cid (mb_by_cid mb_demo_state) (map Some [mt_cid mb_demo_thread, [], [1]] @ [])
     \<noteq> None"
proof -
  have "distinct [mt_cid mb_demo_thread, [], [1]]" by (simp add: mb_demo_thread_def)
  moreover have "length [mt_cid mb_demo_thread, [], [1]] = Suc (max_total mb_demo_quota)"
    by (simp add: mb_demo_quota_def)
  ultimately obtain cid where
    "mint_cid (mb_by_cid mb_demo_state) (map Some [mt_cid mb_demo_thread, [], [1]] @ []) = Some (Some cid)"
    using mint_cid_terminates [OF mb_demo_reachable, of _ "[]"] by blast
  then show ?thesis by (simp only: option.distinct not_False_eq_True)
qed

text \<open>Connection-id traffic begins nothing: whatever is in a datagram of content type 25, it never
  reaches the pending session, so nothing is sent back; no thread, permit, pending session or
  address entry changes; it can only be queued, with its source, for the session its id names,
  or remove the id of a session that is gone.\<close>

theorem cid_datagrams_never_answered:
  assumes "d \<noteq> []" and "hd d = 25" and "mb_listen_datagram q env source d s = (s', driven)"
  shows "\<not> driven \<and> mb_threads s' = mb_threads s \<and> mb_counts s' = mb_counts s
    \<and> mb_pending s' = mb_pending s \<and> mb_by_addr s' = mb_by_addr s
    \<and> (s' = s
       \<or> (\<exists>cid h. cid_of d = Some cid \<and> hm_get (mb_by_cid s) cid = Some h
          \<and> (mb_receiver_alive s (sh_chan h) \<and> s' = s\<lparr>mb_chans := (mb_chans s)(sh_chan h :=
                mb_chans s (sh_chan h) @ [(d, canonical_peer source)])\<rparr>
             \<or> \<not> mb_receiver_alive s (sh_chan h) \<and> s' = s\<lparr>mb_by_cid := hm_remove cid (mb_by_cid s)\<rparr>)))"
proof -
  have "d ! 0 = CONTENT_TYPE_CID" using assms(1,2) by (simp add: CONTENT_TYPE_CID_def hd_conv_nth)
  with assms have "s' = route_by_cid (canonical_peer source) d s" "\<not> driven"
    by (auto simp: mb_listen_datagram_def Let_def)
  then show ?thesis
    by (auto simp: route_by_cid_def try_send_def split: option.splits try_send.splits if_splits)
qed

theorem cid_datagrams_never_answered_witness:
  "mb_threads (fst (mb_listen_datagram mb_demo_quota (mb_demo_env True) mb_demo_peer [25, 1] mbed_init)) = []"
  using cid_datagrams_never_answered [OF _ _ surjective_pairing,
      of "[25, 1]" mb_demo_quota "mb_demo_env True" mb_demo_peer mbed_init]
  by (simp add: mbed_init_def)

text \<open>What the lookup by source does: entries only go, and the datagram reaches at most its own source's queue.\<close>

lemma route_by_addr_gains_nothing:
  assumes "route_by_addr peer d s = (b, s1)"
  shows "hm_get (mb_by_addr s1) p = Some h \<Longrightarrow> hm_get (mb_by_addr s) p = Some h"
    and "mb_chans s1 c \<noteq> mb_chans s c \<Longrightarrow> mb_chans s1 c = mb_chans s c @ [(d, peer)]
      \<and> (\<exists>h. sh_chan h = c \<and> hm_get (mb_by_addr s) peer = Some h)"
proof -
  show "hm_get (mb_by_addr s1) p = Some h \<Longrightarrow> hm_get (mb_by_addr s) p = Some h"
    using route_by_addr_frame(8) [OF assms] by (auto simp: table_simps split: if_splits)
  show "mb_chans s1 c \<noteq> mb_chans s c \<Longrightarrow> mb_chans s1 c = mb_chans s c @ [(d, peer)]
      \<and> (\<exists>h. sh_chan h = c \<and> hm_get (mb_by_addr s) peer = Some h)"
    using assms by (auto simp: route_by_addr_def try_send_def split: option.splits try_send.splits if_splits)
qed

text \<open>C23. An unverified source earns nothing: unless the pending handshake wants input with the cookie
  flag set, a datagram starts no thread, takes no permit and adds no entry to either map; what it
  does to queues is at most to append itself, with its source, to the queue of the session its
  address or connection id leads to.\<close>

theorem mbed_unverified_source_gains_nothing:
  assumes "mbed_reachable q s" and "\<not> mb_accepts env"
    and "mb_listen_datagram q env source d s = (s', driven)"
  shows "mb_threads s' = mb_threads s \<and> mb_counts s' = mb_counts s
    \<and> (\<forall>p h. hm_get (mb_by_addr s') p = Some h \<longrightarrow> hm_get (mb_by_addr s) p = Some h)
    \<and> (\<forall>k h. hm_get (mb_by_cid s') k = Some h \<longrightarrow> hm_get (mb_by_cid s) k = Some h)
    \<and> (\<forall>c. mb_chans s' c \<noteq> mb_chans s c \<longrightarrow>
        mb_chans s' c = mb_chans s c @ [(d, canonical_peer source)]
        \<and> (\<exists>h. sh_chan h = c \<and> (hm_get (mb_by_addr s) (canonical_peer source) = Some h
              \<or> (\<exists>cid. cid_of d = Some cid \<and> hm_get (mb_by_cid s) cid = Some h))))"
proof (cases "d \<noteq> [] \<and> d ! 0 = CONTENT_TYPE_CID")
  case True
  with assms(3) have "s' = route_by_cid (canonical_peer source) d s"
    by (simp add: mb_listen_datagram_def Let_def)
  then show ?thesis
    by (auto simp: route_by_cid_def try_send_def table_simps
        split: option.splits try_send.splits if_splits)
next
  case False
  let ?peer = "canonical_peer source"
  obtain b s1 where r: "route_by_addr ?peer d s = (b, s1)" by fastforce
  note addr = route_by_addr_gains_nothing(1) [OF r]
  have chans: "mb_chans s1 c = mb_chans s c @ [(d, ?peer)]
      \<and> (\<exists>h. sh_chan h = c \<and> (hm_get (mb_by_addr s) ?peer = Some h
            \<or> (\<exists>cid. cid_of d = Some cid \<and> hm_get (mb_by_cid s) cid = Some h)))"
    if "mb_chans s1 c \<noteq> mb_chans s c" for c
    using route_by_addr_gains_nothing(2) [OF r that] by blast
  note f = route_by_addr_frame(1,2,4) [OF r]
  show ?thesis
  proof (cases b)
    case True
    with r False assms(3) have "s' = s1" by (auto simp: mb_listen_datagram_def Let_def)
    with f addr chans show ?thesis by auto
  next
    case False2: False
    from r False False2 assms(3) have p: "route_pending q env ?peer s1 = (s', driven)"
      by (auto simp: mb_listen_datagram_def Let_def)
    from p show ?thesis
    proof (cases rule: route_pending_cases)
      case kept
      with f addr chans show ?thesis by auto
    next
      case (waiting c s2 pend)
      note w = mb_pending_listen_inv [OF route_by_addr_inv [OF mbed_reachable_inv [OF assms(1)] r]
          waiting(1)]
      show ?thesis using f addr chans w(5-9) by (auto simp: waiting(3))
    next
      case (promoted c s2 cid permit counts)
      with assms(2) show ?thesis by blast
    qed
  qed
qed

theorem mbed_unverified_source_gains_nothing_witness:
  "mb_threads (fst (mb_listen_datagram mb_demo_quota (mb_demo_env False) mb_demo_peer [22] mbed_init)) = []"
proof -
  have "\<not> mb_accepts (mb_demo_env False)" by (simp add: mb_accepts_def mb_demo_env_def)
  from mbed_unverified_source_gains_nothing [OF rtranclp.rtrancl_refl this surjective_pairing]
  show ?thesis by (simp add: mbed_init_def)
qed

text \<open>A reused address does not deafen its session: a plaintext hello from the address of an established
  session is kept from that session and handed to the cookie path, while one that arrives during
  the session's own handshake, like every other datagram, is queued for it as long as there is
  room.\<close>

theorem reused_address_gets_fresh_start:
  assumes "mbed_reachable q s" and "t \<in> set (mb_threads s)" and "mb_running (mt_phase t)"
    and "hm_get (mb_by_addr s) (canonical_peer source) = Some (mb_handle t)"
    and "d = [] \<or> hd d \<noteq> 25"
  shows "(is_plaintext_handshake d \<and> mt_phase t \<noteq> MbHandshaking \<longrightarrow>
        mb_listen_datagram q env source d s = route_pending q env (canonical_peer source) s)
    \<and> (\<not> is_plaintext_handshake d \<or> mt_phase t = MbHandshaking \<longrightarrow>
        mb_listen_datagram q env source d s =
          (if length (mb_chans s (mt_chan t)) < CONN_CHANNEL_DEPTH
           then s\<lparr>mb_chans := (mb_chans s)(mt_chan t :=
                  mb_chans s (mt_chan t) @ [(d, canonical_peer source)])\<rparr> else s, False))"
proof -
  have "flag_ok (mt_phase t) (mb_established s (mt_conn_id t))"
    using mbed_reachable_inv [OF assms(1)] assms(2) by (simp add: mb_inv_def mb_live_ok_def)
  then have e: "mb_established s (mt_conn_id t) \<longleftrightarrow> mt_phase t \<noteq> MbHandshaking"
    using assms(3) by (cases "mt_phase t") auto
  have alive: "mb_receiver_alive s (mt_chan t)"
    using assms(2,3) by (auto simp: mb_receiver_alive_def)
  have "\<not> (d \<noteq> [] \<and> d ! 0 = CONTENT_TYPE_CID)"
    using assms(5) by (auto simp: CONTENT_TYPE_CID_def hd_conv_nth)
  then show ?thesis
    using assms(4) e alive
    by (auto simp: mb_listen_datagram_def route_by_addr_def try_send_def Let_def not_less [symmetric])
qed

theorem reused_address_gets_fresh_start_witness:
  "snd (mb_listen_datagram mb_demo_quota (mb_demo_env True) mb_demo_peer [22, 254, 253, 0, 0] mb_demo_state)
   = False"
proof -
  have c: "canonical_peer mb_demo_peer = mb_demo_peer" by (simp add: canonical_peer_def mb_demo_peer_def)
  have "mb_demo_thread \<in> set (mb_threads mb_demo_state)" "mb_running (mt_phase mb_demo_thread)"
    "hm_get (mb_by_addr mb_demo_state) (canonical_peer mb_demo_peer) = Some (mb_handle mb_demo_thread)"
    unfolding c by (simp_all add: mb_demo_eq mb_demo_thread_def hm_defs)
  from reused_address_gets_fresh_start [OF mb_demo_reachable this, of "[22, 254, 253, 0, 0]"]
  show ?thesis by (auto simp: mb_demo_thread_def)
qed

text \<open>Teardown is guarded by identity: the two removals of an ending session take no entry of any other
  session from either map, and leave none of its own.\<close>

theorem mbed_teardown_leaves_others:
  assumes "mbed_reachable q s" and "t \<in> set (mb_threads s)" and "mt_phase t = MbEnded"
    and "mb_remove_cid (t\<lparr>mt_phase := MbAddrGone\<rparr>) (mb_remove_addr t s) = s'"
  shows "rtranclp (mbed_step q) s s'
    \<and> (\<forall>p h. sh_conn_id h \<noteq> mt_conn_id t \<longrightarrow>
        (hm_get (mb_by_addr s') p = Some h \<longleftrightarrow> hm_get (mb_by_addr s) p = Some h))
    \<and> (\<forall>k h. sh_conn_id h \<noteq> mt_conn_id t \<longrightarrow>
        (hm_get (mb_by_cid s') k = Some h \<longleftrightarrow> hm_get (mb_by_cid s) k = Some h))
    \<and> (\<forall>p h. hm_get (mb_by_addr s') p = Some h \<longrightarrow> sh_conn_id h \<noteq> mt_conn_id t)
    \<and> (\<forall>k h. hm_get (mb_by_cid s') k = Some h \<longrightarrow> sh_conn_id h \<noteq> mt_conn_id t)"
proof -
  note inv = mbed_reachable_inv [OF assms(1)]
  let ?t = "t\<lparr>mt_phase := MbAddrGone\<rparr>" and ?s1 = "mb_remove_addr t s"
  have s1: "mb_inv ?s1" using mb_remove_addr_inv [OF inv assms(2)] .
  have "(if mt_conn_id t = mt_conn_id t then t\<lparr>mt_phase := MbAddrGone\<rparr> else t)
      \<in> set (mb_threads (mb_set_phase (mt_conn_id t) MbAddrGone
          (remove_by_addr_if_mine (mt_peer t) (mt_conn_id t) s)))"
    by (rule set_phase_mem) (use assms(2) in \<open>simp add: remove_frames\<close>)
  then have mem: "?t \<in> set (mb_threads ?s1)" by (simp add: mb_remove_addr_def)
  have "mbed_step q s ?s1" using assms(2,3) by (rule mbed_step.addr_removed)
  moreover have "mbed_step q ?s1 s'"
    using mbed_step.cid_removed [OF mem, of q] assms(4) by simp
  ultimately have run: "rtranclp (mbed_step q) s s'" by auto
  have s2: "mb_inv s'" using mb_remove_cid_inv [OF s1 mem] assms(4) by simp
  have mem': "?t\<lparr>mt_phase := MbCidGone\<rparr> \<in> set (mb_threads s')"
  proof -
    have "(if mt_conn_id ?t = mt_conn_id t then ?t\<lparr>mt_phase := MbCidGone\<rparr> else ?t)
        \<in> set (mb_threads (mb_set_phase (mt_conn_id t) MbCidGone
          (remove_by_cid_if_mine (mt_cid t) (mt_conn_id t) ?s1)))"
      by (rule set_phase_mem) (use mem in \<open>simp add: remove_frames\<close>)
    then show ?thesis using assms(4) by (simp add: mb_remove_cid_def)
  qed
  have ga: "hm_get (mb_by_addr s') p = (case hm_get (mb_by_addr s) p of
      Some h \<Rightarrow> if p = mt_peer t \<and> sh_conn_id h = mt_conn_id t then None else Some h | None \<Rightarrow> None)" for p
    by (simp add: assms(4) [symmetric] mb_remove_cid_def mb_remove_addr_def remove_frames)
  have gc: "hm_get (mb_by_cid s') k = (case hm_get (mb_by_cid s) k of
      Some h \<Rightarrow> if k = mt_cid t \<and> sh_conn_id h = mt_conn_id t then None else Some h | None \<Rightarrow> None)" for k
    by (simp add: assms(4) [symmetric] mb_remove_cid_def mb_remove_addr_def remove_frames)
  have "hm_get (mb_by_addr s') p = Some h \<longleftrightarrow> hm_get (mb_by_addr s) p = Some h"
    if "sh_conn_id h \<noteq> mt_conn_id t" for p h
    using that ga [of p] by (cases "hm_get (mb_by_addr s) p") auto
  moreover have "hm_get (mb_by_cid s') k = Some h \<longleftrightarrow> hm_get (mb_by_cid s) k = Some h"
    if "sh_conn_id h \<noteq> mt_conn_id t" for k h
    using that gc [of k] by (cases "hm_get (mb_by_cid s) k") auto
  moreover have "\<forall>p h. hm_get (mb_by_addr s') p = Some h \<longrightarrow> sh_conn_id h \<noteq> mt_conn_id t"
    "\<forall>k h. hm_get (mb_by_cid s') k = Some h \<longrightarrow> sh_conn_id h \<noteq> mt_conn_id t"
    using no_addr_entry [OF s2 mem'] no_cid_entry [OF s2 mem'] by simp_all
  ultimately show ?thesis using run by blast
qed

theorem mbed_teardown_leaves_others_witness:
  "\<forall>k. hm_get (mb_by_cid (mb_remove_cid (mb_demo_thread\<lparr>mt_phase := MbAddrGone\<rparr>)
     (mb_remove_addr (mb_demo_thread\<lparr>mt_phase := MbEnded\<rparr>) (mb_set_phase 1 MbEnded mb_demo_state)))) k
   \<noteq> Some (mb_handle mb_demo_thread)"
proof -
  let ?s = "mb_set_phase 1 MbEnded mb_demo_state" and ?t = "mb_demo_thread\<lparr>mt_phase := MbEnded\<rparr>"
  have m: "mb_demo_thread \<in> set (mb_threads mb_demo_state)" "mb_running (mt_phase mb_demo_thread)"
    "mt_conn_id mb_demo_thread = 1"
    by (simp_all add: mb_demo_eq mb_demo_thread_def)
  from mbed_step.ended [OF m(1,2), of mb_demo_quota] m(3) have "mbed_reachable mb_demo_quota ?s"
    using mb_demo_reachable by (auto intro: rtranclp.rtrancl_into_rtrancl)
  moreover have "?t \<in> set (mb_threads ?s)" by (simp add: mb_set_phase_def mb_demo_eq m(3))
  moreover have "mt_phase ?t = MbEnded" by simp
  ultimately show ?thesis
    using mbed_teardown_leaves_others [of mb_demo_quota ?s ?t, OF _ _ _ refl] by fastforce
qed

lemma read_commits:
  assumes "\<forall>e \<in> set es. no_read_data e"
    and "mb_serve up szx show_addr cid_active idle (MbReads env (RdData n) bs # es) s = (go, s')"
  shows "cn_committed_peer (ms_io s')
        = (if cid_active then cn_staged_peer (ms_io s) else cn_committed_peer (ms_io s))
    \<and> (\<exists>rs. ms_out s' = ms_out s @ map (Pair (cn_committed_peer (ms_io s'))) rs)"
proof -
  let ?s1 = "note_read show_addr cid_active (sn_now env) s"
  have "cn_committed_peer (ms_io s') = cn_committed_peer (ms_io ?s1)
      \<and> (\<exists>rs. ms_out s' = ms_out s @ map (Pair (cn_committed_peer (ms_io ?s1))) rs)"
  proof (cases "n = 0")
    case True
    with assms(2) have "s' = snd (mb_serve up szx show_addr cid_active idle es ?s1)" by simp
    with quiet_serve [OF assms(1), of up szx show_addr cid_active idle ?s1]
    show ?thesis by (simp add: note_read_peers(2))
  next
    case False
    obtain go1 s2 where a: "mb_answer up szx env (take n bs) ?s1 = (go1, s2)" by fastforce
    note f = mb_answer_frame [OF a]
    have "s' = s2 \<or> s' = snd (mb_serve up szx show_addr cid_active idle es s2)"
      using assms(2) a False by (cases go1) auto
    with quiet_serve [OF assms(1), of up szx show_addr cid_active idle s2]
    have "cn_committed_peer (ms_io s') = cn_committed_peer (ms_io s2)" "ms_out s' = ms_out s2" by auto
    with f show ?thesis by (simp add: note_read_peers(2))
  qed
  then show ?thesis
    using note_read_peers(1) [of show_addr cid_active "sn_now env" s] by auto
qed

text \<open>C15. Replies move only on authentic reads: whatever arrives, whatever the transport delivers and however the
  library fails to read a record, the committed peer stays and nothing is sent. Once the library
  returns an authenticated record, the committed peer is, with a negotiated connection id, the
  source of the datagram the transport delivered last (of those waiting and arriving with their
  sources, in order, past the handshake deadline none, and none that was too big for its buffer;
  the one staged before when none was delivered), and without a connection id it is the one it was;
  and every reply goes to the committed peer.\<close>

theorem mbed_migration_needs_authentic_read:
  assumes "\<forall>e \<in> set (es @ es'). no_read_data e"
    and "mb_serve up szx show_addr cid_active idle es s = (going, s1)"
    and "mb_serve up szx show_addr cid_active idle (es @ MbReads env (RdData n) bs # es') s = (go, s')"
  shows "cn_committed_peer (ms_io s1) = cn_committed_peer (ms_io s) \<and> ms_out s1 = ms_out s
    \<and> (if going
       then cn_committed_peer (ms_io s') = (if cid_active
            then last_source (cn_deadline (ms_io s)) (conn_sourced (ms_io s)) (cn_staged_peer (ms_io s)) es
            else cn_committed_peer (ms_io s))
          \<and> (\<exists>rs. ms_out s' = ms_out s @ map (Pair (cn_committed_peer (ms_io s'))) rs)
       else s' = s1)"
proof -
  have q: "\<forall>e \<in> set es. no_read_data e" "\<forall>e \<in> set es'. no_read_data e" using assms(1) by auto
  have s1: "cn_committed_peer (ms_io s1) = cn_committed_peer (ms_io s)" "ms_out s1 = ms_out s"
    using quiet_serve [OF q(1), of up szx show_addr cid_active idle s] assms(2) by simp_all
  show ?thesis
  proof (cases going)
    case False
    with mb_serve_append [of up szx show_addr cid_active idle es] assms(2,3) s1 show ?thesis by simp
  next
    case True
    with assms(2,3) have "mb_serve up szx show_addr cid_active idle (MbReads env (RdData n) bs # es') s1 = (go, s')"
      by (simp add: mb_serve_append)
    from read_commits [OF q(2) this] True last_source_staged [OF q(1), of up szx show_addr cid_active idle s s1]
      assms(2) s1
    show ?thesis by auto
  qed
qed

definition mb_demo_io :: conn_state where
  "mb_demo_io = \<lparr>cn_queue = [], cn_connected = True, cn_committed_peer = mb_demo_peer,
     cn_staged_peer = mb_demo_peer\<lparr>sa_port := 77\<rparr>, cn_pending = None, cn_tick = 0, cn_deadline = None\<rparr>"

definition mb_demo_session :: mbed_session where
  "mb_demo_session = \<lparr>ms_io = mb_demo_io,
     ms_dtls = \<lparr>se_conn = \<lparr>gc_dedup = new_dedup_cache, gc_next_mid = 0\<rparr>, se_sent = [], se_calls = [],
       se_last = 0\<rparr>,
     ms_dev = \<lparr>ds_pigeon_id = [1], ds_token = [2], ds_peer = [], ds_conn_id = 1\<rparr>,
     ms_addr_routed = True, ms_out = []\<rparr>"

text \<open>A datagram from another port is read, and then its record authenticated.\<close>

theorem mbed_migration_needs_authentic_read_witness:
  "\<forall>up szx show_addr env tm. cn_committed_peer (ms_io (snd (mb_serve up szx show_addr True 5
     [MbArrival [1] (mb_demo_peer\<lparr>sa_port := 78\<rparr>), MbRecv 1 1 9 tm, MbReads env (RdData 0) []] mb_demo_session)))
   = mb_demo_peer\<lparr>sa_port := 78\<rparr>"
proof (intro allI)
  fix up szx show_addr env tm
  let ?es = "[MbArrival [1] (mb_demo_peer\<lparr>sa_port := 78\<rparr>), MbRecv 1 1 9 tm]"
  have "\<forall>e \<in> set (?es @ []). no_read_data e" by (simp add: no_read_data_def)
  from mbed_migration_needs_authentic_read [OF this surjective_pairing surjective_pairing,
      of up szx show_addr True 5 mb_demo_session env 0 "[]"]
  show "cn_committed_peer (ms_io (snd (mb_serve up szx show_addr True 5
     [MbArrival [1] (mb_demo_peer\<lparr>sa_port := 78\<rparr>), MbRecv 1 1 9 tm, MbReads env (RdData 0) []] mb_demo_session)))
   = mb_demo_peer\<lparr>sa_port := 78\<rparr>"
    by (simp add: mb_demo_session_def mb_demo_io_def conn_sourced_def)
qed

text \<open>A connection-id session serves only the pigeon its handshake authenticated: without a completed
  handshake and credentials nothing is served; otherwise every upstream call is for that
  identity with its token, wherever the session has moved.\<close>

theorem mbed_session_acts_as_identity:
  shows "(fst (mb_handshake started deadline hs io) \<noteq> MbDone \<or> pk_credentials psk = None \<longrightarrow>
        session_thread up szx show_addr cid_idle started deadline hs cid_result psk peer conn_id random
          at es io = None)
    \<and> (\<forall>s. session_thread up szx show_addr cid_idle started deadline hs cid_result psk peer conn_id
          random at es io = Some s \<longrightarrow>
        (\<exists>identity token. pk_credentials psk = Some (identity, token)
          \<and> (\<forall>c \<in> set (se_calls (ms_dtls s)). uc_pigeon_id c = identity \<and> uc_bearer c = token)))"
proof (intro conjI allI impI)
  fix s assume a: "session_thread up szx show_addr cid_idle started deadline hs cid_result psk peer
    conn_id random at es io = Some s"
  then obtain identity token where c: "pk_credentials psk = Some (identity, token)"
    by (auto simp: session_thread_def take_credentials_def Let_def
        split: prod.splits mb_hs_end.splits option.splits)
  let ?dev = "\<lparr>ds_pigeon_id = identity, ds_token = token, ds_peer = show_addr peer, ds_conn_id = conn_id\<rparr>"
  from a c obtain cid_active idle s0 where
    s: "s = snd (mb_serve up szx show_addr cid_active idle es s0)"
    and s0: "se_calls (ms_dtls s0) = []" "ms_dev s0 = ?dev"
    by (auto simp: session_thread_def take_credentials_def Let_def
        split: prod.splits mb_hs_end.splits)
  have "session_acts ?dev (ms_dtls s)"
    unfolding s by (rule mb_serve_acts) (use s0 in \<open>simp_all add: session_acts_def\<close>)
  with c show "\<exists>identity token. pk_credentials psk = Some (identity, token)
      \<and> (\<forall>c \<in> set (se_calls (ms_dtls s)). uc_pigeon_id c = identity \<and> uc_bearer c = token)"
    by (auto simp: session_acts_def)
qed (auto simp: session_thread_def take_credentials_def Let_def split: prod.splits mb_hs_end.splits)

theorem mbed_session_acts_as_identity_witness:
  "session_thread (\<lambda>_. Inl []) 6 (\<lambda>_. []) 9 0 5 [HsReturns 1 HsDone] (Inl 1)
     \<lparr>pk_credentials = None, pk_hs_psk = None\<rparr> mb_demo_peer 1 None 1 [] mb_demo_io = None"
  using mbed_session_acts_as_identity by fastforce

text \<open>The handshake of a promoted session is bounded in wall-clock time: nothing is delivered to it at or
  after the deadline, a read or a result past the deadline ends it, and only success disarms it.\<close>

theorem mbed_handshake_deadline:
  assumes "mb_handshake started deadline es (io\<lparr>cn_deadline := Some t\<rparr>) = (r, ds, io')"
  shows "(\<forall>(now, d) \<in> set ds. now < t)
    \<and> ((\<exists>now. (\<exists>later n tm. HsRecv now later n tm \<in> set es) \<and> t \<le> now
        \<or> (\<exists>st. HsReturns now st \<in> set es) \<and> started + deadline < now) \<longrightarrow> r \<noteq> MbOngoing)
    \<and> (r = MbDone \<longleftrightarrow> cn_deadline io' = None)"
  using mb_handshake_bound [OF assms] by simp

theorem mbed_handshake_deadline_witness:
  "fst (mb_handshake 0 5 [HsReturns 7 HsWantRead] (mb_demo_io\<lparr>cn_deadline := Some 5\<rparr>)) \<noteq> MbOngoing"
proof -
  obtain r ds io' where c:
    "mb_handshake 0 5 [HsReturns 7 HsWantRead] (mb_demo_io\<lparr>cn_deadline := Some 5\<rparr>) = (r, ds, io')"
    by (metis prod_cases3)
  have "\<exists>now. (\<exists>st. HsReturns now st \<in> set [HsReturns 7 HsWantRead]) \<and> 0 + 5 < now" by auto
  with mbed_handshake_deadline [OF c] c show ?thesis by auto
qed




text \<open>The classifiers: a datagram has a connection id exactly when it is long enough for the record
  header, id and a byte of epoch-protected content and its version is DTLS 1.2, the id being the
  eight bytes after the header; the bytes a cookie is bound to name the source address uniquely.\<close>

theorem mbed_record_classifiers:
  shows "(cid_of d = Some cid \<longleftrightarrow> (\<exists>ty epoch_seq body. length epoch_seq = 8 \<and> length cid = 8
        \<and> 2 \<le> length body \<and> d = ty # 0xFE # 0xFD # epoch_seq @ cid @ body))
    \<and> (length out = 18 \<longrightarrow> length (snd (transport_id p out)) = 18 \<and> fst (transport_id p out) \<le> 18)
    \<and> (take (fst (transport_id p out)) (snd (transport_id p out))
          = take (fst (transport_id p' out)) (snd (transport_id p' out)) \<longrightarrow> p = p')"
proof (intro conjI impI)
  show "cid_of d = Some cid \<longleftrightarrow> (\<exists>ty epoch_seq body. length epoch_seq = 8 \<and> length cid = 8
      \<and> 2 \<le> length body \<and> d = ty # 0xFE # 0xFD # epoch_seq @ cid @ body)"
  proof
    assume c: "cid_of d = Some cid"
    then have l: "21 \<le> length d" "d ! 1 = 0xFE" "d ! 2 = 0xFD" "cid = take 8 (drop 11 d)"
      by (auto simp: cid_of_def CID_LEN_def split: if_splits)
    obtain x0 x1 x2 rest where "d = x0 # x1 # x2 # rest"
      using l(1) by (cases d; cases "tl d"; cases "tl (tl d)") auto
    then have "d = d ! 0 # d ! 1 # d ! 2 # drop 3 d" by (simp add: numeral_eq_Suc)
    moreover have "drop 3 d = take 8 (drop 3 d) @ take 8 (drop 11 d) @ drop 19 d"
      using append_take_drop_id [of 8 "drop 3 d"] append_take_drop_id [of 8 "drop 11 d"] by simp
    ultimately have "d = d ! 0 # 0xFE # 0xFD # take 8 (drop 3 d) @ cid @ drop 19 d" using l by simp
    with l(1,4) show "\<exists>ty epoch_seq body. length epoch_seq = 8 \<and> length cid = 8
        \<and> 2 \<le> length body \<and> d = ty # 0xFE # 0xFD # epoch_seq @ cid @ body"
      by (intro exI [of _ "d ! 0"] exI [of _ "take 8 (drop 3 d)"] exI [of _ "drop 19 d"]) auto
  next
    assume "\<exists>ty epoch_seq body. length epoch_seq = 8 \<and> length cid = 8
        \<and> 2 \<le> length body \<and> d = ty # 0xFE # 0xFD # epoch_seq @ cid @ body"
    then show "cid_of d = Some cid" by (auto simp: cid_of_def CID_LEN_def numeral_eq_Suc)
  qed
  have len: "length (ip_octets (sa_ip a)) = 4 \<or> length (ip_octets (sa_ip a)) = 16" for a :: socket_addr
    using length_ip_octets [of "sa_ip a"] by (cases "sa_ip a") auto
  show "length (snd (transport_id p out)) = 18" "fst (transport_id p out) \<le> 18" if "length out = 18"
    using len [of p] that by (auto simp: transport_id_def Let_def)
  have used: "take (fst (transport_id a out)) (snd (transport_id a out))
      = ip_octets (sa_ip a) @ u16_to_be_bytes (sa_port a)" for a
    by (simp add: transport_id_def Let_def)
  show "p = p'" if "take (fst (transport_id p out)) (snd (transport_id p out))
      = take (fst (transport_id p' out)) (snd (transport_id p' out))"
    using that unfolding used by (rule socket_addr_bytes_inj)
qed

theorem mbed_record_classifiers_witness:
  "length (snd (transport_id mb_demo_peer (replicate 18 0))) = 18"
  using mbed_record_classifiers [of "[]" "[]" "replicate 18 0" mb_demo_peer mb_demo_peer] by simp

end
