(* ===== verification/Session_Link.thy ===== *)
theory Session_Link
  imports Lossy_Link Dtls Dtls_Mbed
begin

text \<open>
  The session loops of both DTLS listeners as runs of datagrams. A loop reads decrypted datagrams
  between idle ticks and, over mbedTLS, between changes of the peer's address; what it writes and
  what it asks of dovecote is the run \<open>datagram_run\<close> of those datagrams, so what \<open>Lossy_Link\<close> and
  \<open>Device_Download\<close> show of uploads and downloads holds of the sessions.
\<close>

section \<open>The peer's address does not matter to an answer\<close>

lemma device_session_peer:
  "ds_pigeon_id (session\<lparr>ds_peer := p\<rparr>) = ds_pigeon_id session" "ds_token (session\<lparr>ds_peer := p\<rparr>) = ds_token session"
  "ds_conn_id (session\<lparr>ds_peer := p\<rparr>) = ds_conn_id session"
  by simp_all

lemma session_call_peer:
  "session_call (session\<lparr>ds_peer := p\<rparr>) m leaf rng body = session_call session m leaf rng body"
  by (simp add: session_call_def)

lemma handle_peer:
  "handle up szx n1 n2 req (session\<lparr>ds_peer := p\<rparr>) tr t = handle up szx n1 n2 req session tr t"
  unfolding handle_def handle_leaf_def post_leaf_def firmware_def assemble_body_def session_call_peer
    device_session_peer by (rule refl)

lemma process_datagram_peer [simp]:
  "process_datagram up szx ts bs (session\<lparr>ds_peer := p\<rparr>) t g = process_datagram up szx ts bs session t g"
  unfolding process_datagram_def handle_peer by (rule refl)

section \<open>What a loop reads\<close>

text \<open>The environment of a read that brings a delivery: the times, the table, and a write that works.\<close>

definition env_of :: "session_env \<Rightarrow> delivery \<Rightarrow> block1_table \<Rightarrow> bool" where
  "env_of env d t \<longleftrightarrow> sn_times env = dv_times d \<and> sn_table env = snd (run_block1 (dv_others d) t) \<and> sn_write_ok env"

definition deliver_next ::
  "upstream \<Rightarrow> u8 \<Rightarrow> device_session \<Rightarrow> delivery \<Rightarrow> block1_table \<Rightarrow> dgram_conn
   \<Rightarrow> bytes option \<times> block1_table \<times> dgram_conn \<times> upstream_call list" where
  "deliver_next up szx session d t g = process_datagram up szx (dv_times d)
     (datagram_encode (dv_datagram d)) session (snd (run_block1 (dv_others d) t)) g"

definition written :: "bytes option list \<Rightarrow> bytes list" where
  "written rs = concat (map (\<lambda>r. case r of None \<Rightarrow> [] | Some bs \<Rightarrow> [bs]) rs)"

lemma written_simps [simp]:
  "written [] = []" "written (None # rs) = written rs" "written (Some bs # rs) = bs # written rs"
  by (simp_all add: written_def)

lemma datagram_encode_nonempty [simp]: "datagram_encode d \<noteq> []"
  by (simp add: datagram_encode_def Let_def)

lemma datagram_run_next:
  assumes "datagram_run up szx session (d # ds) t g = (rs, calls, t'')"
    and "deliver_next up szx session d t g = (r, t', g', cs)"
  obtains rs' calls' where "datagram_run up szx session ds t' g' = (rs', calls', t'')"
    and "rs = r # rs'" and "calls = cs @ calls'"
  using assms by (auto simp: deliver_next_def split: prod.splits)

lemma answer_delivery:
  assumes "env_of env d t" and "deliver_next up szx session d t (se_conn s) = (r, t', g', cs)"
  shows "answer_datagram up szx session env (datagram_encode (dv_datagram d)) s
    = (True, s\<lparr>se_conn := g', se_calls := se_calls s @ cs, se_sent := se_sent s @ written [r]\<rparr>)"
  using assms by (cases r) (simp_all add: answer_datagram_def env_of_def deliver_next_def)

section \<open>The loop over OpenSSL\<close>

text \<open>
  Reads that bring the deliveries in order, with idle ticks between them that do not reach the idle
  deadline; what comes after the last may end the session.
\<close>

fun brings ::
  "upstream \<Rightarrow> u8 \<Rightarrow> device_session \<Rightarrow> session_read list \<Rightarrow> delivery list \<Rightarrow> block1_table \<Rightarrow> dgram_conn
   \<Rightarrow> instant \<Rightarrow> bool" where
  "brings up szx session [] ds t g since = (ds = [])"
| "brings up szx session (ReadEnds # rs) ds t g since = (ds = [])"
| "brings up szx session (ReadWants now # rs) ds t g since =
     (if IDLE_DEADLINE < now - since then ds = [] else brings up szx session rs ds t g since)"
| "brings up szx session (ReadData env bs # rs) ds t g since = (case ds of
     [] \<Rightarrow> False
   | d # ds' \<Rightarrow> bs = datagram_encode (dv_datagram d) \<and> env_of env d t
       \<and> (case deliver_next up szx session d t g of (_, t', g', _) \<Rightarrow>
            brings up szx session rs ds' t' g' (sn_now env)))"

lemma serve_brings:
  assumes "brings up szx session reads ds t (se_conn s) (se_last s)"
    and "datagram_run up szx session ds t (se_conn s) = (rs, calls, t')"
  shows "se_sent (snd (serve_datagrams up szx session reads s)) = se_sent s @ written rs
    \<and> se_calls (snd (serve_datagrams up szx session reads s)) = se_calls s @ calls"
  using assms
proof (induction up szx session reads s arbitrary: ds t rs calls rule: serve_datagrams.induct)
  case (2 up szx session env bs reads s)
  let ?s = "s\<lparr>se_last := sn_now env\<rparr>"
  obtain d ds' where ds: "ds = d # ds'" using "2.prems"(1) by (cases ds) auto
  obtain r t1 g1 cs where n: "deliver_next up szx session d t (se_conn s) = (r, t1, g1, cs)"
    by (metis prod_cases4)
  have bs: "bs = datagram_encode (dv_datagram d)" and env: "env_of env d t"
    and rest: "brings up szx session reads ds' t1 g1 (sn_now env)"
    using "2.prems"(1) n by (simp_all add: ds)
  let ?s1 = "?s\<lparr>se_conn := g1, se_calls := se_calls s @ cs, se_sent := se_sent s @ written [r]\<rparr>"
  have ans: "answer_datagram up szx session env bs ?s = (True, ?s1)"
    using answer_delivery [of env d t up szx session ?s] env n bs by simp
  obtain rs' calls' where run: "datagram_run up szx session ds' t1 g1 = (rs', calls', t')"
    and rs: "rs = r # rs'" "calls = cs @ calls'"
    using datagram_run_next [OF "2.prems"(2) [unfolded ds] n] by blast
  have ne: "bs \<noteq> []" using bs by simp
  from "2.IH" [OF ne ans [symmetric] refl, of ds' t1 rs' calls'] rest run
  have "se_sent (snd (serve_datagrams up szx session reads ?s1)) = se_sent ?s1 @ written rs'
    \<and> se_calls (snd (serve_datagrams up szx session reads ?s1)) = se_calls ?s1 @ calls'" by simp
  with ne ans rs show ?case by (cases r) simp_all
qed (auto split: if_splits)

section \<open>The loop over mbedTLS\<close>

fun mb_brings ::
  "upstream \<Rightarrow> u8 \<Rightarrow> device_session \<Rightarrow> duration \<Rightarrow> mb_event list \<Rightarrow> delivery list \<Rightarrow> block1_table
   \<Rightarrow> dgram_conn \<Rightarrow> instant \<Rightarrow> bool" where
  "mb_brings up szx session idle [] ds t g since = (ds = [])"
| "mb_brings up szx session idle (MbArrival b src # es) ds t g since
     = mb_brings up szx session idle es ds t g since"
| "mb_brings up szx session idle (MbRecv now later n tm # es) ds t g since
     = mb_brings up szx session idle es ds t g since"
| "mb_brings up szx session idle (MbReads env status bs # es) ds t g since = (case status of
     RdData n \<Rightarrow>
       if n = 0 then mb_brings up szx session idle es ds t g (sn_now env)
       else (case ds of
           [] \<Rightarrow> False
         | d # ds' \<Rightarrow> take n bs = datagram_encode (dv_datagram d) \<and> env_of env d t
             \<and> (case deliver_next up szx session d t g of (_, t', g', _) \<Rightarrow>
                  mb_brings up szx session idle es ds' t' g' (sn_now env)))
   | PeerClosed \<Rightarrow> ds = []
   | RdFailed _ \<Rightarrow> ds = []
   | _ \<Rightarrow> if idle < sn_now env - since then ds = []
       else mb_brings up szx session idle es ds t g since)"

text \<open>The session is the one it was promoted as, wherever its peer has moved.\<close>

definition same_device :: "device_session \<Rightarrow> mbed_session \<Rightarrow> bool" where
  "same_device session s \<longleftrightarrow> (\<exists>p. ms_dev s = session\<lparr>ds_peer := p\<rparr>)"

lemma same_device_io [simp]: "same_device session (s\<lparr>ms_io := io\<rparr>) = same_device session s"
  by (simp add: same_device_def)

lemma note_read_device:
  "same_device session s \<Longrightarrow> same_device session (note_read show_addr cid_active now s)"
  by (auto simp: same_device_def note_read_def take_migration_def Let_def)

lemma note_read_dtls [simp]:
  "ms_dtls (note_read show_addr cid_active now s) = (ms_dtls s)\<lparr>se_last := now\<rparr>"
  "ms_out (note_read show_addr cid_active now s) = ms_out s"
  by (auto simp: note_read_def take_migration_def Let_def)

lemma mb_answer_delivery:
  assumes "same_device session s" and "env_of env d t"
    and "deliver_next up szx session d t (se_conn (ms_dtls s)) = (r, t', g', cs)"
  shows "mb_answer up szx env (datagram_encode (dv_datagram d)) s = (True, s\<lparr>ms_dtls := (ms_dtls s)
      \<lparr>se_conn := g', se_calls := se_calls (ms_dtls s) @ cs, se_sent := se_sent (ms_dtls s) @ written [r]\<rparr>,
      ms_out := ms_out s @ map (Pair (cn_committed_peer (ms_io s))) (written [r])\<rparr>)"
proof -
  obtain p where p: "ms_dev s = session\<lparr>ds_peer := p\<rparr>" using assms(1) by (auto simp: same_device_def)
  have "deliver_next up szx (ms_dev s) d t (se_conn (ms_dtls s)) = (r, t', g', cs)"
    using assms(3) by (simp add: deliver_next_def p)
  from answer_delivery [OF assms(2) this] show ?thesis by (simp add: mb_answer_def)
qed

lemma mb_serve_brings:
  assumes "mb_brings up szx session idle es ds t (se_conn (ms_dtls s)) (se_last (ms_dtls s))"
    and "datagram_run up szx session ds t (se_conn (ms_dtls s)) = (rs, calls, t')"
    and "same_device session s"
  shows "map snd (ms_out (snd (mb_serve up szx show_addr cid_active idle es s))) = map snd (ms_out s) @ written rs
    \<and> se_calls (ms_dtls (snd (mb_serve up szx show_addr cid_active idle es s))) = se_calls (ms_dtls s) @ calls
    \<and> same_device session (snd (mb_serve up szx show_addr cid_active idle es s))"
  using assms
proof (induction up szx show_addr cid_active idle es s arbitrary: ds t rs calls rule: mb_serve.induct)
  case (4 up szx show_addr cid_active idle env status bs es s)
  show ?case
  proof (cases "\<exists>n. status = RdData n")
    case False
    with 4 show ?thesis by (cases status) (auto split: if_splits)
  next
    case True
    then obtain n where status: "status = RdData n" by blast
    let ?s = "note_read show_addr cid_active (sn_now env) s"
    have dev: "same_device session ?s" using "4.prems"(3) by (rule note_read_device)
    show ?thesis
    proof (cases "n = 0")
      case True
      with "4.IH"(1) [OF status refl True, of ds t rs calls] "4.prems"(1,2) dev status show ?thesis by simp
    next
      case False
      obtain d ds' where ds: "ds = d # ds'" using "4.prems"(1) status False by (cases ds) auto
      obtain r t1 g1 cs where nx: "deliver_next up szx session d t (se_conn (ms_dtls s)) = (r, t1, g1, cs)"
        by (metis prod_cases4)
      have bs: "take n bs = datagram_encode (dv_datagram d)" and env: "env_of env d t"
        and rest: "mb_brings up szx session idle es ds' t1 g1 (sn_now env)"
        using "4.prems"(1) nx False by (simp_all add: ds status)
      define s1 where "s1 = ?s\<lparr>ms_dtls := (ms_dtls ?s)\<lparr>se_conn := g1,
          se_calls := se_calls (ms_dtls ?s) @ cs, se_sent := se_sent (ms_dtls ?s) @ written [r]\<rparr>,
        ms_out := ms_out ?s @ map (Pair (cn_committed_peer (ms_io ?s))) (written [r])\<rparr>"
      have ans: "mb_answer up szx env (take n bs) ?s = (True, s1)"
        using mb_answer_delivery [OF dev env, of up szx r t1 g1 cs] nx bs by (simp add: s1_def)
      have s1: "same_device session s1" "se_conn (ms_dtls s1) = g1" "se_last (ms_dtls s1) = sn_now env"
        using dev by (simp_all add: s1_def same_device_def)
      obtain rs' calls' where run: "datagram_run up szx session ds' t1 g1 = (rs', calls', t')"
        and rs: "rs = r # rs'" "calls = cs @ calls'"
        using datagram_run_next [OF "4.prems"(2) [unfolded ds] nx] by blast
      from "4.IH"(2) [OF status refl False ans [symmetric] refl, of ds' t1 rs' calls'] rest run s1 show ?thesis
        using status False ans rs by (cases r) (simp_all add: s1_def comp_def)
    qed
  qed
qed (auto simp: conn_arrive_def)

section \<open>Properties\<close>

text \<open>C13. The session loops of both DTLS listeners do what the run of their datagrams says, no more and no
  less: when the reads of a session, between idle ticks that do not reach the deadline, bring
  given datagrams in order and the writes work, the replies it writes are those of the run, in
  order, and so are its upstream calls; over mbedTLS whatever else arrives meanwhile, wherever the
  peer has moved, and still as the device that the handshake authenticated.\<close>

theorem session_loops_run_datagrams:
  assumes "datagram_run up szx session ds t g = (rs, calls, t')"
  shows "(brings up szx session reads ds t g (se_last s) \<and> se_conn s = g \<longrightarrow>
      se_sent (snd (serve_datagrams up szx session reads s)) = se_sent s @ written rs
      \<and> se_calls (snd (serve_datagrams up szx session reads s)) = se_calls s @ calls)
    \<and> (mb_brings up szx session idle es ds t g (se_last (ms_dtls m)) \<and> se_conn (ms_dtls m) = g
        \<and> ms_dev m = session \<and> m' = snd (mb_serve up szx show_addr cid_active idle es m) \<longrightarrow>
      map snd (ms_out m') = map snd (ms_out m) @ written rs
      \<and> se_calls (ms_dtls m') = se_calls (ms_dtls m) @ calls
      \<and> (\<exists>p. ms_dev m' = session\<lparr>ds_peer := p\<rparr>))" (is "?openssl \<and> ?mbedtls")
proof
  show ?openssl using serve_brings assms by blast
  have "same_device (ms_dev m) m" unfolding same_device_def by (rule exI [of _ "ds_peer (ms_dev m)"]) simp
  then show ?mbedtls using mb_serve_brings assms unfolding same_device_def by blast
qed

theorem session_loops_run_datagrams_witness:
  "\<exists>rs calls t'. datagram_run (\<lambda>_. Inl []) 6 demo_device [demo_block 5 8 [1, 2] 0] []
       \<lparr>gc_dedup = new_dedup_cache, gc_next_mid = 0\<rparr> = (rs, calls, t')
     \<and> se_sent (snd (serve_datagrams (\<lambda>_. Inl []) 6 demo_device
         [ReadWants 4, ReadData \<lparr>sn_now = 5, sn_times = dv_times (demo_block 5 8 [1, 2] 0), sn_table = [],
            sn_write_ok = True\<rparr> (datagram_encode (dv_datagram (demo_block 5 8 [1, 2] 0)))]
         (new_dtls_session None 0))) = written rs"
proof -
  let ?d = "demo_block 5 8 [1, 2] 0" and ?s = "new_dtls_session None 0"
  let ?reads = "[ReadWants 4, ReadData \<lparr>sn_now = 5, sn_times = dv_times ?d, sn_table = [], sn_write_ok = True\<rparr>
    (datagram_encode (dv_datagram ?d))]"
  have s: "se_conn ?s = \<lparr>gc_dedup = new_dedup_cache, gc_next_mid = 0\<rparr>" "se_last ?s = 0" "se_sent ?s = []"
    by (simp_all add: new_dtls_session_def rand_u16_def u16_from_be_bytes_def)
  obtain rs calls t' where r: "datagram_run (\<lambda>_. Inl []) 6 demo_device [?d] [] (se_conn ?s) = (rs, calls, t')"
    by (metis prod_cases3)
  have "run_block1 (dv_others ?d) [] = ([], [])" by (simp add: demo_block_def sweep_block1_def hm_defs)
  then have "brings (\<lambda>_. Inl []) 6 demo_device ?reads [?d] [] (se_conn ?s) (se_last ?s)"
    by (simp add: env_of_def s(2) IDLE_DEADLINE_def from_secs_def split: prod.split)
  with session_loops_run_datagrams [OF r, of ?reads ?s] r s show ?thesis by auto
qed

end
