(* ===== verification/Coap_Tcp.thy ===== *)
theory Coap_Tcp
  imports Coap_Udp
begin

text \<open>
  \<open>loft/src/coap/tcp.rs\<close>: RFC 8323 length-prefixed frames and the incremental \<open>FrameDecoder\<close>.
  The locale \<open>frame_stream\<close> states what an incremental decoder owes its reader (a decision about
  a prefix is never revised by later bytes, and a decoded frame consumes input) and derives that
  the messages a reader sees do not depend on how the stream was cut into reads; it is
  interpreted on the decoder of the code.
\<close>

definition MAX_FRAME_BODY :: nat where "MAX_FRAME_BODY = 256 * 1024"

definition frame_length :: "nat \<Rightarrow> u8 \<times> bytes" where
  "frame_length n =
     (if n < 13 then (of_nat n, [])
      else if n < 269 then (13, [of_nat (n - 13)])
      else if n < 65805 then (14, u16_to_be_bytes (of_nat (n - 269)))
      else (15, u32_to_be_bytes (of_nat (n - 65805))))"

definition encode_frame :: "message \<Rightarrow> bytes" where
  "encode_frame m =
     (let body = encode_options_and_payload m;
          tkl = min (length (msg_token m)) MAX_TOKEN_LEN;
          (len_nibble, ext) = frame_length (length body) in
      (push_bit 4 len_nibble OR of_nat tkl) # ext @ [msg_code m] @ take tkl (msg_token m) @ body)"

text \<open>The body length and the number of extension bytes; None when they have not all arrived.\<close>

definition read_frame_length :: "u8 \<Rightarrow> bytes \<Rightarrow> (nat \<times> nat) option" where
  "read_frame_length len_nibble rest =
     (if len_nibble \<le> 12 then Some (unat len_nibble, 0)
      else if len_nibble = 13 then
        (case rest of ext # _ \<Rightarrow> Some (13 + unat ext, 1) | _ \<Rightarrow> None)
      else if len_nibble = 14 then
        (case rest of a # b # _ \<Rightarrow> Some (269 + unat (u16_from_be_bytes a b), 2) | _ \<Rightarrow> None)
      else
        (case rest of a # b # c # d # _ \<Rightarrow> Some (65805 + unat (u32_from_be_bytes a b c d), 4)
         | _ \<Rightarrow> None))"

text \<open>\<open>Inr None\<close>: more bytes are needed; \<open>Inr (Some (m, n))\<close>: one frame, \<open>n\<close> bytes long.\<close>

definition try_decode_frame :: "bytes \<Rightarrow> decode_error + (message \<times> nat) option" where
  "try_decode_frame buf = (case buf of
     [] \<Rightarrow> Inr None
   | first # rest \<Rightarrow>
       let len_nibble = drop_bit 4 first; tkl = unat (first AND 0x0F) in
       if tkl > MAX_TOKEN_LEN then Inl BadTokenLength
       else case read_frame_length len_nibble rest of
         None \<Rightarrow> Inr None
       | Some (body_len, ext_bytes) \<Rightarrow>
           if body_len > MAX_FRAME_BODY then Inl Truncated
           else let total = 1 + ext_bytes + 1 + tkl + body_len in
             if length buf < total then Inr None
             else
               let code = buf ! (1 + ext_bytes); token_start = 1 + ext_bytes + 1;
                   token = take tkl (drop token_start buf) in
               (case decode_options_and_payload (take body_len (drop (token_start + tkl) buf))
                       (default_message\<lparr>msg_code := code, msg_token := token\<rparr>) of
                  Inl e \<Rightarrow> Inl e
                | Inr m \<Rightarrow> Inr (Some (m, total))))"

lemma try_decode_frame_consumes:
  "try_decode_frame buf = Inr (Some (m, n)) \<Longrightarrow> 0 < n \<and> n \<le> length buf"
  by (auto simp: try_decode_frame_def Let_def split: list.splits if_splits option.splits sum.splits)

section \<open>The incremental decoder\<close>

record frame_decoder =
  fd_buf :: bytes

definition fd_extend :: "bytes \<Rightarrow> frame_decoder \<Rightarrow> frame_decoder" where
  "fd_extend bs d = d\<lparr>fd_buf := fd_buf d @ bs\<rparr>"

definition next_frame :: "frame_decoder \<Rightarrow> (decode_error + message option) \<times> frame_decoder" where
  "next_frame d = (case try_decode_frame (fd_buf d) of
     Inl e \<Rightarrow> (Inl e, d)
   | Inr None \<Rightarrow> (Inr None, d)
   | Inr (Some (m, consumed)) \<Rightarrow> (Inr (Some m), d\<lparr>fd_buf := drop consumed (fd_buf d)\<rparr>))"

text \<open>
  The reader's inner loop, \<open>while let Some(msg) = decoder.next_frame()?\<close>: the messages it sees,
  the error that ends it if any, and the decoder it leaves.
\<close>

function drain_frames :: "frame_decoder \<Rightarrow> message list \<times> decode_error option \<times> frame_decoder" where
  "drain_frames d = (case next_frame d of
     (Inl e, d') \<Rightarrow> ([], Some e, d')
   | (Inr None, d') \<Rightarrow> ([], None, d')
   | (Inr (Some m), d') \<Rightarrow>
       (case drain_frames d' of (ms, e, d'') \<Rightarrow> (m # ms, e, d'')))"
  by auto
termination
proof (relation "measure (\<lambda>d. length (fd_buf d))", simp)
  fix d r d' ro m
  assume "(r, d') = next_frame d" and "r = Inr ro" and "ro = Some m"
  then show "(d', d) \<in> measure (\<lambda>d. length (fd_buf d))"
    using try_decode_frame_consumes [of "fd_buf d"]
    by (fastforce simp: next_frame_def split: sum.splits option.splits)
qed

declare drain_frames.simps [simp del]

text \<open>The outer loop over the chunks that reads return, until the first error.\<close>

fun read_chunks :: "frame_decoder \<Rightarrow> bytes list \<Rightarrow> message list \<times> decode_error option \<times> frame_decoder" where
  "read_chunks d [] = ([], None, d)"
| "read_chunks d (c # cs) = (case drain_frames (fd_extend c d) of
     (ms, Some e, d') \<Rightarrow> (ms, Some e, d')
   | (ms, None, d') \<Rightarrow> (case read_chunks d' cs of (ms', e, d'') \<Rightarrow> (ms @ ms', e, d'')))"

section \<open>Reading a stream through an incremental decoder\<close>

locale frame_stream =
  fixes next_item :: "'d \<Rightarrow> ('e + 'm option) \<times> 'd"
    and extend :: "'b list \<Rightarrow> 'd \<Rightarrow> 'd"
    and pending :: "'d \<Rightarrow> nat"
    and drain :: "'d \<Rightarrow> 'm list \<times> 'e option \<times> 'd"
    and feed :: "'d \<Rightarrow> 'b list list \<Rightarrow> 'm list \<times> 'e option \<times> 'd"
  assumes extend_extend: "extend b (extend a d) = extend (a @ b) d"
    and extend_Nil: "extend [] d = d"
    and decided: "next_item d = (r, d') \<Longrightarrow> r \<noteq> Inr None \<Longrightarrow>
      next_item (extend b d) = (r, extend b d')"
    and undecided: "next_item d = (Inr None, d') \<Longrightarrow> d' = d"
    and failed: "next_item d = (Inl x, d') \<Longrightarrow> d' = d"
    and consumes: "next_item d = (Inr (Some m), d') \<Longrightarrow> pending d' < pending d"
    and drain_eq: "drain d = (case next_item d of
        (Inl e, d') \<Rightarrow> ([], Some e, d')
      | (Inr None, d') \<Rightarrow> ([], None, d')
      | (Inr (Some m), d') \<Rightarrow> (case drain d' of (ms, e, d'') \<Rightarrow> (m # ms, e, d'')))"
    and feed_Nil: "feed d [] = ([], None, d)"
    and feed_Cons: "feed d (c # cs) = (case drain (extend c d) of
        (ms, Some e, d') \<Rightarrow> (ms, Some e, d')
      | (ms, None, d') \<Rightarrow> (case feed d' cs of (ms', e, d'') \<Rightarrow> (ms @ ms', e, d'')))"
begin

lemma drain_extend:
  "drain d = (ms, e, d') \<Longrightarrow> drain (extend b d) = (case e of
     Some x \<Rightarrow> (ms, Some x, extend b d')
   | None \<Rightarrow> (case drain (extend b d') of (ms', e', d'') \<Rightarrow> (ms @ ms', e', d'')))"
proof (induction d arbitrary: ms e d' rule: measure_induct_rule [of pending])
  case (less d)
  obtain r d1 where n: "next_item d = (r, d1)" by fastforce
  consider (err) x where "r = Inl x" | (stop) "r = Inr None" | (frame) m where "r = Inr (Some m)"
    by (metis obj_sumE option.exhaust)
  then show ?case
  proof cases
    case err
    with n less.prems have "ms = []" "e = Some x" "d' = d1" by (simp_all add: drain_eq [of d])
    moreover have "next_item (extend b d) = (Inl x, extend b d1)"
      using decided [OF n] err by simp
    ultimately show ?thesis by (simp add: drain_eq [of "extend b d"])
  next
    case stop
    with n less.prems have "ms = []" "e = None" "d' = d"
      using undecided by (simp_all add: drain_eq [of d])
    then show ?thesis by simp
  next
    case frame
    obtain ms2 where d2: "drain d1 = (ms2, e, d')" "ms = m # ms2"
      using n less.prems frame by (auto simp: drain_eq [of d] split: prod.splits)
    have "next_item (extend b d) = (Inr (Some m), extend b d1)"
      using decided [OF n] frame by simp
    moreover have "pending d1 < pending d" using consumes n frame by simp
    ultimately show ?thesis
      using less.IH [OF _ d2(1)] d2(2)
      by (simp add: drain_eq [of "extend b d"] split: option.splits prod.splits)
  qed
qed

lemma drain_idle: "drain d = (ms, None, d') \<Longrightarrow> drain d' = ([], None, d')"
proof (induction d arbitrary: ms rule: measure_induct_rule [of pending])
  case (less d)
  obtain r d1 where n: "next_item d = (r, d1)" by fastforce
  show ?case
  proof (cases r)
    case (Inl x)
    with n less.prems show ?thesis by (simp add: drain_eq [of d])
  next
    case (Inr o')
    show ?thesis
    proof (cases o')
      case None
      with n Inr less.prems have "d' = d" using undecided by (simp add: drain_eq [of d])
      with less.prems n None Inr show ?thesis by (simp add: drain_eq [of d])
    next
      case (Some m)
      then obtain ms2 where "drain d1 = (ms2, None, d')"
        using n less.prems Inr by (auto simp: drain_eq [of d] split: prod.splits)
      then show ?thesis using less.IH consumes n Inr Some by blast
    qed
  qed
qed

text \<open>Cutting a stream into reads changes neither the frames seen nor the error that ends it.\<close>

lemma feed_concat:
  assumes "drain d = ([], None, d)" and "feed d cs = (ms, e, d')"
  shows "\<exists>d''. drain (extend (concat cs) d) = (ms, e, d'') \<and> (e = None \<longrightarrow> d'' = d')"
  using assms
proof (induction cs arbitrary: d ms)
  case Nil
  then show ?case by (simp add: feed_Nil extend_Nil)
next
  case (Cons c cs)
  obtain ms1 e1 d1 where d1: "drain (extend c d) = (ms1, e1, d1)" by (metis prod_cases3)
  note split = drain_extend [OF d1, of "concat cs"]
  show ?case
  proof (cases e1)
    case (Some x)
    with d1 Cons.prems(2) split show ?thesis
      by (auto simp: feed_Cons extend_extend)
  next
    case None
    then obtain ms2 where rest: "feed d1 cs = (ms2, e, d')" "ms = ms1 @ ms2"
      using d1 Cons.prems(2) by (auto simp: feed_Cons split: prod.splits)
    from drain_idle d1 None have "drain d1 = ([], None, d1)" by blast
    from Cons.IH [OF this rest(1)] split None rest(2) show ?thesis
      by (auto simp: extend_extend)
  qed
qed

lemma feed_same_stream:
  assumes "drain d = ([], None, d)" and "concat cs = concat cs'"
  shows "fst (feed d cs) = fst (feed d cs')" and "fst (snd (feed d cs)) = fst (snd (feed d cs'))"
proof -
  obtain ms e d1 where 1: "feed d cs = (ms, e, d1)" by (metis prod_cases3)
  obtain ms' e' d2 where 2: "feed d cs' = (ms', e', d2)" by (metis prod_cases3)
  from feed_concat [OF assms(1) 1] feed_concat [OF assms(1) 2] assms(2)
  have "ms = ms' \<and> e = e'" by auto
  then show "fst (feed d cs) = fst (feed d cs')" "fst (snd (feed d cs)) = fst (snd (feed d cs'))"
    using 1 2 by auto
qed

end

section \<open>The decoder is such a stream\<close>

lemma read_frame_length_append:
  "read_frame_length n rest = Some r \<Longrightarrow> read_frame_length n (rest @ ys) = Some r"
  by (auto simp: read_frame_length_def split: if_splits list.splits)

text \<open>The frame at the head of a buffer, once its lengths are known.\<close>

lemma try_decode_frame_known:
  assumes "buf \<noteq> []" and "unat (hd buf AND 15) \<le> MAX_TOKEN_LEN"
    and "read_frame_length (drop_bit 4 (hd buf)) (tl buf) = Some (bl, eb)"
  shows "try_decode_frame buf =
    (if MAX_FRAME_BODY < bl then Inl Truncated
     else if length buf < 2 + eb + unat (hd buf AND 15) + bl then Inr None
     else case decode_options_and_payload (take bl (drop (2 + eb + unat (hd buf AND 15)) buf))
         (default_message\<lparr>msg_code := buf ! Suc eb,
            msg_token := take (unat (hd buf AND 15)) (drop (2 + eb) buf)\<rparr>) of
       Inl e \<Rightarrow> Inl e
     | Inr m \<Rightarrow> Inr (Some (m, 2 + eb + unat (hd buf AND 15) + bl)))"
  using assms by (cases buf) (simp_all add: try_decode_frame_def Let_def split: sum.split)

lemma try_decode_frame_append:
  assumes "try_decode_frame buf = r" and "r \<noteq> Inr None"
  shows "try_decode_frame (buf @ ys) = r"
proof (cases "buf = [] \<or> unat (hd buf AND 15) > MAX_TOKEN_LEN")
  case True
  with assms show ?thesis by (cases buf) (auto simp: try_decode_frame_def)
next
  case False
  then have ne: "buf \<noteq> []" and tkl: "unat (hd buf AND 15) \<le> MAX_TOKEN_LEN" by auto
  obtain bl eb where p: "read_frame_length (drop_bit 4 (hd buf)) (tl buf) = Some (bl, eb)"
  proof (cases "read_frame_length (drop_bit 4 (hd buf)) (tl buf)")
    case None
    with assms False have False by (cases buf) (auto simp: try_decode_frame_def)
    then show ?thesis ..
  qed auto
  have p': "read_frame_length (drop_bit 4 (hd (buf @ ys))) (tl (buf @ ys)) = Some (bl, eb)"
    using read_frame_length_append [OF p] ne by simp
  note k = try_decode_frame_known [OF ne tkl p]
  have hd: "hd (buf @ ys) = hd buf" using ne by simp
  have ne': "buf @ ys \<noteq> []" and tkl': "unat (hd (buf @ ys) AND 15) \<le> MAX_TOKEN_LEN"
    using ne tkl by auto
  note k' = try_decode_frame_known [OF ne' tkl' p', unfolded hd]
  show ?thesis
  proof (cases "MAX_FRAME_BODY < bl")
    case True
    with k k' assms show ?thesis by simp
  next
    case small: False
    with k assms have "\<not> length buf < 2 + eb + unat (hd buf AND 15) + bl" by auto
    then show ?thesis using k k' small assms by (simp add: nth_append)
  qed
qed

interpretation frames: frame_stream next_frame fd_extend "\<lambda>d. length (fd_buf d)" drain_frames
  read_chunks
proof unfold_locales
  fix d d' :: frame_decoder and r b x m
  show "next_frame d = (r, d') \<Longrightarrow> r \<noteq> Inr None \<Longrightarrow> next_frame (fd_extend b d) = (r, fd_extend b d')"
    using try_decode_frame_append [of "fd_buf d" _ b] try_decode_frame_consumes [of "fd_buf d"]
    by (fastforce simp: next_frame_def fd_extend_def split: sum.splits option.splits)
qed (auto simp: next_frame_def fd_extend_def drain_frames.simps [of d for d]
      split: sum.splits option.splits dest: try_decode_frame_consumes)

section \<open>Frames written by the encoder\<close>

definition frame_ok :: "message \<Rightarrow> bool" where
  "frame_ok m \<longleftrightarrow> wire_ok m \<and> length (encode_options_and_payload m) \<le> MAX_FRAME_BODY"

lemma frame_length_read:
  assumes "frame_length n = (nib, ext)" and "n \<le> MAX_FRAME_BODY"
  shows "nib < 16" and "read_frame_length nib (ext @ rest) = Some (n, length ext)"
proof -
  have u8: "unat (of_nat k :: u8) = k" if "k < 256" for k
    using that by (simp add: unat_of_nat)
  have u16: "unat (of_nat k :: u16) = k" if "k < 65536" for k
    using that by (simp add: unat_of_nat)
  have u32: "unat (of_nat k :: u32) = k" if "k < 4294967296" for k
    using that by (simp add: unat_of_nat)
  consider "n < 13" | "13 \<le> n" "n < 269" | "269 \<le> n" "n < 65805" | "65805 \<le> n" by linarith
  then have "nib < 16 \<and> read_frame_length nib (ext @ rest) = Some (n, length ext)"
  proof cases
    case 1
    then show ?thesis
      using assms(1) u8 [of n]
      by (auto simp: frame_length_def read_frame_length_def word_less_nat_alt word_le_nat_alt)
  next
    case 2
    then show ?thesis
      using assms(1) u8 [of "n - 13"] by (auto simp: frame_length_def read_frame_length_def)
  next
    case 3
    obtain a b where ab: "u16_to_be_bytes (of_nat (n - 269)) = [a, b]"
      "u16_from_be_bytes a b = of_nat (n - 269)" using u16_to_be_bytes_read by blast
    have "nib = 14" "ext = [a, b]"
      using 3 assms(1) ab(1) by (auto simp: frame_length_def simp del: of_nat_diff)
    moreover have "unat (u16_from_be_bytes a b) = n - 269"
      using 3 u16 [of "n - 269"] ab(2) by (simp del: of_nat_diff)
    ultimately show ?thesis using 3 by (simp add: read_frame_length_def)
  next
    case 4
    moreover have "n - 65805 < 4294967296" using assms(2) by (simp add: MAX_FRAME_BODY_def)
    ultimately show ?thesis
      using assms(1) u32 [of "n - 65805"]
      by (auto simp: frame_length_def read_frame_length_def u32_to_be_bytes_def u32_be_roundtrip)
  qed
  then show "nib < 16" and "read_frame_length nib (ext @ rest) = Some (n, length ext)" by auto
qed

lemma try_decode_encode_frame:
  assumes "frame_ok m"
  shows "try_decode_frame (encode_frame m @ ys) = Inr (Some (wire_form m, length (encode_frame m)))"
proof -
  let ?body = "encode_options_and_payload m" and ?tkl = "length (msg_token m)"
  have tkl: "?tkl \<le> MAX_TOKEN_LEN" and enc: "encodable m" and small: "length ?body \<le> MAX_FRAME_BODY"
    using assms by (auto simp: frame_ok_def wire_ok_def)
  obtain nib ext where fl: "frame_length (length ?body) = (nib, ext)" by fastforce
  note rd = frame_length_read [OF fl small]
  have t16: "(of_nat ?tkl :: u8) < 16" and tu: "unat (of_nat ?tkl :: u8) = ?tkl"
    using tkl by (auto simp: word_less_nat_alt unat_of_nat MAX_TOKEN_LEN_def)
  let ?frame = "encode_frame m"
  let ?first = "push_bit 4 nib OR of_nat ?tkl"
  have frame: "?frame = ?first # ext @ [msg_code m] @ msg_token m @ ?body"
    using tkl fl by (simp add: encode_frame_def Let_def min_absorb1)
  note split = nibbles_split [OF rd(1) t16]
  have len: "length ?frame = 2 + length ext + ?tkl + length ?body" by (simp add: frame)
  have drops: "drop (2 + length ext + ?tkl) (?frame @ ys) = ?body @ ys"
    "drop (2 + length ext) (?frame @ ys) = msg_token m @ ?body @ ys"
    "(?frame @ ys) ! Suc (length ext) = msg_code m"
    by (simp_all add: frame nth_append)
  have hd: "hd (?frame @ ys) = ?first"
    and tl: "tl (?frame @ ys) = ext @ [msg_code m] @ msg_token m @ ?body @ ys"
    by (simp_all add: frame)
  let ?base = "default_message\<lparr>msg_code := msg_code m, msg_token := msg_token m\<rparr>"
  have w: "?base\<lparr>msg_options := sort_key fst (msg_options m), msg_payload := msg_payload m\<rparr>
      = wire_form m"
    by (simp add: wire_form_def)
  have body: "decode_options_and_payload ?body ?base = Inr (wire_form m)"
    using decode_encode_message [OF enc, of ?base] unfolding w by (simp add: default_message_def)
  have tk: "unat (hd (?frame @ ys) AND 15) = ?tkl" by (simp only: hd split tu)
  have rl: "read_frame_length (drop_bit 4 (hd (?frame @ ys))) (tl (?frame @ ys))
      = Some (length ?body, length ext)"
    by (simp only: hd split tl rd)
  have "?frame @ ys \<noteq> []" by (simp add: frame)
  from try_decode_frame_known [OF this _ rl, unfolded tk, OF tkl]
  show ?thesis using small len drops body by simp
qed

lemma fd_empty_idle: "drain_frames \<lparr>fd_buf = []\<rparr> = ([], None, \<lparr>fd_buf = []\<rparr>)"
  by (simp add: drain_frames.simps next_frame_def try_decode_frame_def)

lemma drain_encoded:
  assumes "\<forall>m \<in> set ms. frame_ok m"
  shows "drain_frames \<lparr>fd_buf = concat (map encode_frame ms)\<rparr>
    = (map wire_form ms, None, \<lparr>fd_buf = []\<rparr>)"
  using assms
proof (induction ms)
  case Nil
  then show ?case by (simp add: fd_empty_idle)
next
  case (Cons m ms)
  have "next_frame \<lparr>fd_buf = encode_frame m @ concat (map encode_frame ms)\<rparr>
      = (Inr (Some (wire_form m)), \<lparr>fd_buf = concat (map encode_frame ms)\<rparr>)"
    using Cons.prems try_decode_encode_frame by (simp add: next_frame_def)
  with Cons show ?case by (simp add: drain_frames.simps [of "\<lparr>fd_buf = encode_frame m @ _\<rparr>"])
qed

lemma read_frame_length_ext: "read_frame_length n rest = Some (bl, eb) \<Longrightarrow> eb \<le> 4"
  by (auto simp: read_frame_length_def split: if_splits list.splits)

lemma read_frame_length_None: "read_frame_length n rest = None \<Longrightarrow> length rest < 4"
  by (auto simp: read_frame_length_def split: if_splits list.splits)

lemma undecided_buffer_bound:
  assumes "try_decode_frame buf = Inr None"
  shows "length buf < MAX_FRAME_BODY + 14"
proof (cases buf)
  case (Cons first rest)
  show ?thesis
  proof (cases "read_frame_length (drop_bit 4 first) rest")
    case None
    from read_frame_length_None [OF this] Cons show ?thesis by (simp add: MAX_FRAME_BODY_def)
  next
    case (Some p)
    obtain bl eb where p: "p = (bl, eb)" by fastforce
    from read_frame_length_ext Some p have "eb \<le> 4" by blast
    with assms Cons Some p show ?thesis
      by (auto simp: try_decode_frame_def Let_def MAX_TOKEN_LEN_def split: if_splits sum.splits)
  qed
qed (simp add: MAX_FRAME_BODY_def)

lemma drain_leaves_undecided:
  "drain_frames d = (ms, None, d') \<Longrightarrow> try_decode_frame (fd_buf d') = Inr None"
  using frames.drain_idle [of d ms d']
  by (auto simp: drain_frames.simps [of d'] next_frame_def
      split: sum.splits option.splits prod.splits)

section \<open>Properties\<close>

text \<open>A frame written by \<open>encode_frame\<close> decodes to its message and consumes exactly its own
  bytes, whatever follows it in the stream, for every body length up to the 256 KiB cap (all four
  length encodings) and every token of at most eight bytes.\<close>

theorem frame_roundtrip:
  assumes "wire_ok m" and "length (encode_options_and_payload m) \<le> MAX_FRAME_BODY"
  shows "try_decode_frame (encode_frame m @ ys) = Inr (Some (wire_form m, length (encode_frame m)))"
  using assms by (intro try_decode_encode_frame) (simp add: frame_ok_def)

theorem frame_roundtrip_witness:
  "try_decode_frame (encode_frame \<lparr>msg_code = GET, msg_token = [1], msg_options = [(11, [115])],
       msg_payload = []\<rparr> @ [9, 9])
   = Inr (Some (\<lparr>msg_code = GET, msg_token = [1], msg_options = [(11, [115])], msg_payload = []\<rparr>, 5))"
  using frame_roundtrip [of "\<lparr>msg_code = GET, msg_token = [1], msg_options = [(11, [115])],
       msg_payload = []\<rparr>" "[9, 9]"]
  by (simp add: wire_ok_def encodable_def wire_form_def MAX_TOKEN_LEN_def MAX_NIBBLE_VALUE_def
      MAX_FRAME_BODY_def encode_options_and_payload_def nibble_ext_def encode_frame_def
      frame_length_def Let_def)

text \<open>The frames a connection sees, and the framing error that ends it, depend only on the bytes
  of the stream, not on how reads cut it: any two divisions of the same bytes give the same
  messages and the same error.\<close>

theorem frames_independent_of_chunking:
  assumes "concat cs = concat cs'"
  shows "fst (read_chunks \<lparr>fd_buf = []\<rparr> cs) = fst (read_chunks \<lparr>fd_buf = []\<rparr> cs')
    \<and> fst (snd (read_chunks \<lparr>fd_buf = []\<rparr> cs)) = fst (snd (read_chunks \<lparr>fd_buf = []\<rparr> cs'))"
  using frames.feed_same_stream [OF fd_empty_idle assms] by simp

theorem frames_independent_of_chunking_witness:
  "fst (snd (read_chunks \<lparr>fd_buf = []\<rparr> [[0x01], [0x01, 7, 0x09]])) = Some BadTokenLength"
proof -
  have "fst (snd (read_chunks \<lparr>fd_buf = []\<rparr> [[0x01, 0x01, 7, 0x09]])) = Some BadTokenLength"
    by (simp add: drain_frames.simps next_frame_def try_decode_frame_def fd_extend_def Let_def
        read_frame_length_def MAX_TOKEN_LEN_def MAX_FRAME_BODY_def decode_options_and_payload_def)
  then show ?thesis
    using frames_independent_of_chunking [of "[[0x01], [0x01, 7, 0x09]]" "[[0x01, 0x01, 7, 0x09]]"]
    by simp
qed

text \<open>Pipelined messages all arrive, in order, with nothing left over, however the stream of
  their frames is cut into reads.\<close>

theorem pipelined_frames_delivered:
  assumes "\<forall>m \<in> set ms. frame_ok m" and "concat cs = concat (map encode_frame ms)"
  shows "read_chunks \<lparr>fd_buf = []\<rparr> cs = (map wire_form ms, None, \<lparr>fd_buf = []\<rparr>)"
proof -
  obtain ms' e d where r: "read_chunks \<lparr>fd_buf = []\<rparr> cs = (ms', e, d)" by (metis prod_cases3)
  from frames.feed_concat [OF fd_empty_idle r] assms(2) drain_encoded [OF assms(1)]
  show ?thesis by (auto simp: r fd_extend_def)
qed

theorem pipelined_frames_delivered_witness:
  "read_chunks \<lparr>fd_buf = []\<rparr>
     (map (\<lambda>b. [b]) (encode_frame (default_message\<lparr>msg_code := CSM\<rparr>)
        @ encode_frame (default_message\<lparr>msg_code := PING\<rparr>)))
   = ([default_message\<lparr>msg_code := CSM\<rparr>, default_message\<lparr>msg_code := PING\<rparr>], None, \<lparr>fd_buf = []\<rparr>)"
proof -
  have ok: "frame_ok (default_message\<lparr>msg_code := c\<rparr>)" for c
    by (simp add: frame_ok_def wire_ok_def encodable_def default_message_def
        encode_options_and_payload_def)
  have c: "concat (map (\<lambda>b. [b]) xs) = xs" for xs :: bytes by (induction xs) auto
  show ?thesis
    using pipelined_frames_delivered [of "[default_message\<lparr>msg_code := CSM\<rparr>,
        default_message\<lparr>msg_code := PING\<rparr>]" "map (\<lambda>b. [b]) (encode_frame (default_message\<lparr>msg_code
          := CSM\<rparr>) @ encode_frame (default_message\<lparr>msg_code := PING\<rparr>))"] ok
    by (simp add: c wire_form_def default_message_def)
qed

text \<open>One connection cannot make the gateway buffer without limit: a frame declaring a body
  over the cap is rejected as soon as its length has arrived, so what stays buffered between
  reads is below the cap plus the longest header.\<close>

theorem frame_buffer_bounded:
  assumes "read_chunks \<lparr>fd_buf = []\<rparr> cs = (ms, None, d)"
  shows "length (fd_buf d) < MAX_FRAME_BODY + 14
    \<and> (\<forall>first rest bl eb. unat (first AND 15) \<le> MAX_TOKEN_LEN
        \<and> read_frame_length (drop_bit 4 first) rest = Some (bl, eb) \<and> MAX_FRAME_BODY < bl
        \<longrightarrow> try_decode_frame (first # rest) = Inl Truncated)"
proof (intro conjI allI impI)
  from frames.feed_concat [OF fd_empty_idle assms]
  have "drain_frames (fd_extend (concat cs) \<lparr>fd_buf = []\<rparr>) = (ms, None, d)" by auto
  then show "length (fd_buf d) < MAX_FRAME_BODY + 14"
    by (intro undecided_buffer_bound drain_leaves_undecided)
qed (auto simp: try_decode_frame_def)

theorem frame_buffer_bounded_witness:
  "length (fd_buf (snd (snd (read_chunks \<lparr>fd_buf = []\<rparr> [[0xD0]])))) < MAX_FRAME_BODY + 14
   \<and> try_decode_frame [0xF0, 0xFF, 0xFF, 0xFF, 0xFF] = Inl Truncated"
proof -
  have r: "read_chunks \<lparr>fd_buf = []\<rparr> [[0xD0]] = ([], None, \<lparr>fd_buf = [0xD0]\<rparr>)"
    by (simp add: drain_frames.simps next_frame_def try_decode_frame_def fd_extend_def Let_def
        read_frame_length_def MAX_TOKEN_LEN_def)
  have l: "read_frame_length (drop_bit 4 0xF0) [0xFF, 0xFF, 0xFF, 0xFF] = Some (65805 + 4294967295, 4)"
    by (simp add: read_frame_length_def u32_from_be_bytes_def)
  show ?thesis
    using frame_buffer_bounded [OF r] r l by (auto simp: MAX_TOKEN_LEN_def MAX_FRAME_BODY_def)
qed

end
