(* ===== verification/Config.thy ===== *)
theory Config
  imports Coap_Block Psk
begin

text \<open>
  \<open>loft/src/config.rs\<close>: configuration from the environment. The environment is a function (the value
  of a variable when it is set and valid Unicode), reading the credential file a parameter. The
  texts of the error messages are constructors carrying what they print. Lemmas: exactly which
  values each parser accepts, and what a configuration that loads guarantees.
\<close>

datatype dtls_stack = Openssl | Mbedtls

record config =
  cf_udp_listen :: bytes
  cf_tcp_listen :: bytes
  cf_dovecote_url :: bytes
  cf_service_secret :: bytes
  cf_psk_cache_ttl :: duration
  cf_dtls_stack :: dtls_stack
  cf_dtls_mbed_canary_addr :: "bytes option"
  cf_dtls_cid_idle :: duration
  cf_handshake_deadline :: duration
  cf_udp_max_block_szx :: u8

datatype config_error =
    BadDtlsStack bytes
  | BadHandshakeDeadline bytes
  | BadUdpMaxBlock bytes
  | CredentialUnreadable bytes bytes
  | SecretNotSet
  | SecretEmpty

definition DEFAULT_CID_IDLE :: duration where "DEFAULT_CID_IDLE = from_secs 21600"
definition DEFAULT_HANDSHAKE_DEADLINE_SECS :: nat where "DEFAULT_HANDSHAKE_DEADLINE_SECS = 30"
definition MAX_HANDSHAKE_DEADLINE_SECS :: nat where "MAX_HANDSHAKE_DEADLINE_SECS = 300"

text \<open>The texts the errors are reported as; \<open>debug\<close> is \<open>{:?}\<close> of a string.\<close>

fun config_error_text :: "(bytes \<Rightarrow> bytes) \<Rightarrow> config_error \<Rightarrow> bytes" where
  "config_error_text debug (BadDtlsStack v) =
     ascii ''LOFT_DTLS_STACK must be \"openssl\" or \"mbedtls\", got '' @ debug v"
| "config_error_text debug (BadHandshakeDeadline v) =
     ascii ''LOFT_HANDSHAKE_DEADLINE_SECS must be 1..='' @ show_unsigned MAX_HANDSHAKE_DEADLINE_SECS
       @ ascii '' seconds, got '' @ debug v"
| "config_error_text debug (BadUdpMaxBlock v) =
     ascii ''LOFT_UDP_MAX_BLOCK_BYTES must be a CoAP block size (16, 32, 64, 128, 256, 512, 1024), got ''
       @ debug v"
| "config_error_text debug (CredentialUnreadable path e) =
     ascii ''failed to read credential COAP_SERVICE_SECRET from '' @ path @ ascii '': '' @ e"
| "config_error_text debug SecretNotSet =
     ascii ''COAP_SERVICE_SECRET is not set (shared secret with dovecote)''"
| "config_error_text debug SecretEmpty = ascii ''COAP_SERVICE_SECRET is empty''"

definition parse_dtls_stack :: "bytes option \<Rightarrow> config_error + dtls_stack" where
  "parse_dtls_stack v = (case v of
     None \<Rightarrow> Inr Openssl
   | Some s \<Rightarrow>
       if s = ascii ''openssl'' then Inr Openssl
       else if s = ascii ''mbedtls'' then Inr Mbedtls
       else Inl (BadDtlsStack s))"

definition parse_handshake_deadline :: "bytes option \<Rightarrow> config_error + duration" where
  "parse_handshake_deadline v = (case v of
     None \<Rightarrow> Inr (from_secs DEFAULT_HANDSHAKE_DEADLINE_SECS)
   | Some raw \<Rightarrow> (case parse_u64 (trim raw) of
       Some secs \<Rightarrow>
         if 1 \<le> secs \<and> secs \<le> MAX_HANDSHAKE_DEADLINE_SECS then Inr (from_secs secs)
         else Inl (BadHandshakeDeadline raw)
     | None \<Rightarrow> Inl (BadHandshakeDeadline raw)))"

text \<open>\<open>(0..=MAX_SZX).find(...)\<close>.\<close>

definition szx_for_bytes :: "nat \<Rightarrow> u8 option" where
  "szx_for_bytes n = List.find (\<lambda>szx. size_for szx = n) (map of_nat [0..<unat MAX_SZX + 1])"

definition parse_udp_max_block :: "bytes option \<Rightarrow> config_error + u8" where
  "parse_udp_max_block v = (case v of
     None \<Rightarrow> Inr MAX_SZX
   | Some raw \<Rightarrow> (case Option.bind (parse_u64 (trim raw)) szx_for_bytes of
       Some szx \<Rightarrow> Inr szx
     | None \<Rightarrow> Inl (BadUdpMaxBlock raw)))"

section \<open>The service secret\<close>

datatype file_read = Contents bytes | FileNotFound | ReadError bytes

definition path_join :: "bytes \<Rightarrow> bytes \<Rightarrow> bytes" where
  "path_join dir name = (if dir = [] \<or> last dir = 47 then dir @ name else dir @ 47 # name)"

definition resolve_service_secret ::
  "(bytes \<Rightarrow> file_read) \<Rightarrow> bytes option \<Rightarrow> bytes option \<Rightarrow> config_error + bytes" where
  "resolve_service_secret read_to_string credentials_dir env_secret =
     (let from_env = (case env_secret of Some s \<Rightarrow> Inr s | None \<Rightarrow> Inl SecretNotSet) in
      case credentials_dir of
        None \<Rightarrow> from_env
      | Some dir \<Rightarrow>
          let path = path_join dir (ascii ''COAP_SERVICE_SECRET'') in
          (case read_to_string path of
             Contents c \<Rightarrow> Inr (trim_end_matches 10 c)
           | FileNotFound \<Rightarrow> from_env
           | ReadError e \<Rightarrow> Inl (CredentialUnreadable path e)))"

section \<open>The configuration\<close>

definition env_or :: "(bytes \<Rightarrow> bytes option) \<Rightarrow> string \<Rightarrow> string \<Rightarrow> bytes" where
  "env_or env key dflt = (case env (ascii key) of Some v \<Rightarrow> v | None \<Rightarrow> ascii dflt)"

text \<open>An optional number of seconds that falls back when absent or malformed.\<close>

definition env_secs :: "(bytes \<Rightarrow> bytes option) \<Rightarrow> string \<Rightarrow> duration \<Rightarrow> duration" where
  "env_secs env key dflt = (case Option.bind (env (ascii key)) parse_u64 of
     Some s \<Rightarrow> from_secs s | None \<Rightarrow> dflt)"

definition from_env ::
  "(bytes \<Rightarrow> file_read) \<Rightarrow> (bytes \<Rightarrow> bytes option) \<Rightarrow> config_error + config" where
  "from_env read_to_string env =
     (case resolve_service_secret read_to_string (env (ascii ''CREDENTIALS_DIRECTORY''))
             (env (ascii ''COAP_SERVICE_SECRET'')) of
        Inl e \<Rightarrow> Inl e
      | Inr secret \<Rightarrow>
          if trim secret = [] then Inl SecretEmpty
          else case parse_dtls_stack (env (ascii ''LOFT_DTLS_STACK'')) of
            Inl e \<Rightarrow> Inl e
          | Inr stack \<Rightarrow>
              (case parse_handshake_deadline (env (ascii ''LOFT_HANDSHAKE_DEADLINE_SECS'')) of
                 Inl e \<Rightarrow> Inl e
               | Inr deadline \<Rightarrow>
                   (case parse_udp_max_block (env (ascii ''LOFT_UDP_MAX_BLOCK_BYTES'')) of
                      Inl e \<Rightarrow> Inl e
                    | Inr szx \<Rightarrow> Inr
                       \<lparr>cf_udp_listen = env_or env ''LOFT_UDP_LISTEN'' ''0.0.0.0:5684'',
                        cf_tcp_listen = env_or env ''LOFT_TCP_LISTEN'' ''0.0.0.0:5684'',
                        cf_dovecote_url = trim_end_matches 47
                          (env_or env ''LOFT_DOVECOTE_URL'' ''https://api.pidgeiot.com''),
                        cf_service_secret = secret,
                        cf_psk_cache_ttl = env_secs env ''LOFT_PSK_TTL_SECS'' DEFAULT_POSITIVE_TTL,
                        cf_dtls_stack = stack,
                        cf_dtls_mbed_canary_addr =
                          (case env (ascii ''LOFT_DTLS_MBED_CANARY_ADDR'') of
                             Some v \<Rightarrow> if trim v = [] then None else Some v
                           | None \<Rightarrow> None),
                        cf_dtls_cid_idle = env_secs env ''LOFT_DTLS_CID_IDLE_SECS'' DEFAULT_CID_IDLE,
                        cf_handshake_deadline = deadline,
                        cf_udp_max_block_szx = szx\<rparr>)))"

section \<open>Block sizes\<close>

lemma szx_range: "map of_nat [0..<unat MAX_SZX + 1] = [0, 1, 2, 3, 4, 5, 6 :: u8]"
  by (simp add: MAX_SZX_def upt_rec)

lemma szx_for_bytes_Some: "szx_for_bytes n = Some szx \<longleftrightarrow> szx \<le> MAX_SZX \<and> size_for szx = n"
proof
  assume "szx_for_bytes n = Some szx"
  then have "szx \<in> set [0, 1, 2, 3, 4, 5, 6]" "size_for szx = n"
    unfolding szx_for_bytes_def szx_range by (auto simp only: find_Some_iff nth_mem)
  then show "szx \<le> MAX_SZX \<and> size_for szx = n" by (auto simp: MAX_SZX_def)
next
  assume a: "szx \<le> MAX_SZX \<and> size_for szx = n"
  then have "unat szx \<le> 6" by (simp add: MAX_SZX_def word_le_nat_alt)
  then have "unat szx \<in> {0, 1, 2, 3, 4, 5, 6}" by auto
  then have "szx \<in> {0, 1, 2, 3, 4, 5, 6}" by (auto simp: word_unat_eq_iff)
  then show "szx_for_bytes n = Some szx"
    unfolding szx_for_bytes_def szx_range using a by (auto simp: size_for_def)
qed

lemma trim_end_last: "trim_end_matches c xs = [] \<or> last (trim_end_matches c xs) \<noteq> c"
proof -
  have "dropWhile (\<lambda>b. b = c) ys = [] \<or> hd (dropWhile (\<lambda>b. b = c) ys) \<noteq> c" for ys :: bytes
    using hd_dropWhile [of "\<lambda>b. b = c" ys] by auto
  from this [of "rev xs"] show ?thesis
    unfolding trim_end_matches_def by (metis last_rev rev_is_Nil_conv)
qed

lemma from_env_parts:
  assumes "from_env read_to_string env = Inr cf"
  shows "trim (cf_service_secret cf) \<noteq> []"
    and "resolve_service_secret read_to_string (env (ascii ''CREDENTIALS_DIRECTORY''))
      (env (ascii ''COAP_SERVICE_SECRET'')) = Inr (cf_service_secret cf)"
    and "parse_dtls_stack (env (ascii ''LOFT_DTLS_STACK'')) = Inr (cf_dtls_stack cf)"
    and "parse_handshake_deadline (env (ascii ''LOFT_HANDSHAKE_DEADLINE_SECS''))
      = Inr (cf_handshake_deadline cf)"
    and "parse_udp_max_block (env (ascii ''LOFT_UDP_MAX_BLOCK_BYTES''))
      = Inr (cf_udp_max_block_szx cf)"
    and "cf_dovecote_url cf = [] \<or> last (cf_dovecote_url cf) \<noteq> 47"
  using assms trim_end_last [of 47 "env_or env ''LOFT_DOVECOTE_URL'' ''https://api.pidgeiot.com''"]
  by (auto simp: from_env_def simp del: ascii_Cons split: sum.splits if_splits)

lemma deadline_range: "parse_handshake_deadline v = Inr d \<Longrightarrow> from_secs 1 \<le> d \<and> d \<le> from_secs 300"
  by (auto simp: parse_handshake_deadline_def from_secs_def DEFAULT_HANDSHAKE_DEADLINE_SECS_def
      MAX_HANDSHAKE_DEADLINE_SECS_def split: option.splits if_splits)

lemma udp_block_range: "parse_udp_max_block v = Inr szx \<Longrightarrow> szx \<le> MAX_SZX"
  by (auto simp: parse_udp_max_block_def bind_eq_Some_conv szx_for_bytes_Some
      split: option.splits)

section \<open>Properties\<close>

text \<open>A configuration that loads is usable: its secret is not blank and comes from the credential
  file when there is one, its handshake deadline lies between one second and five minutes, its
  UDP block ceiling is a legal block size, and its base URL has no trailing slash.\<close>

theorem loaded_config_sound:
  assumes "from_env read_to_string env = Inr cf"
  shows "trim (cf_service_secret cf) \<noteq> []
    \<and> from_secs 1 \<le> cf_handshake_deadline cf \<and> cf_handshake_deadline cf \<le> from_secs 300
    \<and> 16 \<le> size_for (cf_udp_max_block_szx cf) \<and> size_for (cf_udp_max_block_szx cf) \<le> 1024
    \<and> (cf_dovecote_url cf = [] \<or> last (cf_dovecote_url cf) \<noteq> 47)
    \<and> (\<forall>dir c. env (ascii ''CREDENTIALS_DIRECTORY'') = Some dir
        \<and> read_to_string (path_join dir (ascii ''COAP_SERVICE_SECRET'')) = Contents c
        \<longrightarrow> cf_service_secret cf = trim_end_matches 10 c)"
  using from_env_parts [OF assms] deadline_range udp_block_range size_for_le
  by (auto simp: resolve_service_secret_def Let_def simp del: ascii_Cons)

theorem loaded_config_sound_witness:
  "\<exists>cf. from_env (\<lambda>_. Contents [115, 10]) (\<lambda>k. if k = ascii ''CREDENTIALS_DIRECTORY'' then Some [47, 99]
       else None) = Inr cf \<and> cf_service_secret cf = [115]
     \<and> size_for (cf_udp_max_block_szx cf) \<le> 1024"
proof -
  let ?env = "\<lambda>k. if k = ascii ''CREDENTIALS_DIRECTORY'' then Some [47, 99] else None"
  have t: "trim [115] \<noteq> []"
    by (subst trim_plain) (auto simp: whitespace_def)
  have "resolve_service_secret (\<lambda>_. Contents [115, 10]) (Some [47, 99]) None = Inr [115]"
    by (simp add: resolve_service_secret_def Let_def trim_end_matches_def del: ascii_Cons)
  then obtain cf where cf: "from_env (\<lambda>_. Contents [115, 10]) ?env = Inr cf"
    using t by (auto simp: from_env_def parse_dtls_stack_def parse_handshake_deadline_def
        parse_udp_max_block_def)
  show ?thesis
    using loaded_config_sound [OF cf] cf by (auto simp: trim_end_matches_def)
qed

text \<open>Tuning values fail closed. A handshake deadline is accepted exactly when its trimmed text is a
  number from 1 to 300, a UDP block ceiling exactly when it is one of the seven block sizes, the
  stack exactly when it is one of the two names; everything else refuses to start instead of
  falling back to the default.\<close>

theorem tuning_values_fail_closed:
  "(parse_handshake_deadline (Some raw) = Inr d \<longleftrightarrow>
      (\<exists>n. parse_u64 (trim raw) = Some n \<and> 1 \<le> n \<and> n \<le> 300 \<and> d = from_secs n))
   \<and> (parse_udp_max_block (Some raw) = Inr szx \<longleftrightarrow>
      szx \<le> MAX_SZX \<and> parse_u64 (trim raw) = Some (size_for szx))
   \<and> (parse_dtls_stack (Some raw) = Inr st \<longleftrightarrow>
      raw = ascii ''openssl'' \<and> st = Openssl \<or> raw = ascii ''mbedtls'' \<and> st = Mbedtls)
   \<and> parse_handshake_deadline None = Inr (from_secs 30) \<and> parse_udp_max_block None = Inr 6
   \<and> parse_dtls_stack None = Inr Openssl"
proof (intro conjI)
  show "parse_handshake_deadline (Some raw) = Inr d \<longleftrightarrow>
      (\<exists>n. parse_u64 (trim raw) = Some n \<and> 1 \<le> n \<and> n \<le> 300 \<and> d = from_secs n)"
    by (auto simp: parse_handshake_deadline_def MAX_HANDSHAKE_DEADLINE_SECS_def split: option.splits)
  show "parse_udp_max_block (Some raw) = Inr szx \<longleftrightarrow>
      szx \<le> MAX_SZX \<and> parse_u64 (trim raw) = Some (size_for szx)"
  proof -
    have "szx_for_bytes n = Some szx \<longleftrightarrow> szx \<le> MAX_SZX \<and> n = size_for szx" for n
      using szx_for_bytes_Some by auto
    moreover have "parse_udp_max_block (Some raw) = Inr szx
        \<longleftrightarrow> (\<exists>n. parse_u64 (trim raw) = Some n \<and> szx_for_bytes n = Some szx)"
      by (cases "parse_u64 (trim raw)") (auto simp: parse_udp_max_block_def split: option.split)
    ultimately show ?thesis by auto
  qed
  show "parse_dtls_stack (Some raw) = Inr st \<longleftrightarrow>
      raw = ascii ''openssl'' \<and> st = Openssl \<or> raw = ascii ''mbedtls'' \<and> st = Mbedtls"
    by (auto simp: parse_dtls_stack_def)
qed (simp_all add: parse_handshake_deadline_def parse_udp_max_block_def parse_dtls_stack_def
      DEFAULT_HANDSHAKE_DEADLINE_SECS_def MAX_SZX_def)

text \<open>Resolving the secret never falls back silently: a credential file that exists but cannot be read
  is an error even when the environment variable is set; only a missing file, or no credential
  directory at all, lets the variable count, and then its value is taken as it is.\<close>

theorem service_secret_precedence:
  "resolve_service_secret rd (Some dir) env_secret =
     (case rd (path_join dir (ascii ''COAP_SERVICE_SECRET'')) of
        Contents c \<Rightarrow> Inr (trim_end_matches 10 c)
      | FileNotFound \<Rightarrow> resolve_service_secret rd None env_secret
      | ReadError e \<Rightarrow> Inl (CredentialUnreadable (path_join dir (ascii ''COAP_SERVICE_SECRET'')) e))
   \<and> (resolve_service_secret rd None env_secret = Inr s \<longleftrightarrow> env_secret = Some s)
   \<and> (resolve_service_secret rd (Some dir) env_secret = Inr s \<and> env_secret \<noteq> Some s \<longrightarrow>
        (\<exists>c. rd (path_join dir (ascii ''COAP_SERVICE_SECRET'')) = Contents c
           \<and> s = trim_end_matches 10 c))"
  by (auto simp: resolve_service_secret_def Let_def simp del: ascii_Cons
      split: option.splits file_read.splits)

theorem service_secret_precedence_witness:
  "\<not> (\<exists>s. resolve_service_secret (\<lambda>_. ReadError []) (Some [47]) (Some [115]) = Inr s)"
  using service_secret_precedence [of "\<lambda>_. ReadError []" "[47]" "Some [115]"] by simp

end
