(* ===== verification/Tls_Tcp.thy ===== *)
theory Tls_Tcp
  imports Coap_Tcp Block2_Transfer Tls_Common Config
begin

text \<open>
  \<open>loft/src/tls_tcp.rs\<close>: the coaps+tcp listener. Admission per accepted stream, the handshake under
  its wall-clock deadline (\<open>GuardedTcp\<close>), and the frame loop of an established session. OpenSSL is
  a parameter: the handshake is the list of the socket calls and attempt results it makes. What
  other connections do to the handler's table between two requests is the function \<open>others\<close>.
\<close>

definition TCP_IDLE_TIMEOUT :: duration where "TCP_IDLE_TIMEOUT = from_secs 300"
definition HANDSHAKE_TICK :: duration where "HANDSHAKE_TICK = from_secs 1"

section \<open>The guarded stream\<close>

record guarded_tcp =
  gt_deadline :: instant
  gt_armed :: bool

definition guard_expired :: "instant \<Rightarrow> guarded_tcp \<Rightarrow> io_error option" where
  "guard_expired now g = (if gt_armed g \<and> gt_deadline g \<le> now then Some TimedOut else None)"

text \<open>\<open>read\<close> and \<open>write\<close>: the socket call, \<open>inner\<close>, is only made when the guard has not expired.\<close>

definition guarded_io :: "instant \<Rightarrow> guarded_tcp \<Rightarrow> (unit \<Rightarrow> io_error + 'a) \<Rightarrow> io_error + 'a" where
  "guarded_io now g inner = (case guard_expired now g of Some e \<Rightarrow> Inl e | None \<Rightarrow> inner ())"

section \<open>The handshake\<close>

text \<open>What OpenSSL does inside \<open>accept\<close> and \<open>handshake\<close>: socket calls, and the results of attempts.\<close>

datatype ssl_event =
    SslIo instant
  | AttemptWouldBlock instant
  | AttemptFailed
  | AttemptDone

datatype handshake_end = Established | HandshakeFailed | DeadlineExceeded | InProgress

text \<open>
  The loop of \<open>connection_thread\<close>. A socket call refused by the guard is an error other than
  would-block, which OpenSSL reports as the failure of the attempt.
\<close>

fun handshake_loop ::
  "instant \<Rightarrow> duration \<Rightarrow> guarded_tcp \<Rightarrow> ssl_event list \<Rightarrow> handshake_end \<times> instant list" where
  "handshake_loop started deadline g [] = (InProgress, [])"
| "handshake_loop started deadline g (SslIo now # es) =
     (case guarded_io now g (\<lambda>_. Inr ()) of
        Inl _ \<Rightarrow> (HandshakeFailed, [])
      | Inr _ \<Rightarrow> (case handshake_loop started deadline g es of (r, io) \<Rightarrow> (r, now # io)))"
| "handshake_loop started deadline g (AttemptWouldBlock now # es) =
     (if deadline < now - started then (DeadlineExceeded, [])
      else handshake_loop started deadline g es)"
| "handshake_loop started deadline g (AttemptFailed # es) = (HandshakeFailed, [])"
| "handshake_loop started deadline g (AttemptDone # es) = (Established, [])"

definition tcp_handshake :: "instant \<Rightarrow> duration \<Rightarrow> ssl_event list \<Rightarrow> handshake_end \<times> instant list" where
  "tcp_handshake started deadline es =
     handshake_loop started deadline \<lparr>gt_deadline = started + deadline, gt_armed = True\<rparr> es"

section \<open>The frame loop\<close>

text \<open>What the loop does to the world: the handler's table, the frames it tried to write, its calls.\<close>

record tcp_state =
  ts_table :: block1_table
  ts_written :: "bytes list"
  ts_calls :: "upstream_call list"
  ts_requests :: nat

text \<open>
  What the loop meets: whether a write succeeds after the ones tried before, what other
  connections did to the table before the n-th request, and the times of that request.
\<close>

record tcp_world =
  tw_write_ok :: "bytes list \<Rightarrow> bool"
  tw_others :: "nat \<Rightarrow> block1_table \<Rightarrow> block1_table"
  tw_times :: "nat \<Rightarrow> instant \<times> instant"

definition pong_for :: "message \<Rightarrow> message" where
  "pong_for m = default_message\<lparr>msg_code := PONG, msg_token := msg_token m\<rparr>"

definition write_frame :: "tcp_world \<Rightarrow> message \<Rightarrow> tcp_state \<Rightarrow> bool \<times> tcp_state" where
  "write_frame w m s =
     (let s' = s\<lparr>ts_written := ts_written s @ [encode_frame m]\<rparr> in (tw_write_ok w (ts_written s'), s'))"

definition handle_request ::
  "upstream \<Rightarrow> u8 \<Rightarrow> device_session \<Rightarrow> tcp_world \<Rightarrow> message \<Rightarrow> tcp_state \<Rightarrow> message \<times> tcp_state" where
  "handle_request up szx session w m s =
     (let (n1, n2) = tw_times w (ts_requests s) in
      case handle up szx n1 n2 m session Tcp (tw_others w (ts_requests s) (ts_table s)) of
        (reply, t', calls) \<Rightarrow>
          (reply, s\<lparr>ts_table := t', ts_calls := ts_calls s @ calls,
                    ts_requests := Suc (ts_requests s)\<rparr>))"

text \<open>One message: False ends the connection.\<close>

definition serve_message ::
  "upstream \<Rightarrow> u8 \<Rightarrow> device_session \<Rightarrow> tcp_world \<Rightarrow> message \<Rightarrow> tcp_state \<Rightarrow> bool \<times> tcp_state" where
  "serve_message up szx session w m s =
     (if msg_code m = CSM then (True, s)
      else if msg_code m = PING then write_frame w (pong_for m) s
      else if msg_code m = PONG then (True, s)
      else if msg_code m = RELEASE \<or> msg_code m = ABORT then (False, s)
      else if is_request (msg_code m) then
        (case handle_request up szx session w m s of (reply, s') \<Rightarrow> write_frame w reply s')
      else (True, s))"

text \<open>The inner loop: frames until none is complete, a bad one, or the end of the connection.\<close>

function serve_buffered ::
  "upstream \<Rightarrow> u8 \<Rightarrow> device_session \<Rightarrow> tcp_world \<Rightarrow> frame_decoder \<Rightarrow> tcp_state
   \<Rightarrow> bool \<times> frame_decoder \<times> tcp_state" where
  "serve_buffered up szx session w d s = (case next_frame d of
     (Inl e, d') \<Rightarrow> (False, d', snd (write_frame w (default_message\<lparr>msg_code := ABORT\<rparr>) s))
   | (Inr None, d') \<Rightarrow> (True, d', s)
   | (Inr (Some m), d') \<Rightarrow> (case serve_message up szx session w m s of
       (False, s') \<Rightarrow> (False, d', s')
     | (True, s') \<Rightarrow> serve_buffered up szx session w d' s'))"
  by pat_completeness auto
termination
  by (relation "measure (\<lambda>(_, _, _, _, d, _). length (fd_buf d))")
     (auto dest: frames.consumes [OF sym] frames.consumes)

declare serve_buffered.simps [simp del]

text \<open>The outer loop over reads; an end of stream or a read error closes the connection.\<close>

datatype stream_read = ReadBytes bytes | ReadEof | ReadFailed

fun serve_frames ::
  "upstream \<Rightarrow> u8 \<Rightarrow> device_session \<Rightarrow> tcp_world \<Rightarrow> stream_read list \<Rightarrow> frame_decoder \<Rightarrow> tcp_state
   \<Rightarrow> bool \<times> tcp_state" where
  "serve_frames up szx session w [] d s = (True, s)"
| "serve_frames up szx session w (ReadEof # rs) d s = (False, s)"
| "serve_frames up szx session w (ReadFailed # rs) d s = (False, s)"
| "serve_frames up szx session w (ReadBytes bs # rs) d s =
     (if bs = [] then (False, s)
      else case serve_buffered up szx session w (fd_extend bs d) s of
        (False, _, s') \<Rightarrow> (False, s')
      | (True, d', s') \<Rightarrow> serve_frames up szx session w rs d' s')"

section \<open>The connection\<close>

text \<open>
  \<open>connection_thread\<close> from the socket options on: the handshake, the session it authenticated, our
  settings frame, then the frame loop. \<open>sockopts_ok\<close> covers the three socket options and
  \<open>Ssl::new\<close>.
\<close>

definition connection_thread ::
  "upstream \<Rightarrow> u8 \<Rightarrow> bool \<Rightarrow> instant \<Rightarrow> duration \<Rightarrow> ssl_event list \<Rightarrow> (bytes \<times> bytes) option \<Rightarrow> bytes \<Rightarrow> nat
   \<Rightarrow> tcp_world \<Rightarrow> stream_read list \<Rightarrow> block1_table \<Rightarrow> tcp_state option" where
  "connection_thread up szx sockopts_ok started deadline hs session_data peer conn_id w reads t =
     (if \<not> sockopts_ok then None
      else if fst (tcp_handshake started deadline hs) \<noteq> Established then None
      else case authenticated_session session_data of
        None \<Rightarrow> None
      | Some (identity, token) \<Rightarrow>
          let session = \<lparr>ds_pigeon_id = identity, ds_token = token, ds_peer = peer,
                ds_conn_id = conn_id\<rparr>;
              s0 = \<lparr>ts_table = t, ts_written = [], ts_calls = [], ts_requests = 0\<rparr> in
          (case write_frame w (default_message\<lparr>msg_code := CSM\<rparr>) s0 of
             (False, s) \<Rightarrow> Some s
           | (True, s) \<Rightarrow> Some (snd (serve_frames up szx session w reads \<lparr>fd_buf = []\<rparr> s))))"

section \<open>Accepting\<close>

datatype accepted = AcceptError | NoPeerAddr | Stream socket_addr

text \<open>One round of the accept loop: the permit of the thread it spawned, if it did.\<close>

definition accept_stream ::
  "conn_quota \<Rightarrow> bool \<Rightarrow> accepted \<Rightarrow> counts \<Rightarrow> conn_permit option \<times> counts" where
  "accept_stream q spawn_ok a c = (case a of
     AcceptError \<Rightarrow> (None, c)
   | NoPeerAddr \<Rightarrow> (None, c)
   | Stream addr \<Rightarrow> (case try_acquire q (sa_ip (canonical_peer addr)) c of
       (None, c') \<Rightarrow> (None, c')
     | (Some permit, c') \<Rightarrow> if spawn_ok then (Some permit, c') else (None, permit_drop permit c')))"

section \<open>The frame loop reads messages\<close>

fun serve_list ::
  "upstream \<Rightarrow> u8 \<Rightarrow> device_session \<Rightarrow> tcp_world \<Rightarrow> message list \<Rightarrow> tcp_state \<Rightarrow> bool \<times> tcp_state" where
  "serve_list up szx session w [] s = (True, s)"
| "serve_list up szx session w (m # ms) s = (case serve_message up szx session w m s of
     (False, s') \<Rightarrow> (False, s')
   | (True, s') \<Rightarrow> serve_list up szx session w ms s')"

lemma serve_list_append:
  "serve_list up szx session w (ms @ ms') s = (case serve_list up szx session w ms s of
     (False, s') \<Rightarrow> (False, s')
   | (True, s') \<Rightarrow> serve_list up szx session w ms' s')"
  by (induction ms arbitrary: s) (auto split: prod.splits bool.splits)

text \<open>The state after the messages of a stream and the framing error that ends it, if any.\<close>

definition serve_stream ::
  "upstream \<Rightarrow> u8 \<Rightarrow> device_session \<Rightarrow> tcp_world \<Rightarrow> message list \<Rightarrow> decode_error option \<Rightarrow> tcp_state
   \<Rightarrow> bool \<times> tcp_state" where
  "serve_stream up szx session w ms err s = (case serve_list up szx session w ms s of
     (False, s') \<Rightarrow> (False, s')
   | (True, s') \<Rightarrow> (case err of None \<Rightarrow> (True, s')
       | Some _ \<Rightarrow> (False, snd (write_frame w (default_message\<lparr>msg_code := ABORT\<rparr>) s'))))"

lemma serve_buffered_drain:
  assumes "drain_frames d = (ms, err, d')"
  shows "case serve_buffered up szx session w d s of (go, d1, s1) \<Rightarrow>
    serve_stream up szx session w ms err s = (go, s1) \<and> (go \<longrightarrow> d1 = d')"
  using assms
proof (induction d arbitrary: ms s rule: measure_induct_rule [of "\<lambda>d. length (fd_buf d)"])
  case (less d)
  obtain r d1 where n: "next_frame d = (r, d1)" by fastforce
  consider (err) e where "r = Inl e" | (stop) "r = Inr None" | (frame) m where "r = Inr (Some m)"
    by (metis obj_sumE option.exhaust)
  then show ?case
  proof cases
    case err
    with n less.prems show ?thesis
      by (auto simp: drain_frames.simps [of d] serve_buffered.simps serve_stream_def)
  next
    case stop
    with n less.prems show ?thesis
      by (auto simp: drain_frames.simps [of d] serve_buffered.simps serve_stream_def)
  next
    case frame
    obtain ms2 where ms2: "drain_frames d1 = (ms2, err, d')" "ms = m # ms2"
      using n less.prems frame by (auto simp: drain_frames.simps [of d] split: prod.splits)
    have lt: "length (fd_buf d1) < length (fd_buf d)" using frames.consumes n frame by simp
    obtain go s1 where m: "serve_message up szx session w m s = (go, s1)" by fastforce
    show ?thesis
      using less.IH [OF lt ms2(1), of s1] n frame m ms2(2)
      by (cases go) (auto simp: serve_buffered.simps [of _ _ _ _ d] serve_stream_def)
  qed
qed

lemma serve_stream_append:
  "serve_stream up szx session w (ms @ ms') err s
    = (case serve_stream up szx session w ms None s of
         (False, s') \<Rightarrow> (False, s')
       | (True, s') \<Rightarrow> serve_stream up szx session w ms' err s')"
  by (auto simp: serve_stream_def serve_list_append split: prod.split bool.split)

text \<open>Serving reads is serving the messages of the stream they are cut from.\<close>

lemma serve_frames_stream:
  assumes "[] \<notin> set cs" and "read_chunks d cs = (ms, err, d')"
  shows "serve_frames up szx session w (map ReadBytes cs) d s = serve_stream up szx session w ms err s"
  using assms
proof (induction cs arbitrary: d ms s)
  case Nil
  then show ?case by (simp add: serve_stream_def)
next
  case (Cons c cs)
  obtain ms1 e1 d1 where d1: "drain_frames (fd_extend c d) = (ms1, e1, d1)" by (metis prod_cases3)
  obtain go d2 s2 where b: "serve_buffered up szx session w (fd_extend c d) s = (go, d2, s2)"
    by (metis prod_cases3)
  from serve_buffered_drain [OF d1, of up szx session w s] b
  have s: "serve_stream up szx session w ms1 e1 s = (go, s2)" "go \<Longrightarrow> d2 = d1" by auto
  have ne: "c \<noteq> []" using Cons.prems(1) by auto
  show ?case
  proof (cases e1)
    case (Some x)
    with Cons.prems d1 have "ms = ms1" "err = Some x" by auto
    with s b ne Some show ?thesis
      by (cases go) (auto simp: serve_stream_def split: prod.splits bool.splits)
  next
    case None
    obtain ms2 where r: "read_chunks d1 cs = (ms2, err, d')" "ms = ms1 @ ms2"
      using Cons.prems(2) d1 None by (auto split: prod.splits)
    show ?thesis
      using Cons.IH [OF _ r(1), of s2] Cons.prems(1) s None b ne
      by (cases go) (auto simp: r(2) serve_stream_append)
  qed
qed

lemma serve_frames_same_stream:
  assumes "[] \<notin> set cs" and "[] \<notin> set cs'" and "concat cs = concat cs'"
  shows "serve_frames up szx session w (map ReadBytes cs) \<lparr>fd_buf = []\<rparr> s
    = serve_frames up szx session w (map ReadBytes cs') \<lparr>fd_buf = []\<rparr> s"
proof -
  obtain ms e d where r: "read_chunks \<lparr>fd_buf = []\<rparr> cs = (ms, e, d)" by (metis prod_cases3)
  obtain ms' e' d' where r': "read_chunks \<lparr>fd_buf = []\<rparr> cs' = (ms', e', d')" by (metis prod_cases3)
  have "ms = ms' \<and> e = e'" using frames.feed_same_stream [OF fd_empty_idle assms(3)] r r' by simp
  then show ?thesis
    using serve_frames_stream [OF assms(1) r] serve_frames_stream [OF assms(2) r'] by simp
qed

section \<open>Replies\<close>

definition answered :: "message \<Rightarrow> bool" where
  "answered m \<longleftrightarrow> msg_code m = PING \<or> is_request (msg_code m)"

lemma wire_form_fields [simp]:
  "msg_code (wire_form m) = msg_code m" "msg_token (wire_form m) = msg_token m"
  by (simp_all add: wire_form_def)

lemma signal_codes:
  "\<not> is_request CSM" "\<not> is_request PING" "\<not> is_request PONG" "\<not> is_request RELEASE"
  "\<not> is_request ABORT" "CSM \<noteq> PING" "PONG \<noteq> PING" "RELEASE \<noteq> PING" "ABORT \<noteq> PING"
  "RELEASE \<noteq> CSM" "ABORT \<noteq> CSM" "RELEASE \<noteq> PONG" "ABORT \<noteq> PONG"
  by (simp_all add: is_request_def code_defs)

lemma serve_message_reply:
  assumes "\<forall>ws. tw_write_ok w ws" and "msg_code m \<noteq> RELEASE" and "msg_code m \<noteq> ABORT"
  shows "\<exists>s'. serve_message up szx session w m s = (True, s')
    \<and> (\<exists>replies. ts_written s' = ts_written s @ map encode_frame replies
        \<and> map msg_token replies = (if answered m then [msg_token m] else []))"
proof -
  have tok: "msg_token reply = msg_token m"
    if "handle_request up szx session w m s = (reply, s')" for reply s'
    using that handle_token [of up szx "fst (tw_times w (ts_requests s))"
        "snd (tw_times w (ts_requests s))" m session Tcp "tw_others w (ts_requests s) (ts_table s)"]
    by (auto simp: handle_request_def split: prod.splits)
  have written: "ts_written s' = ts_written s"
    if "handle_request up szx session w m s = (reply, s')" for reply s'
    using that by (auto simp: handle_request_def split: prod.splits)
  consider "msg_code m = PING" | "is_request (msg_code m)" | "\<not> answered m"
    by (auto simp: answered_def)
  then show ?thesis
  proof cases
    case 1
    then show ?thesis
      using assms(1) signal_codes
      by (auto simp: serve_message_def write_frame_def Let_def answered_def pong_for_def
          default_message_def intro!: exI [of _ "[pong_for m]"])
  next
    case 2
    then have c: "msg_code m \<noteq> CSM" "msg_code m \<noteq> PING" "msg_code m \<noteq> PONG"
      using signal_codes by metis+
    obtain reply s' where h: "handle_request up szx session w m s = (reply, s')" by fastforce
    show ?thesis
      using assms 2 c h tok [OF h] written [OF h]
      by (auto simp: serve_message_def write_frame_def Let_def answered_def
          intro!: exI [of _ "[reply]"])
  next
    case 3
    then show ?thesis
      using assms by (auto simp: serve_message_def answered_def intro!: exI [of _ "[]"])
  qed
qed

lemma serve_list_replies:
  assumes "\<forall>ws. tw_write_ok w ws" and "\<forall>m \<in> set ms. msg_code m \<noteq> RELEASE \<and> msg_code m \<noteq> ABORT"
  shows "\<exists>s'. serve_list up szx session w ms s = (True, s')
    \<and> (\<exists>replies. ts_written s' = ts_written s @ map encode_frame replies
        \<and> map msg_token replies = map msg_token (filter answered ms))"
  using assms(2)
proof (induction ms arbitrary: s)
  case Nil
  then show ?case by simp
next
  case (Cons m ms)
  from Cons.prems have "msg_code m \<noteq> RELEASE" "msg_code m \<noteq> ABORT" by auto
  from serve_message_reply [OF assms(1) this, of up szx session s] obtain s1 r1 where
    1: "serve_message up szx session w m s = (True, s1)"
    "ts_written s1 = ts_written s @ map encode_frame r1"
    "map msg_token r1 = (if answered m then [msg_token m] else [])" by auto
  from Cons.IH [of s1] Cons.prems obtain s2 r2 where
    2: "serve_list up szx session w ms s1 = (True, s2)"
    "ts_written s2 = ts_written s1 @ map encode_frame r2"
    "map msg_token r2 = map msg_token (filter answered ms)" by auto
  show ?case using 1 2 by (auto intro!: exI [of _ "r1 @ r2"])
qed

section \<open>Everything a connection does is its session's\<close>

definition acts_as :: "bytes \<Rightarrow> bytes \<Rightarrow> tcp_state \<Rightarrow> bool" where
  "acts_as identity token s \<longleftrightarrow>
     (\<forall>c \<in> set (ts_calls s). uc_pigeon_id c = identity \<and> uc_bearer c = token)"

lemma write_frame_acts: "acts_as i tk s \<Longrightarrow> acts_as i tk (snd (write_frame w m s))"
  by (simp add: acts_as_def write_frame_def Let_def)

lemma serve_message_acts:
  assumes "acts_as (ds_pigeon_id session) (ds_token session) s"
  shows "acts_as (ds_pigeon_id session) (ds_token session) (snd (serve_message up szx session w m s))"
proof -
  have "acts_as (ds_pigeon_id session) (ds_token session) s'"
    if "handle_request up szx session w m s = (reply, s')" for reply s'
  proof -
    obtain n1 n2 where n: "tw_times w (ts_requests s) = (n1, n2)" by fastforce
    obtain r t' calls where h: "handle up szx n1 n2 m session Tcp
        (tw_others w (ts_requests s) (ts_table s)) = (r, t', calls)" by (metis prod_cases3)
    with that n have "ts_calls s' = ts_calls s @ calls" by (auto simp: handle_request_def)
    then show ?thesis
      using handle_calls [OF h] assms by (auto simp: acts_as_def route_call_def)
  qed
  then show ?thesis
    using assms write_frame_acts by (auto simp: serve_message_def split: prod.split)
qed

lemma serve_list_acts:
  "acts_as (ds_pigeon_id session) (ds_token session) s \<Longrightarrow>
    acts_as (ds_pigeon_id session) (ds_token session) (snd (serve_list up szx session w ms s))"
proof (induction ms arbitrary: s)
  case (Cons m ms)
  then show ?case
    using serve_message_acts [of session s up szx w m]
    by (cases "serve_message up szx session w m s") (auto split: bool.split)
qed simp

lemma serve_stream_acts:
  "acts_as (ds_pigeon_id session) (ds_token session) s \<Longrightarrow>
    acts_as (ds_pigeon_id session) (ds_token session) (snd (serve_stream up szx session w ms err s))"
  using serve_list_acts [of session s up szx w ms] write_frame_acts
  by (auto simp: serve_stream_def split: prod.split bool.split option.split)

lemma serve_frames_acts:
  "acts_as (ds_pigeon_id session) (ds_token session) s \<Longrightarrow>
    acts_as (ds_pigeon_id session) (ds_token session) (snd (serve_frames up szx session w rs d s))"
proof (induction rs arbitrary: d s)
  case (Cons r rs)
  show ?case
  proof (cases r)
    case (ReadBytes bs)
    obtain ms err d' where dr: "drain_frames (fd_extend bs d) = (ms, err, d')" by (metis prod_cases3)
    obtain go d1 s1 where b: "serve_buffered up szx session w (fd_extend bs d) s = (go, d1, s1)"
      by (metis prod_cases3)
    from serve_buffered_drain [OF dr, of up szx session w s] b
    have "serve_stream up szx session w ms err s = (go, s1)" by simp
    then have "acts_as (ds_pigeon_id session) (ds_token session) s1"
      using serve_stream_acts [OF Cons.prems, of up szx w ms err] by simp
    then show ?thesis using Cons.IH [of s1 d1] Cons.prems ReadBytes b by (cases go) simp_all
  qed (use Cons in auto)
qed simp

lemma serve_list_written:
  "\<exists>more. ts_written (snd (serve_list up szx session w ms s)) = ts_written s @ more"
proof (induction ms arbitrary: s)
  case (Cons m ms)
  have "\<exists>more. ts_written (snd (serve_message up szx session w m s)) = ts_written s @ more"
    by (auto simp: serve_message_def write_frame_def handle_request_def Let_def split: prod.split)
  with Cons [of "snd (serve_message up szx session w m s)"] show ?case
    by (cases "serve_message up szx session w m s") (auto split: bool.split)
qed simp

lemma serve_frames_written:
  "\<exists>more. ts_written (snd (serve_frames up szx session w rs d s)) = ts_written s @ more"
proof (induction rs arbitrary: d s)
  case (Cons r rs)
  show ?case
  proof (cases r)
    case (ReadBytes bs)
    obtain ms err d' where dr: "drain_frames (fd_extend bs d) = (ms, err, d')" by (metis prod_cases3)
    have "\<exists>more. ts_written (snd (serve_stream up szx session w ms err s)) = ts_written s @ more"
      using serve_list_written [of up szx session w ms s]
      by (auto simp: serve_stream_def write_frame_def Let_def split: prod.splits bool.splits
          option.splits)
    moreover obtain go d1 s1 where b: "serve_buffered up szx session w (fd_extend bs d) s
        = (go, d1, s1)" by (metis prod_cases3)
    moreover from serve_buffered_drain [OF dr, of up szx session w s] b
    have "serve_stream up szx session w ms err s = (go, s1)" by simp
    ultimately show ?thesis using Cons.IH [of d1 s1] ReadBytes by (cases go) auto
  qed auto
qed simp

lemma serve_stream_stop:
  assumes "msg_code m = RELEASE \<or> msg_code m = ABORT"
  shows "serve_stream up szx session w (ms @ m # ms') err s
    = (False, snd (serve_list up szx session w ms s))"
proof -
  have "serve_message up szx session w m s1 = (False, s1)" for s1
    using assms signal_codes by (auto simp: serve_message_def)
  then show ?thesis by (auto simp: serve_stream_def serve_list_append split: prod.split bool.split)
qed

lemma handshake_loop_io:
  "handshake_loop started deadline g es = (r, io) \<Longrightarrow> gt_armed g \<Longrightarrow> \<forall>t \<in> set io. t < gt_deadline g"
  by (induction started deadline g es arbitrary: io rule: handshake_loop.induct)
     (auto simp: guarded_io_def guard_expired_def split: if_splits prod.splits)

lemma handshake_loop_over:
  assumes "handshake_loop started deadline g es = (r, io)" and "gt_armed g"
    and "\<exists>t. SslIo t \<in> set es \<and> gt_deadline g \<le> t
      \<or> AttemptWouldBlock t \<in> set es \<and> deadline < t - started"
  shows "r \<noteq> InProgress"
  using assms
  by (induction started deadline g es arbitrary: io rule: handshake_loop.induct)
     (auto simp: guarded_io_def guard_expired_def split: if_splits prod.splits)

section \<open>Properties\<close>

text \<open>C18. What a coaps+tcp connection does depends only on the bytes its peer sent, not on how reads cut
  them: for any two divisions of the same stream into reads, the frames written, the upstream calls
  made, the table left and whether the connection is still open are the same.\<close>

theorem tcp_session_independent_of_reads:
  assumes "[] \<notin> set cs" and "[] \<notin> set cs'" and "concat cs = concat cs'"
  shows "serve_frames up szx session w (map ReadBytes cs) \<lparr>fd_buf = []\<rparr> s
    = serve_frames up szx session w (map ReadBytes cs') \<lparr>fd_buf = []\<rparr> s"
  using assms by (rule serve_frames_same_stream)

theorem tcp_session_independent_of_reads_witness:
  "\<forall>w s. serve_frames (\<lambda>_. Inl []) 6 \<lparr>ds_pigeon_id = [], ds_token = [], ds_peer = [], ds_conn_id = 1\<rparr> w
     (map ReadBytes [[0x00], [0xE4, 0x00], [0xE2]]) \<lparr>fd_buf = []\<rparr> s
   = serve_frames (\<lambda>_. Inl []) 6 \<lparr>ds_pigeon_id = [], ds_token = [], ds_peer = [], ds_conn_id = 1\<rparr> w
     (map ReadBytes [[0x00, 0xE4, 0x00, 0xE2]]) \<lparr>fd_buf = []\<rparr> s"
  by (intro allI tcp_session_independent_of_reads) simp_all

text \<open>C25. Requests are answered in order, each exactly once: when the peer sends any frames but Release and
  Abort that the wire can carry (a token of at most 8 bytes, option values of at most 65804, options
  and payload of at most 256 KiB together), and our writes go through, the frames written back are replies
  carrying, in order, exactly the tokens of its requests and pings; settings, pongs and stray
  responses get none, and the connection stays open, however its reads cut the bytes.\<close>

theorem tcp_requests_answered_in_order:
  assumes "\<forall>m \<in> set ms. frame_ok m \<and> msg_code m \<noteq> RELEASE \<and> msg_code m \<noteq> ABORT"
    and "\<forall>ws. tw_write_ok w ws" and "[] \<notin> set cs" and "concat cs = concat (map encode_frame ms)"
  shows "\<exists>s' replies. serve_frames up szx session w (map ReadBytes cs) \<lparr>fd_buf = []\<rparr> s = (True, s')
    \<and> ts_written s' = ts_written s @ map encode_frame replies
    \<and> map msg_token replies = map msg_token (filter answered ms)"
proof -
  obtain ms' e d where r: "read_chunks \<lparr>fd_buf = []\<rparr> cs = (ms', e, d)" by (metis prod_cases3)
  from frames.feed_concat [OF fd_empty_idle r] assms(4) drain_encoded [of ms] assms(1)
  have ms': "ms' = map wire_form ms" "e = None" by (auto simp: fd_extend_def)
  have ok: "\<forall>m \<in> set ms'. msg_code m \<noteq> RELEASE \<and> msg_code m \<noteq> ABORT"
    using assms(1) by (simp add: ms')
  have filt: "map msg_token (filter answered ms') = map msg_token (filter answered ms)"
    unfolding ms' by (induction ms) (auto simp: answered_def)
  from serve_list_replies [OF assms(2) ok, of up szx session s] serve_frames_stream [OF assms(3) r]
  show ?thesis by (auto simp: serve_stream_def ms'(2) filt)
qed

theorem tcp_requests_answered_in_order_witness:
  "\<exists>s' reply. serve_frames (\<lambda>_. Inl []) 6
     \<lparr>ds_pigeon_id = [], ds_token = [], ds_peer = [], ds_conn_id = 1\<rparr>
     \<lparr>tw_write_ok = \<lambda>_. True, tw_others = \<lambda>_ t. t, tw_times = \<lambda>_. (0, 0)\<rparr>
     (map ReadBytes [encode_frame (default_message\<lparr>msg_code := PING, msg_token := [9]\<rparr>)])
     \<lparr>fd_buf = []\<rparr> \<lparr>ts_table = [], ts_written = [], ts_calls = [], ts_requests = 0\<rparr> = (True, s')
   \<and> ts_written s' = [encode_frame reply] \<and> msg_token reply = [9]"
proof -
  let ?m = "default_message\<lparr>msg_code := PING, msg_token := [9]\<rparr>"
  let ?w = "\<lparr>tw_write_ok = \<lambda>_. True, tw_others = \<lambda>_ t. t, tw_times = \<lambda>_. (0, 0)\<rparr>"
  have m: "frame_ok ?m"
    by (simp add: frame_ok_def wire_ok_def encodable_def default_message_def MAX_TOKEN_LEN_def
        encode_options_and_payload_def)
  have p1: "\<forall>m \<in> set [?m]. frame_ok m \<and> msg_code m \<noteq> RELEASE \<and> msg_code m \<noteq> ABORT"
    using m by (simp add: code_defs)
  have p2: "\<forall>ws. tw_write_ok ?w ws" by simp
  have p3: "[] \<notin> set [encode_frame ?m]" by (simp add: encode_frame_def Let_def split: prod.split)
  have p4: "concat [encode_frame ?m] = concat (map encode_frame [?m])" by simp
  obtain s' replies where s: "serve_frames (\<lambda>_. Inl []) 6
       \<lparr>ds_pigeon_id = [], ds_token = [], ds_peer = [], ds_conn_id = 1\<rparr> ?w
       (map ReadBytes [encode_frame ?m]) \<lparr>fd_buf = []\<rparr>
       \<lparr>ts_table = [], ts_written = [], ts_calls = [], ts_requests = 0\<rparr> = (True, s')"
    "ts_written s' = ts_written \<lparr>ts_table = [], ts_written = [], ts_calls = [], ts_requests = 0\<rparr>
       @ map encode_frame replies"
    "map msg_token replies = map msg_token (filter answered [?m])"
    using tcp_requests_answered_in_order [OF p1 p2 p3 p4, of "\<lambda>_. Inl []" 6
      "\<lparr>ds_pigeon_id = [], ds_token = [], ds_peer = [], ds_conn_id = 1\<rparr>"
      "\<lparr>ts_table = [], ts_written = [], ts_calls = [], ts_requests = 0\<rparr>"]
    by (elim exE conjE) (rule that)
  have "map msg_token replies = [[9]]" using s(3) by (simp add: answered_def)
  then obtain reply where "replies = [reply]" "msg_token reply = [9]" by (cases replies) auto
  with s(1,2) show ?thesis by (intro exI [of _ s'] exI [of _ reply]) simp
qed

text \<open>Release and Abort end the connection at once: nothing is written for them and nothing sent after
  them is processed. A framing error also ends it, and its last frame is an Abort.\<close>

theorem tcp_release_and_bad_frames_end:
  assumes "[] \<notin> set cs" and "read_chunks \<lparr>fd_buf = []\<rparr> cs = (ms, err, d)"
    and "(go, s') = serve_frames up szx session w (map ReadBytes cs) \<lparr>fd_buf = []\<rparr> s"
  shows "(\<forall>ms1 m ms2. ms = ms1 @ m # ms2 \<and> (msg_code m = RELEASE \<or> msg_code m = ABORT) \<longrightarrow>
        \<not> go \<and> s' = snd (serve_list up szx session w ms1 s))
    \<and> (fst (serve_list up szx session w ms s) \<and> err \<noteq> None \<longrightarrow>
        \<not> go \<and> ts_written s' = ts_written (snd (serve_list up szx session w ms s))
                 @ [encode_frame (default_message\<lparr>msg_code := ABORT\<rparr>)])"
proof -
  have s': "(go, s') = serve_stream up szx session w ms err s"
    using assms(3) serve_frames_stream [OF assms(1,2)] by simp
  have "\<not> go \<and> s' = snd (serve_list up szx session w ms1 s)"
    if "ms = ms1 @ m # ms2" "msg_code m = RELEASE \<or> msg_code m = ABORT" for ms1 m ms2
    using s' serve_stream_stop [OF that(2)] by (simp add: that(1))
  moreover have "\<not> go \<and> ts_written s' = ts_written (snd (serve_list up szx session w ms s))
      @ [encode_frame (default_message\<lparr>msg_code := ABORT\<rparr>)]"
    if "fst (serve_list up szx session w ms s)" "err \<noteq> None"
    using s' that by (cases "serve_list up szx session w ms s")
      (auto simp: serve_stream_def write_frame_def Let_def)
  ultimately show ?thesis by blast
qed

theorem tcp_release_and_bad_frames_end_witness:
  "\<forall>w s. serve_frames (\<lambda>_. Inl []) 6 \<lparr>ds_pigeon_id = [], ds_token = [], ds_peer = [], ds_conn_id = 1\<rparr> w
     (map ReadBytes [[0x00, 0xE4, 0x00, 0xE2]]) \<lparr>fd_buf = []\<rparr> s = (False, s)"
proof (intro allI)
  fix w s
  let ?ss = "\<lparr>ds_pigeon_id = [], ds_token = [], ds_peer = [], ds_conn_id = 1\<rparr>"
  obtain go s' where g: "(go, s') = serve_frames (\<lambda>_. Inl []) 6 ?ss w
      (map ReadBytes [[0x00, 0xE4, 0x00, 0xE2]]) \<lparr>fd_buf = []\<rparr> s"
    by (metis surj_pair)
  let ?rel = "default_message\<lparr>msg_code := RELEASE\<rparr>" and ?ping = "default_message\<lparr>msg_code := PING\<rparr>"
  have r: "read_chunks \<lparr>fd_buf = []\<rparr> [[0x00, 0xE4, 0x00, 0xE2]]
      = ([?rel, ?ping], None, \<lparr>fd_buf = []\<rparr>)"
    by (simp add: drain_frames.simps next_frame_def try_decode_frame_def fd_extend_def Let_def
        read_frame_length_def MAX_TOKEN_LEN_def MAX_FRAME_BODY_def decode_options_and_payload_def
        default_message_def code_defs)
  have "[] \<notin> set [[0x00, 0xE4, 0x00, 0xE2 :: u8]]" by simp
  from tcp_release_and_bad_frames_end [OF this r g]
  have "[?rel, ?ping] = [] @ ?rel # [?ping] \<and> (msg_code ?rel = RELEASE \<or> msg_code ?rel = ABORT) \<longrightarrow>
      \<not> go \<and> s' = snd (serve_list (\<lambda>_. Inl []) 6 ?ss w [] s)" by blast
  then have "go = False \<and> s' = s" by simp
  with g show "serve_frames (\<lambda>_. Inl []) 6 ?ss w (map ReadBytes [[0x00, 0xE4, 0x00, 0xE2]])
      \<lparr>fd_buf = []\<rparr> s = (False, s)" by simp
qed

text \<open>The handshake deadline holds whatever the peer does: no socket call is made at or after it, so a
  peer that keeps trickling bytes is cut off as surely as a silent one, and once OpenSSL has tried
  to use the socket, or yielded, past the deadline the handshake is over.\<close>

theorem tcp_handshake_deadline:
  assumes "tcp_handshake started deadline es = (r, io)"
  shows "(\<forall>t \<in> set io. t < started + deadline)
    \<and> ((\<exists>t. SslIo t \<in> set es \<and> started + deadline \<le> t
         \<or> AttemptWouldBlock t \<in> set es \<and> started + deadline < t) \<longrightarrow> r \<noteq> InProgress)"
  using handshake_loop_io [OF assms [unfolded tcp_handshake_def]]
    handshake_loop_over [OF assms [unfolded tcp_handshake_def]]
  by (auto simp: less_diff_conv add.commute)

theorem tcp_handshake_deadline_witness:
  "fst (tcp_handshake 10 5 [SslIo 11, AttemptWouldBlock 12, SslIo 14, SslIo 15]) \<noteq> InProgress
   \<and> snd (tcp_handshake 10 5 [SslIo 11, AttemptWouldBlock 12, SslIo 14, SslIo 15]) = [11, 14]"
  using tcp_handshake_deadline [OF surjective_pairing,
      of 10 5 "[SslIo 11, AttemptWouldBlock 12, SslIo 14, SslIo 15]"]
  by (auto simp: tcp_handshake_def guarded_io_def guard_expired_def)

text \<open>A connection serves only an authenticated pigeon and only as that pigeon: without an established
  handshake or without a session attached by the PSK callback nothing is ever written; otherwise
  the first frame written is our settings and every upstream call it ever makes is for the
  session's identity with the session's token.\<close>

theorem tcp_connection_acts_as_session:
  shows "(fst (tcp_handshake started deadline hs) \<noteq> Established \<or> session_data = None \<longrightarrow>
        connection_thread up szx sock started deadline hs session_data peer conn_id w reads t = None)
    \<and> (\<forall>s. connection_thread up szx sock started deadline hs session_data peer conn_id w reads t = Some s
        \<longrightarrow> (\<exists>identity token more. session_data = Some (identity, token)
          \<and> ts_written s = encode_frame (default_message\<lparr>msg_code := CSM\<rparr>) # more
          \<and> (\<forall>c \<in> set (ts_calls s). uc_pigeon_id c = identity \<and> uc_bearer c = token)))"
proof (intro conjI allI impI)
  fix s assume a: "connection_thread up szx sock started deadline hs session_data peer conn_id w reads t
    = Some s"
  then obtain identity token where sd: "session_data = Some (identity, token)"
    by (auto simp: connection_thread_def authenticated_session_def split: if_splits option.splits)
  let ?session = "\<lparr>ds_pigeon_id = identity, ds_token = token, ds_peer = peer, ds_conn_id = conn_id\<rparr>"
  let ?s1 = "\<lparr>ts_table = t, ts_written = [encode_frame (default_message\<lparr>msg_code := CSM\<rparr>)],
    ts_calls = [], ts_requests = 0\<rparr>"
  from a sd have s: "s = ?s1 \<or> s = snd (serve_frames up szx ?session w reads \<lparr>fd_buf = []\<rparr> ?s1)"
    by (auto simp: connection_thread_def authenticated_session_def write_frame_def Let_def
        split: if_splits bool.splits)
  have "acts_as identity token ?s1" by (simp add: acts_as_def)
  then have "acts_as identity token s"
    using s serve_frames_acts [of ?session ?s1 up szx w reads "\<lparr>fd_buf = []\<rparr>"] by auto
  moreover have "\<exists>more. ts_written s = encode_frame (default_message\<lparr>msg_code := CSM\<rparr>) # more"
    using s serve_frames_written [of up szx ?session w reads "\<lparr>fd_buf = []\<rparr>" ?s1] by auto
  ultimately show "\<exists>identity token more. session_data = Some (identity, token)
      \<and> ts_written s = encode_frame (default_message\<lparr>msg_code := CSM\<rparr>) # more
      \<and> (\<forall>c \<in> set (ts_calls s). uc_pigeon_id c = identity \<and> uc_bearer c = token)"
    unfolding acts_as_def using sd by blast
qed (auto simp: connection_thread_def authenticated_session_def)

theorem tcp_connection_acts_as_session_witness:
  "\<forall>w. connection_thread (\<lambda>_. Inl []) 6 True 0 5 [SslIo 6, AttemptDone] (Some ([1], [2])) [] 1 w [] [] = None"
proof -
  have "fst (tcp_handshake 0 5 [SslIo 6, AttemptDone]) \<noteq> Established"
    by (simp add: tcp_handshake_def guarded_io_def guard_expired_def)
  with tcp_connection_acts_as_session show ?thesis by blast
qed

text \<open>Admission and the accept loop agree: after any round (accepted, refused, unnamed peer, or a
  failed thread spawn) the books are those of the connections that really run, and a running
  connection's permit is counted under its canonical address.\<close>

theorem tcp_accept_keeps_books:
  assumes "rtranclp (admission_step (try_acquire q) permit_drop) (new_counts, []) (c, ps)"
    and "accept_stream q spawn_ok a c = (r, c')"
  shows "rtranclp (admission_step (try_acquire q) permit_drop) (new_counts, [])
      (c', case r of None \<Rightarrow> ps | Some p \<Rightarrow> p # ps)
    \<and> (\<forall>p. r = Some p \<longrightarrow> spawn_ok \<and> (\<exists>addr. a = Stream addr
          \<and> p = ConnPermit (bucket (sa_ip (canonical_peer addr))) \<and> p = ConnPermit (bucket (sa_ip addr))))"
proof (cases a)
  case (Stream addr)
  have b: "bucket (to_canonical ip) = bucket ip" for ip by (cases ip) (auto split: option.splits)
  obtain o' c1 where t: "try_acquire q (sa_ip (canonical_peer addr)) c = (o', c1)" by fastforce
  show ?thesis
  proof (cases o')
    case None
    then have "c1 = c" using t by (auto simp: try_acquire_def Let_def split: if_splits)
    with assms Stream t None show ?thesis by (simp add: accept_stream_def)
  next
    case (Some p)
    have p: "p = ConnPermit (bucket (sa_ip (canonical_peer addr)))"
      using t Some by (auto simp: try_acquire_def Let_def split: if_splits)
    have st: "admission_step (try_acquire q) permit_drop (c, ps) (c1, p # ps)"
      using t Some by (intro admission_step.admitted) simp
    have "admission_step (try_acquire q) permit_drop (c1, p # ps) (permit_drop p c1, ps)"
      using admission_step.dropped [of p "p # ps" "try_acquire q" permit_drop c1] by simp
    with st assms(1) have "rtranclp (admission_step (try_acquire q) permit_drop) (new_counts, [])
        (permit_drop p c1, ps)" by (meson rtranclp.rtrancl_into_rtrancl)
    moreover have "rtranclp (admission_step (try_acquire q) permit_drop) (new_counts, []) (c1, p # ps)"
      using st assms(1) by (rule rtranclp.rtrancl_into_rtrancl [rotated])
    ultimately show ?thesis
      using assms(2) Stream t Some p b by (auto simp: accept_stream_def canonical_peer_def
          split: if_splits)
  qed
qed (use assms in \<open>auto simp: accept_stream_def\<close>)

theorem tcp_accept_keeps_books_witness:
  "\<exists>c'. accept_stream \<lparr>max_total = 1, max_per_ip = 1\<rparr> False (Stream \<lparr>sa_ip = V4 7, sa_port = 9\<rparr>) new_counts
     = (None, c')
   \<and> rtranclp (admission_step (try_acquire \<lparr>max_total = 1, max_per_ip = 1\<rparr>) permit_drop)
       (new_counts, []) (c', [])"
proof -
  let ?q = "\<lparr>max_total = 1, max_per_ip = 1\<rparr>"
  obtain r c' where a: "accept_stream ?q False (Stream \<lparr>sa_ip = V4 7, sa_port = 9\<rparr>) new_counts = (r, c')"
    by fastforce
  have "r = None" using a by (auto simp: accept_stream_def split: prod.splits option.splits)
  with a tcp_accept_keeps_books [OF rtranclp.rtrancl_refl a] show ?thesis by auto
qed

end
