(* ===== verification/Device_Identity.thy ===== *)
theory Device_Identity
  imports Psk Tls_Tcp Dtls Dtls_Mbed Mbed_Shim
begin

text \<open>
  From dovecote's answer to the upstream call: the resolver, the PSK callbacks and the connection
  threads of the three listeners put together. The resolver's cache is that of any moment of a
  process whose connections look up identities concurrently; \<open>http t\<close> is how the lookup endpoint
  answers requests sent at time \<open>t\<close>.
\<close>

section \<open>What a resolved identity rests on\<close>

text \<open>A reply of the lookup endpoint, to a request made with our service secret.\<close>

definition issued ::
  "(instant \<Rightarrow> bytes \<Rightarrow> bytes \<Rightarrow> ureq_result) \<Rightarrow> bytes \<Rightarrow> bytes \<Rightarrow> instant \<Rightarrow> bytes \<Rightarrow> bytes \<Rightarrow> bytes \<Rightarrow> bool"
  where
  "issued http base secret t identity psk token \<longleftrightarrow>
     (\<exists>lk. http t (psk_lookup_url base identity) (ascii ''Bearer '' @ secret) = ReqOk (Inr lk)
       \<and> lk_secret lk = psk \<and> lk_token lk = token)"

text \<open>All answers of the source so far are the endpoint's.\<close>

definition asked_dovecote ::
  "(instant \<Rightarrow> bytes \<Rightarrow> bytes \<Rightarrow> ureq_result) \<Rightarrow> bytes \<Rightarrow> bytes \<Rightarrow> psk_system \<Rightarrow> bool" where
  "asked_dovecote http base secret s \<longleftrightarrow>
     (\<forall>(identity, t, res) \<in> set (ps_source s). res = dovecote_fetch (http t) base secret identity)"

definition fresh_enough :: "psk_ttls \<Rightarrow> instant \<Rightarrow> instant \<Rightarrow> bool" where
  "fresh_enough ttls now t \<longleftrightarrow>
     t = now \<or> now - t < positive_ttl ttls \<or> now - t < stale_grace ttls"

lemma dovecote_fetch_issued:
  "dovecote_fetch (http t) base secret identity = Inr (Some e) \<longleftrightarrow>
    issued http base secret t identity (pe_psk e) (pe_token e)"
  by (cases e) (auto simp: dovecote_fetch_def issued_def split: ureq_result.splits sum.splits if_splits)

lemma resolved_issued:
  assumes "rtranclp (psk_step ttls) psk_initial s" and "asked_dovecote http base secret s"
    and "resolve ttls (dovecote_fetch (http now) base secret) now identity (ps_cache s) = (Some e, rest)"
  shows "\<exists>t. issued http base secret t identity (pe_psk e) (pe_token e) \<and> fresh_enough ttls now t"
proof -
  let ?f = "dovecote_fetch (http now) base secret"
  have cached: "issued http base secret t identity (pe_psk e) (pe_token e)"
    if "hm_get (ps_cache s) identity = Some (Known e t)" for t
  proof -
    have "(identity, t, Inr (Some e)) \<in> set (ps_source s)"
      using psk_inv_reachable [OF assms(1)] that by (auto simp: psk_inv_def)
    with assms(2) show ?thesis unfolding asked_dovecote_def by (force simp: dovecote_fetch_issued [symmetric])
  qed
  consider (hit) t where "hm_get (ps_cache s) identity = Some (Known e t)" "now - t < positive_ttl ttls"
    | (fetched) "?f identity = Inr (Some e)"
    | (stale) t where "hm_get (ps_cache s) identity = Some (Known e t)" "now - t < stale_grace ttls"
    using assms(3)
    by (auto simp: resolve_defs split: option.splits cache_entry.splits sum.splits if_splits)
  then show ?thesis
  proof cases
    case fetched
    then have "issued http base secret now identity (pe_psk e) (pe_token e)"
      by (simp add: dovecote_fetch_issued)
    then show ?thesis by (auto simp: fresh_enough_def)
  qed (use cached in \<open>auto simp: fresh_enough_def\<close>)
qed

lemma identity_issued:
  assumes "rtranclp (psk_step ttls) psk_initial s" and "asked_dovecote http base secret s"
    and "resolve_psk_identity ttls (dovecote_fetch (http now) base secret) now i (ps_cache s)
      = (Some (identity, e), rest)"
  shows "identity = i \<and> (\<exists>t. issued http base secret t i (pe_psk e) (pe_token e) \<and> fresh_enough ttls now t)"
  using assms(3) resolved_issued [OF assms(1,2)]
  by (auto simp: resolve_psk_identity_def split: if_splits prod.splits option.splits)

text \<open>The mbedTLS listener's callback, as \<open>build_config\<close> makes it of the same resolution.\<close>

definition mbed_resolver ::
  "psk_ttls \<Rightarrow> (bytes \<Rightarrow> bytes + psk_entry option) \<Rightarrow> instant \<Rightarrow> psk_cache \<Rightarrow> bytes \<Rightarrow> resolved_psk option option"
  where
  "mbed_resolver ttls fetch now cache identity =
     Some (map_option (\<lambda>(identity, entry). \<lparr>rp_psk = pe_psk entry, rp_identity = identity, rp_token = pe_token entry\<rparr>)
       (fst (resolve_psk_identity ttls fetch now identity cache)))"

lemma psk_callback_issued:
  assumes "rtranclp (psk_step ttls) psk_initial s" and "asked_dovecote http base secret s"
    and "psk_callback ttls (dovecote_fetch (http now) base secret) now ident out None (ps_cache s)
      = (n, out', Some (identity, token), cache')"
  shows "\<exists>t. ident = Some identity \<and> fresh_enough ttls now t
    \<and> issued http base secret t identity (take n out') token"
  using assms(3) identity_issued [OF assms(1,2)]
  by (fastforce simp: psk_callback_def Let_def split: option.splits prod.splits if_splits)

lemma psk_tramp_issued:
  assumes "rtranclp (psk_step ttls) psk_initial s" and "asked_dovecote http base secret s"
    and "psk_tramp (mbed_resolver ttls (dovecote_fetch (http now) base secret) now (ps_cache s)) set_rc
      written has_header ident \<lparr>pk_credentials = None, pk_hs_psk = None\<rparr> = (rc, psk)"
    and "pk_credentials psk = Some (identity, token)"
  shows "\<exists>t key. (case ident of None \<Rightarrow> [] | Some i \<Rightarrow> i) = identity \<and> fresh_enough ttls now t
    \<and> issued http base secret t identity key token \<and> pk_hs_psk psk = Some key"
proof -
  let ?i = "case ident of None \<Rightarrow> [] | Some i \<Rightarrow> i"
  let ?r = "resolve_psk_identity ttls (dovecote_fetch (http now) base secret) now ?i (ps_cache s)"
  from assms(3,4) obtain e rest where "?r = (Some (identity, e), rest)" "token = pe_token e"
    "pk_hs_psk psk = Some (pe_psk e)"
    by (cases "fst ?r"; cases ?r)
      (auto simp: psk_tramp_def mbed_resolver_def reject_with_decoy_psk_def set_hs_psk_def
        split: if_splits prod.splits)
  with identity_issued [OF assms(1,2)] show ?thesis by blast
qed

section \<open>A small deployment\<close>

text \<open>An endpoint that knows one secret and one token.\<close>

definition demo_http :: "instant \<Rightarrow> bytes \<Rightarrow> bytes \<Rightarrow> ureq_result" where
  "demo_http t url auth = ReqOk (Inr \<lparr>lk_identity = [65], lk_secret = [5, 6], lk_token = [7]\<rparr>)"

lemma demo_issued:
  "issued demo_http base secret t identity psk token \<longleftrightarrow> psk = [5, 6] \<and> token = [7]"
  by (auto simp: issued_def demo_http_def)

lemma demo_asked: "asked_dovecote demo_http base secret psk_initial"
  by (simp add: asked_dovecote_def psk_initial_def)

lemma demo_resolves:
  "resolve_psk_identity (fst (new_psk_resolver 60)) (dovecote_fetch (demo_http now) base secret) now [65]
     (ps_cache psk_initial)
   = (Some ([65], \<lparr>pe_psk = [5, 6], pe_token = [7]\<rparr>), [([65], Known \<lparr>pe_psk = [5, 6], pe_token = [7]\<rparr> now)])"
proof -
  have "from_utf8_ok [65]" by (rule from_utf8_ok_ascii) simp
  then show ?thesis
    by (simp add: resolve_psk_identity_def resolve_defs hm_defs psk_initial_def dovecote_fetch_def
        demo_http_def)
qed

section \<open>Properties\<close>

text \<open>C5. A connection of the OpenSSL listeners speaks for exactly the pigeon dovecote vouched for: every
  upstream call it makes is for the identity its handshake named and carries the token dovecote
  issued for that identity, in the very reply whose secret was the handshake's key; that reply is
  not older than the cache's lifetimes allow.\<close>

theorem bearer_issued_by_dovecote:
  assumes "rtranclp (psk_step ttls) psk_initial s" and "asked_dovecote http base secret s"
    and "psk_callback ttls (dovecote_fetch (http now) base secret) now ident out None (ps_cache s)
      = (n, out', session, cache')"
    and "(\<exists>final. connection_thread up szx sock started deadline hs session peer conn_id w reads table
           = Some final \<and> calls = ts_calls final)
       \<or> (\<exists>final. dtls_connection_thread up szx begun mtu_ok started deadline es session peer conn_id
           random at ev io = Some final \<and> calls = se_calls final)"
  shows "\<exists>identity token t. ident = Some identity \<and> fresh_enough ttls now t
    \<and> issued http base secret t identity (take n out') token
    \<and> (\<forall>c \<in> set calls. uc_pigeon_id c = identity \<and> uc_bearer c = token)"
proof -
  from assms(4) have "\<exists>identity token. session = Some (identity, token)
      \<and> (\<forall>c \<in> set calls. uc_pigeon_id c = identity \<and> uc_bearer c = token)"
  proof (elim disjE exE conjE)
    fix final assume "connection_thread up szx sock started deadline hs session peer conn_id w reads table
      = Some final" "calls = ts_calls final"
    with conjunct2 [OF tcp_connection_acts_as_session, rule_format, OF this(1)] show ?thesis by blast
  next
    fix final assume "dtls_connection_thread up szx begun mtu_ok started deadline es session peer conn_id
      random at ev io = Some final" "calls = se_calls final"
    with conjunct2 [OF dtls_connection_acts_as_session, rule_format, OF this(1)] show ?thesis by blast
  qed
  with psk_callback_issued [OF assms(1,2)] assms(3) show ?thesis by blast
qed

theorem bearer_issued_by_dovecote_witness:
  "\<forall>w reads. \<exists>final. connection_thread (\<lambda>_. Inl []) 6 True 0 5 [AttemptDone] (Some ([65], [7])) [] 1 w reads []
       = Some final \<and> uc_bearer ` set (ts_calls final) \<subseteq> {[7]}"
proof (intro allI)
  fix w reads
  let ?c = "connection_thread (\<lambda>_. Inl []) 6 True 0 5 [AttemptDone] (Some ([65], [7])) [] 1 w reads []"
  have "?c \<noteq> None"
    by (simp add: connection_thread_def tcp_handshake_def authenticated_session_def Let_def
        split: prod.split bool.split)
  then obtain final where f: "?c = Some final" by blast
  have cb: "psk_callback (fst (new_psk_resolver 60)) (dovecote_fetch (demo_http 0) [] []) 0 (Some [65])
      [0, 0, 0] None (ps_cache psk_initial)
    = (2, [5, 6, 0], Some ([65], [7]), [([65], Known \<lparr>pe_psk = [5, 6], pe_token = [7]\<rparr> 0)])"
    by (simp add: psk_callback_def demo_resolves)
  from bearer_issued_by_dovecote [OF _ demo_asked cb, of "\<lambda>_. Inl []" 6 True 0 5 "[AttemptDone]" "[]" 1 w
      reads "[]" "ts_calls final"] f
  show "\<exists>final. ?c = Some final \<and> uc_bearer ` set (ts_calls final) \<subseteq> {[7]}"
    by (auto simp: demo_issued)
qed

text \<open>C6. The same holds of the mbedTLS listener, whose callback installs the key itself: a session that
  serves at all was given its credentials by the callback, every upstream call is for the identity
  the handshake named, wherever the session has moved, with the token of the reply whose secret
  the handshake was keyed with.\<close>

theorem mbed_bearer_issued_by_dovecote:
  assumes "rtranclp (psk_step ttls) psk_initial s" and "asked_dovecote http base secret s"
    and "psk_tramp (mbed_resolver ttls (dovecote_fetch (http now) base secret) now (ps_cache s)) set_rc
      written has_header ident \<lparr>pk_credentials = None, pk_hs_psk = None\<rparr> = (rc, psk)"
    and "session_thread up szx show_addr cid_idle started deadline hs cid_result psk peer conn_id random
      at es io = Some final"
  shows "\<exists>identity token t key. (case ident of None \<Rightarrow> [] | Some i \<Rightarrow> i) = identity
    \<and> fresh_enough ttls now t \<and> issued http base secret t identity key token \<and> pk_hs_psk psk = Some key
    \<and> (\<forall>c \<in> set (se_calls (ms_dtls final)). uc_pigeon_id c = identity \<and> uc_bearer c = token)"
proof -
  from conjunct2 [OF mbed_session_acts_as_identity, rule_format, OF assms(4)] obtain identity token where
    c: "pk_credentials psk = Some (identity, token)"
      "\<forall>c \<in> set (se_calls (ms_dtls final)). uc_pigeon_id c = identity \<and> uc_bearer c = token" by blast
  from psk_tramp_issued [OF assms(1-3) c(1)] c(2) show ?thesis by blast
qed

theorem mbed_bearer_issued_by_dovecote_witness:
  "\<forall>es io. \<exists>final. session_thread (\<lambda>_. Inl []) 6 (\<lambda>_. []) 9 0 5 [HsReturns 1 HsDone] (Inl 1)
     \<lparr>pk_credentials = Some ([65], [7]), pk_hs_psk = Some [5, 6]\<rparr> mb_demo_peer 1 None 1 es io = Some final
     \<and> uc_bearer ` set (se_calls (ms_dtls final)) \<subseteq> {[7]}"
proof (intro allI)
  fix es io
  let ?psk = "\<lparr>pk_credentials = Some ([65], [7]), pk_hs_psk = Some [5, 6]\<rparr>"
  let ?c = "session_thread (\<lambda>_. Inl []) 6 (\<lambda>_. []) 9 0 5 [HsReturns 1 HsDone] (Inl 1) ?psk mb_demo_peer 1
    None 1 es io"
  obtain final where f: "?c = Some final"
    by (auto simp: session_thread_def take_credentials_def Let_def)
  have cb: "psk_tramp (mbed_resolver (fst (new_psk_resolver 60)) (dovecote_fetch (demo_http 0) [] []) 0
      (ps_cache psk_initial)) (\<lambda>_. 0) [] True (Some [65]) \<lparr>pk_credentials = None, pk_hs_psk = None\<rparr> = (0, ?psk)"
    by (simp add: psk_tramp_def mbed_resolver_def demo_resolves set_hs_psk_def)
  from mbed_bearer_issued_by_dovecote [OF _ demo_asked cb f]
  show "\<exists>final. ?c = Some final \<and> uc_bearer ` set (se_calls (ms_dtls final)) \<subseteq> {[7]}"
    using f by (auto simp: demo_issued)
qed

text \<open>A name is not checked to be the one dovecote answered for. The name goes into the lookup URL as it
  came and the reply's own identity is not read: if the endpoint routes by path, a device that
  calls itself by its name, a question mark and anything is given its own key and served under the
  alias, so one device has any number of identities (each its own cache entry), and the URL of its
  calls has the rest of the alias, and the leaf, in the query.\<close>

theorem identity_alias_accepted:
  assumes "\<forall>url q auth. http now (url @ 63 # q) auth = http now url auth"
    and "from_utf8_ok (i @ 63 # q)" and "issued http base secret now i psk token"
    and "length psk \<le> length out"
  shows "psk_callback ttls (dovecote_fetch (http now) base secret) now (Some (i @ 63 # q)) out None []
      = (length psk, psk @ drop (length psk) out, Some (i @ 63 # q, token),
         [(i @ 63 # q, Known \<lparr>pe_psk = psk, pe_token = token\<rparr> now)])
    \<and> rq_url (device_http_request dovecote meth (i @ 63 # q) leaf token rng body)
      = dovecote @ ascii ''/device/pigeons/'' @ i @ 63 # (q @ ascii ''/'' @ leaf)"
proof -
  have "psk_lookup_url base (i @ 63 # q) = psk_lookup_url base i @ 63 # q"
    by (simp add: psk_lookup_url_def)
  then have "issued http base secret now (i @ 63 # q) psk token"
    using assms(1,3) by (simp add: issued_def)
  then have "dovecote_fetch (http now) base secret (i @ 63 # q) = Inr (Some \<lparr>pe_psk = psk, pe_token = token\<rparr>)"
    by (simp add: dovecote_fetch_issued)
  then show ?thesis
    using assms(2,4)
    by (simp add: psk_callback_def resolve_psk_identity_def resolve_defs hm_defs device_http_request_def Let_def
        del: ascii_Cons)
qed

theorem identity_alias_accepted_witness:
  "\<exists>cache. psk_callback (fst (new_psk_resolver 60)) (dovecote_fetch (demo_http 0) [] []) 0
     (Some ([65] @ 63 # [66])) [0, 0] None [] = (2, [5, 6], Some ([65] @ 63 # [66], [7]), cache)"
proof -
  have "from_utf8_ok ([65] @ 63 # [66])" by (rule from_utf8_ok_ascii) simp
  moreover have "issued demo_http [] [] 0 [65] [5, 6] [7]" by (simp add: demo_issued)
  moreover have "\<forall>url q auth. demo_http 0 (url @ 63 # q) auth = demo_http 0 url auth"
    by (simp add: demo_http_def)
  ultimately show ?thesis
    using identity_alias_accepted [of demo_http 0 "[65]" "[66]" "[]" "[]" "[5, 6]" "[7]" "[0, 0]"] by simp
qed

end
