(* ===== verification/Device_Session.thy ===== *)
theory Device_Session
  imports Device_Download Session_Link Device_Identity
begin

text \<open>
  One device from its handshake to dovecote: the resolution of its key, the PSK callback, the
  connection thread of the OpenSSL DTLS listener, the link that loses and repeats datagrams, the
  messaging layer, the handler and its table, and the HTTP request that leaves the gateway.
\<close>

section \<open>The request that leaves the gateway\<close>

text \<open>What \<open>dovecote_upstream\<close> sends for a call; its answer is a function of what comes back.\<close>

definition request_of :: "bytes \<Rightarrow> upstream_call \<Rightarrow> http_request" where
  "request_of base_url c = device_http_request base_url (uc_method c) (uc_pigeon_id c) (uc_leaf c) (uc_bearer c)
     (uc_range c) (uc_body c)"

lemma dovecote_upstream_sends:
  "send (request_of base_url c) = send' (request_of base_url c) \<Longrightarrow>
    dovecote_upstream send base_url c = dovecote_upstream send' base_url c"
  by (simp add: dovecote_upstream_def request_of_def device_request_def)

lemma body_call_request:
  "request_of base_url (body_call dev leaf body content_type) =
     \<lparr>rq_method = Post,
      rq_url = base_url @ ascii ''/device/pigeons/'' @ ds_pigeon_id dev @ ascii ''/'' @ leaf,
      rq_headers = [(ascii ''Authorization'', ascii ''Bearer '' @ ds_token dev), (ascii ''Content-Type'', content_type)],
      rq_body = Some body\<rparr>"
  by (simp add: request_of_def body_call_def device_http_request_def)

section \<open>The connection thread as a run of datagrams\<close>

definition fresh_connection :: "(u8 \<times> u8) option \<Rightarrow> dgram_conn" where
  "fresh_connection random = \<lparr>gc_dedup = new_dedup_cache, gc_next_mid = rand_u16 random\<rparr>"

lemma thread_runs_datagrams:
  assumes "dtls_connection_thread up szx now mtu_ok started deadline hs (Some (identity, token)) peer conn_id
      random at reads io = Some final"
    and "dev = \<lparr>ds_pigeon_id = identity, ds_token = token, ds_peer = peer, ds_conn_id = conn_id\<rparr>"
    and "brings up szx dev reads ds t (fresh_connection random) at"
    and "datagram_run up szx dev ds t (fresh_connection random) = (rs, calls, t')"
  shows "se_sent final = written rs \<and> se_calls final = calls"
proof -
  have "final = snd (serve_datagrams up szx dev reads (new_dtls_session random at))"
    using assms(1,2) by (auto simp: dtls_connection_thread_def authenticated_session_def Let_def
        split: if_splits prod.splits accept_end.splits)
  with serve_brings [of up szx dev reads ds t "new_dtls_session random at" rs calls t'] assms(3,4)
  show ?thesis by (simp add: new_dtls_session_def fresh_connection_def)
qed

text \<open>The same of a session of the mbedTLS listener, whose peer may move meanwhile.\<close>

lemma mbed_thread_runs_datagrams:
  assumes "session_thread up szx show_addr cid_idle started deadline hs cid_result psk peer conn_id random at es io
      = Some final"
    and "pk_credentials psk = Some (identity, token)"
    and "dev = \<lparr>ds_pigeon_id = identity, ds_token = token, ds_peer = show_addr peer, ds_conn_id = conn_id\<rparr>"
    and "idle = (if (case cid_result of Inr st \<Rightarrow> cs_negotiated st | Inl _ \<Rightarrow> False) then cid_idle else IDLE_DEADLINE)"
    and "mb_brings up szx dev idle es ds t (fresh_connection random) at"
    and "datagram_run up szx dev ds t (fresh_connection random) = (rs, calls, t')"
  shows "map snd (ms_out final) = written rs \<and> se_calls (ms_dtls final) = calls"
proof -
  obtain cid_active s0 where f: "final = snd (mb_serve up szx show_addr cid_active idle es s0)"
    and s0: "ms_out s0 = []" "ms_dev s0 = dev" "se_conn (ms_dtls s0) = fresh_connection random"
      "se_calls (ms_dtls s0) = []" "se_last (ms_dtls s0) = at"
    using assms(1-4) by (auto simp: session_thread_def take_credentials_def Let_def fresh_connection_def
        split: prod.splits mb_hs_end.splits)
  have "same_device dev s0" unfolding same_device_def by (rule exI [of _ "ds_peer dev"]) (simp add: s0)
  from mb_serve_brings [OF _ _ this, of up szx idle es ds t rs calls t' show_addr cid_active] assms(5,6)
  show ?thesis by (simp add: f s0)
qed

text \<open>So an upload through it is posted once, whole, for the device that was authenticated.\<close>

lemma mbed_upload_posted_once:
  assumes "session_thread up szx show_addr cid_idle started deadline hs cid_result psk peer conn_id random at ev io
      = Some final"
    and "pk_credentials psk = Some (identity, token)"
    and "dev = \<lparr>ds_pigeon_id = identity, ds_token = token, ds_peer = show_addr peer, ds_conn_id = conn_id\<rparr>"
    and "idle = (if (case cid_result of Inr st \<Rightarrow> cs_negotiated st | Inl _ \<Rightarrow> False) then cid_idle else IDLE_DEADLINE)"
    and "mb_brings up szx dev idle ev (lossy (e # es)) t (fresh_connection random) at"
    and "awaiting dev leaf 0 (reliable [] (e # es)) t (fresh_connection random)"
    and "t1 = sweep_block1 (at_sweep (dv_times (ex_first e))) (snd (run_block1 (dv_others (ex_first e)) t))"
    and "hm_contains_key t1 (upload_key dev leaf) \<or> hm_len t1 < MAX_BLOCK1_ENTRIES"
    and "on_time (upload_key dev leaf) (at_assemble (dv_times (ex_first e))) (reliable (meanwhile e) es)"
    and "length (bodies (map ex_first (e # es))) \<le> MAX_BLOCK1_BODY"
    and "\<forall>x \<in> set (e # es). exchange_ok x"
    and "requests_of (upload_key dev leaf) (late_events [] (e # es)) = []"
  shows "\<exists>content_type rs. se_calls (ms_dtls final) = [body_call dev leaf (bodies (map ex_first (e # es))) content_type]
    \<and> map snd (ms_out final) = written (heard (e # es) rs) \<and> length rs = length (e # es) \<and> None \<notin> set rs"
proof -
  obtain rs ct t' where run: "datagram_run up szx dev (lossy (e # es)) t (fresh_connection random)
      = (heard (e # es) rs, [body_call dev leaf (bodies (map ex_first (e # es))) ct], t')"
    and rs: "length rs = length (e # es)" "None \<notin> set rs"
    using lossy_upload_posted_once [OF assms(6-12)] by blast
  from mbed_thread_runs_datagrams [OF assms(1-5) run] rs show ?thesis by blast
qed

text \<open>Any deliveries can be what a loop reads.\<close>

lemma reads_exist: "\<exists>reads. brings up szx session reads ds t g since"
proof (induction ds arbitrary: t g since)
  case Nil
  show ?case by (intro exI [of _ "[]"]) simp
next
  case (Cons d ds)
  let ?env = "\<lparr>sn_now = since, sn_times = dv_times d, sn_table = snd (run_block1 (dv_others d) t), sn_write_ok = True\<rparr>"
  obtain r t' g' cs where n: "deliver_next up szx session d t g = (r, t', g', cs)" by (metis prod_cases4)
  obtain reads where "brings up szx session reads ds t' g' since" using Cons.IH by blast
  with n have "brings up szx session (ReadData ?env (datagram_encode (dv_datagram d)) # reads) (d # ds) t g since"
    by (simp add: env_of_def)
  then show ?case ..
qed

section \<open>Properties\<close>

text \<open>C2. From the handshake to dovecote: a device, keyed by what dovecote answered about the name it gave in a
  DTLS handshake, uploads a body of at most 64 KiB in blocks over a link that loses and repeats
  datagrams. Message ids differ; copies of a request come before the next one and within 150 s of
  its answer; the session never idles out and its writes go through. The others use the resolver's
  cache and the table of uploads as they like, but the table has room for the upload, or an entry
  for its key, when block 0 comes; no sweep finds it idle for 90 s; nobody else uses its key once it
  has begun. Then dovecote is sent exactly one request, a POST of the whole body to the leaf of that
  name's device path, authorised by the very token it issued for the name in the reply whose
  secret keyed the handshake; and every datagram, copies included, is answered once, in order, all
  blocks but the last with a 2.31 Continue.\<close>

theorem upload_from_handshake_to_dovecote:
  assumes "rtranclp (psk_step ttls) psk_initial psk" and "asked_dovecote http base secret psk"
    and "psk_callback ttls (dovecote_fetch (http now) base secret) now ident out None (ps_cache psk)
      = (n, out', Some (identity, token), cache')"
    and "dtls_connection_thread up szx begun mtu_ok started deadline hs (Some (identity, token)) peer conn_id
      random at reads io = Some final"
    and "dev = \<lparr>ds_pigeon_id = identity, ds_token = token, ds_peer = peer, ds_conn_id = conn_id\<rparr>"
    and "brings up szx dev reads (lossy (e # es)) t (fresh_connection random) at"
    and "awaiting dev leaf 0 (reliable [] (e # es)) t (fresh_connection random)"
    and "t1 = sweep_block1 (at_sweep (dv_times (ex_first e))) (snd (run_block1 (dv_others (ex_first e)) t))"
    and "hm_contains_key t1 (upload_key dev leaf) \<or> hm_len t1 < MAX_BLOCK1_ENTRIES"
    and "on_time (upload_key dev leaf) (at_assemble (dv_times (ex_first e))) (reliable (meanwhile e) es)"
    and "length (bodies (map ex_first (e # es))) \<le> MAX_BLOCK1_BODY"
    and "\<forall>x \<in> set (e # es). exchange_ok x"
    and "requests_of (upload_key dev leaf) (late_events [] (e # es)) = []"
  shows "\<exists>issued_at content_type rs. ident = Some identity \<and> fresh_enough ttls now issued_at
    \<and> issued http base secret issued_at identity (take n out') token
    \<and> map (request_of base_url) (se_calls final) =
        [\<lparr>rq_method = Post,
          rq_url = base_url @ ascii ''/device/pigeons/'' @ identity @ ascii ''/'' @ leaf,
          rq_headers = [(ascii ''Authorization'', ascii ''Bearer '' @ token), (ascii ''Content-Type'', content_type)],
          rq_body = Some (bodies (map ex_first (e # es)))\<rparr>]
    \<and> se_sent final = written (heard (e # es) rs) \<and> length rs = length (e # es) \<and> None \<notin> set rs
    \<and> (\<forall>i < length es. replied (ex_first ((e # es) ! i)) (rs ! i) CONTINUE)"
proof -
  obtain issued_at where i: "ident = Some identity" "fresh_enough ttls now issued_at"
    "issued http base secret issued_at identity (take n out') token"
    using psk_callback_issued [OF assms(1-3)] by blast
  obtain rs ct t' where run: "datagram_run up szx dev (lossy (e # es)) t (fresh_connection random)
      = (heard (e # es) rs, [body_call dev leaf (bodies (map ex_first (e # es))) ct], t')"
    and rs: "length rs = length (e # es)" "None \<notin> set rs"
      "\<forall>i < length es. replied (ex_first ((e # es) ! i)) (rs ! i) CONTINUE"
    using lossy_upload_posted_once [OF assms(7-13)] by blast
  from thread_runs_datagrams [OF assms(4-6) run] have
    "se_sent final = written (heard (e # es) rs)"
    "map (request_of base_url) (se_calls final)
      = [request_of base_url (body_call dev leaf (bodies (map ex_first (e # es))) ct)]" by simp_all
  with i rs show ?thesis unfolding body_call_request by (auto simp: assms(5))
qed

theorem upload_from_handshake_to_dovecote_witness:
  "\<exists>reads final content_type. dtls_connection_thread (\<lambda>_. Inl []) 6 0 True 0 5 [AcceptDone]
       (Some (ascii ''p1'', [7])) [] 1 None 0 reads
       \<lparr>io_queue = [], io_connected = True, io_peer = demo_peer, io_tick = 0, io_deadline = None\<rparr> = Some final
     \<and> map (request_of (ascii ''https://dovecote'')) (se_calls final) =
        [\<lparr>rq_method = Post, rq_url = ascii ''https://dovecote'' @ ascii ''/device/pigeons/'' @ ascii ''p1'' @ ascii ''/'' @ ascii ''shadow'',
          rq_headers = [(ascii ''Authorization'', ascii ''Bearer '' @ [7]), (ascii ''Content-Type'', content_type)],
          rq_body = Some [1, 2, 3]\<rparr>]"
proof -
  let ?g = "fresh_connection None" and ?up = "\<lambda>_. Inl [] :: bytes + upstream_response"
  let ?io = "\<lparr>io_queue = [], io_connected = True, io_peer = demo_peer, io_tick = 0, io_deadline = None\<rparr> :: dgram_io"
  let ?c = "\<lambda>reads. dtls_connection_thread ?up 6 0 True 0 5 [AcceptDone] (Some (ascii ''p1'', [7])) [] 1 None 0
    reads ?io"
  have p1: "from_utf8_ok (ascii ''p1'')" by (rule from_utf8_ok_ascii) simp
  have cb: "psk_callback (fst (new_psk_resolver 60)) (dovecote_fetch (demo_http 0) [] []) 0 (Some (ascii ''p1''))
      [0, 0] None (ps_cache psk_initial) = (2, [5, 6], Some (ascii ''p1'', [7]),
        [(ascii ''p1'', Known \<lparr>pe_psk = [5, 6], pe_token = [7]\<rparr> 0)])"
    using p1 by (simp add: psk_callback_def resolve_psk_identity_def resolve_defs hm_defs psk_initial_def
        dovecote_fetch_def demo_http_def)
  obtain e es where ex: "demo_exchanges = e # es" by (simp add: demo_exchanges_def)
  obtain reads where reads: "brings ?up 6 demo_device reads (lossy (e # es)) [] ?g 0"
    using reads_exist by blast
  obtain final where f: "?c reads = Some final"
    by (auto simp: dtls_connection_thread_def authenticated_session_def Let_def)
  have g: "?g = \<lparr>gc_dedup = new_dedup_cache, gc_next_mid = 0\<rparr>"
    by (simp add: fresh_connection_def rand_u16_def u16_from_be_bytes_def)
  note ready = demo_exchanges_ready [OF ex, folded g]
  have short: "length (bodies (map ex_first (e # es))) \<le> MAX_BLOCK1_BODY"
    unfolding ready(4) by (simp add: MAX_BLOCK1_BODY_def)
  have "\<exists>issued_at content_type rs. Some (ascii ''p1'') = Some (ascii ''p1'')
    \<and> fresh_enough (fst (new_psk_resolver 60)) 0 issued_at
    \<and> issued demo_http [] [] issued_at (ascii ''p1'') (take 2 [5, 6]) [7]
    \<and> map (request_of (ascii ''https://dovecote'')) (se_calls final) =
        [\<lparr>rq_method = Post,
          rq_url = ascii ''https://dovecote'' @ ascii ''/device/pigeons/'' @ ascii ''p1'' @ ascii ''/'' @ ascii ''shadow'',
          rq_headers = [(ascii ''Authorization'', ascii ''Bearer '' @ [7]), (ascii ''Content-Type'', content_type)],
          rq_body = Some (bodies (map ex_first (e # es)))\<rparr>]
    \<and> se_sent final = written (heard (e # es) rs) \<and> length rs = length (e # es) \<and> None \<notin> set rs
    \<and> (\<forall>i < length es. replied (ex_first ((e # es) ! i)) (rs ! i) CONTINUE)"
    by (rule upload_from_handshake_to_dovecote [OF rtranclp.rtrancl_refl demo_asked cb f demo_device_def reads
          ready(1) refl disjI2 [OF ready(2)] ready(3) short ready(5,6)])
  then show ?thesis unfolding ready(4) by (elim exE conjE) (rule exI [of _ reads], rule exI [of _ final], rule exI, rule conjI [OF f])
qed

end
