(* ===== verification/Device_Migration.thy ===== *)
theory Device_Migration
  imports Session_Link
begin

text \<open>
  A device that changes its address, from the listener's socket to the reply: the demultiplexer by
  connection id, the channel to the session's thread, the transport that stages the source, and the
  loop that commits it once a record from there has been authenticated.
\<close>

section \<open>By connection id to the session\<close>

lemma live_session_reached:
  assumes "mbed_reachable q s" and "th \<in> set (mb_threads s)" and "mt_phase th = MbServing True addr_routed"
    and "cid_of dgram = Some (mt_cid th)" and "dgram ! 0 = CONTENT_TYPE_CID"
  shows "mb_listen_datagram q env source dgram s
    = (if length (mb_chans s (mt_chan th)) < CONN_CHANNEL_DEPTH
       then s\<lparr>mb_chans := (mb_chans s)
         (mt_chan th := mb_chans s (mt_chan th) @ [(dgram, canonical_peer source)])\<rparr>
       else s, False)"
proof -
  have "hm_get (mb_by_cid s) (mt_cid th) = Some (mb_handle th)"
    using mbed_reachable_inv [OF assms(1)] assms(2,3) by (simp add: mb_inv_def mb_live_ok_def)
  moreover have "mb_receiver_alive s (mt_chan th)"
    using assms(2,3) by (auto simp: mb_receiver_alive_def)
  moreover have "dgram \<noteq> []" using assms(4) by (auto simp: cid_of_def)
  ultimately show ?thesis
    using assms(4,5) by (simp add: mb_listen_datagram_def route_by_cid_def try_send_def Let_def)
qed

section \<open>By the transport to the loop\<close>

text \<open>A read of the transport: when it was entered, when a wait would end, the buffer, the timer.\<close>

type_synonym transport_read = "instant \<times> instant \<times> nat \<times> timer_state"

definition recv_event :: "transport_read \<Rightarrow> mb_event" where
  "recv_event r = (case r of (now, later, n, tm) \<Rightarrow> MbRecv now later n tm)"

definition fits :: "sourced list \<Rightarrow> transport_read list \<Rightarrow> bool" where
  "fits queue recvs \<longleftrightarrow> list_all2 (\<lambda>fed (now, later, n, tm). length (fst fed) \<le> n) queue recvs"

definition free_running :: "conn_state \<Rightarrow> bool" where
  "free_running io \<longleftrightarrow> cn_pending io = None \<and> cn_deadline io = None"

text \<open>The reads take the queue in order; the source of the last datagram stays staged.\<close>

lemma drained:
  assumes "free_running (ms_io s)" and "fits (cn_queue (ms_io s)) recvs"
  shows "mb_serve up szx show_addr cid_active idle (map recv_event recvs @ es) s
    = mb_serve up szx show_addr cid_active idle es (s\<lparr>ms_io := (ms_io s)\<lparr>cn_queue := [],
        cn_staged_peer := (if recvs = [] then cn_staged_peer (ms_io s) else snd (last (cn_queue (ms_io s))))\<rparr>\<rparr>)"
  using assms
proof (induction recvs arbitrary: s)
  case Nil
  then have "(ms_io s)\<lparr>cn_queue := []\<rparr> = ms_io s" by (cases "ms_io s") (simp add: fits_def)
  then show ?case by simp
next
  case (Cons r recvs)
  obtain now later n tm where r: "r = (now, later, n, tm)" by (metis prod_cases4)
  obtain d src queue where q: "cn_queue (ms_io s) = (d, src) # queue" "length d \<le> n" "fits queue recvs"
    using Cons.prems(2) by (auto simp: fits_def r list_all2_Cons2)
  let ?io = "(ms_io s)\<lparr>cn_queue := queue, cn_staged_peer := src\<rparr>"
  have recv: "conn_recv now later n tm (ms_io s) = ((RecvData (length d), d), ?io)"
    using Cons.prems(1) q by (simp add: conn_recv_def free_running_def deliver_def)
  have "recvs = [] \<longleftrightarrow> queue = []" using q(3) by (auto simp: fits_def)
  with Cons.IH [of "s\<lparr>ms_io := ?io\<rparr>"] Cons.prems(1) q recv show ?case
    by (simp add: r recv_event_def free_running_def)
qed

text \<open>The read the library then authenticates: its source is committed before the answer is written.\<close>

lemma authenticated_read:
  assumes "0 < n" and "sn_write_ok env"
    and "process_datagram up szx (sn_times env) (take n bs) (ms_dev s) (sn_table env) (se_conn (ms_dtls s))
      = (Some reply, t', g', calls)"
    and "mb_serve up szx show_addr True idle [MbReads env (RdData n) bs] s = (go, s')"
  shows "go \<and> ms_out s' = ms_out s @ [(cn_staged_peer (ms_io s), reply)]
    \<and> se_calls (ms_dtls s') = se_calls (ms_dtls s) @ calls
    \<and> cn_committed_peer (ms_io s') = cn_staged_peer (ms_io s) \<and> cn_queue (ms_io s') = cn_queue (ms_io s)
    \<and> \<not> ms_addr_routed s' \<and> same_device (ms_dev s) s'
    \<and> (cn_staged_peer (ms_io s) \<noteq> cn_committed_peer (ms_io s) \<longrightarrow>
        ds_peer (ms_dev s') = show_addr (cn_staged_peer (ms_io s)))"
proof -
  let ?s = "note_read show_addr True (sn_now env) s"
  have "same_device (ms_dev s) s" unfolding same_device_def by (rule exI [of _ "ds_peer (ms_dev s)"]) simp
  then have dev: "same_device (ms_dev s) ?s" by (rule note_read_device)
  then obtain p where p: "ms_dev ?s = (ms_dev s)\<lparr>ds_peer := p\<rparr>" by (auto simp: same_device_def)
  have peers: "cn_committed_peer (ms_io ?s) = cn_staged_peer (ms_io s)" "cn_queue (ms_io ?s) = cn_queue (ms_io s)"
    "\<not> ms_addr_routed ?s" "cn_staged_peer (ms_io s) \<noteq> cn_committed_peer (ms_io s) \<longrightarrow>
      ds_peer (ms_dev ?s) = show_addr (cn_staged_peer (ms_io s))"
    by (auto simp: note_read_def take_migration_def Let_def)
  have "answer_datagram up szx (ms_dev ?s) env (take n bs) (ms_dtls ?s)
      = (True, (ms_dtls ?s)\<lparr>se_conn := g', se_calls := se_calls (ms_dtls s) @ calls,
          se_sent := se_sent (ms_dtls s) @ [reply]\<rparr>)"
    using assms(2,3) by (simp add: answer_datagram_def p)
  then have "mb_answer up szx env (take n bs) ?s = (True, ?s\<lparr>ms_dtls := (ms_dtls ?s)\<lparr>se_conn := g',
      se_calls := se_calls (ms_dtls s) @ calls, se_sent := se_sent (ms_dtls s) @ [reply]\<rparr>,
      ms_out := ms_out s @ [(cn_staged_peer (ms_io s), reply)]\<rparr>)"
    by (simp add: mb_answer_def peers(1))
  with assms(1,4) dev peers show ?thesis by (auto simp: Let_def same_device_def)
qed

section \<open>Properties\<close>

text \<open>C4. A device that changed its address keeps its session: in every reachable state of the listener, a
  datagram that carries the connection id of a serving session is, whatever address it comes from,
  queued for that session and no other when fewer than 32 wait there, and dropped when 32 do;
  nothing is sent and no table changes. When it was queued, the session (its handshake deadline
  disarmed, its buffers as large as the datagrams) has taken its queue, the library returns a
  non-empty authenticated record that has a reply, and the write goes through, then the reply goes to
  the new address, which is the one the session writes to from then on, while pigeon, token and
  connection number, and with them a half-done upload, stay the device's.\<close>

theorem migrated_device_keeps_session:
  assumes "mbed_reachable q sys" and "th \<in> set (mb_threads sys)" and "mt_phase th = MbServing True addr_routed"
    and "cid_of dgram = Some (mt_cid th)" and "dgram ! 0 = CONTENT_TYPE_CID"
    and "mb_listen_datagram q env source dgram sys = (sys', driven)"
    and "free_running (ms_io s)" and "cn_queue (ms_io s) = mb_chans sys' (mt_chan th)"
    and "fits (mb_chans sys' (mt_chan th)) recvs" and "0 < n" and "sn_write_ok e"
    and "process_datagram up szx (sn_times e) (take n bs) (ms_dev s) (sn_table e) (se_conn (ms_dtls s))
      = (Some reply, t', g', calls)"
    and "mb_serve up szx show_addr True idle (map recv_event recvs @ [MbReads e (RdData n) bs]) s = (go, s')"
  shows "\<not> driven \<and> (if CONN_CHANNEL_DEPTH \<le> length (mb_chans sys (mt_chan th)) then sys' = sys else
    sys' = sys\<lparr>mb_chans := (mb_chans sys)
        (mt_chan th := mb_chans sys (mt_chan th) @ [(dgram, canonical_peer source)])\<rparr>
    \<and> go \<and> ms_out s' = ms_out s @ [(canonical_peer source, reply)]
    \<and> se_calls (ms_dtls s') = se_calls (ms_dtls s) @ calls
    \<and> cn_committed_peer (ms_io s') = canonical_peer source \<and> cn_queue (ms_io s') = []
    \<and> ds_pigeon_id (ms_dev s') = ds_pigeon_id (ms_dev s) \<and> ds_token (ms_dev s') = ds_token (ms_dev s)
    \<and> ds_conn_id (ms_dev s') = ds_conn_id (ms_dev s)
    \<and> (canonical_peer source \<noteq> cn_committed_peer (ms_io s) \<longrightarrow>
        ds_peer (ms_dev s') = show_addr (canonical_peer source)))"
proof (cases "length (mb_chans sys (mt_chan th)) < CONN_CHANNEL_DEPTH")
  case False
  then show ?thesis
    using live_session_reached [OF assms(1-5), of env source] assms(6) by simp
next
  case True
  then have sys': "sys' = sys\<lparr>mb_chans := (mb_chans sys)
      (mt_chan th := mb_chans sys (mt_chan th) @ [(dgram, canonical_peer source)])\<rparr>" "\<not> driven"
    using live_session_reached [OF assms(1-5), of env source] assms(6) by simp_all
  then have queue: "cn_queue (ms_io s) = mb_chans sys (mt_chan th) @ [(dgram, canonical_peer source)]"
    using assms(8) by simp
  then have "recvs \<noteq> []" using assms(8,9) by (auto simp: fits_def)
  define s1 where "s1 = s\<lparr>ms_io := (ms_io s)\<lparr>cn_queue := [], cn_staged_peer := canonical_peer source\<rparr>\<rparr>"
  have "fits (cn_queue (ms_io s)) recvs" using assms(8,9) by simp
  from drained [OF assms(7) this, of up szx show_addr True idle "[MbReads e (RdData n) bs]"]
  have run: "mb_serve up szx show_addr True idle [MbReads e (RdData n) bs] s1 = (go, s')"
    unfolding assms(13) s1_def queue using \<open>recvs \<noteq> []\<close> by (simp only: last_snoc snd_conv if_False)
  have "process_datagram up szx (sn_times e) (take n bs) (ms_dev s1) (sn_table e) (se_conn (ms_dtls s1))
      = (Some reply, t', g', calls)"
    using assms(12) by (simp add: s1_def)
  from authenticated_read [OF assms(10,11) this run] sys' True show ?thesis
    by (auto simp: s1_def same_device_def)
qed

text \<open>A session in service; the device behind it pings from another port.\<close>

definition demo_moved :: socket_addr where "demo_moved = \<lparr>sa_ip = V4 8, sa_port = 5\<rparr>"

definition demo_record :: bytes where
  "demo_record = [25, 0xFE, 0xFD, 0, 0, 0, 0, 0, 0, 0, 0, 1, 2, 3, 4, 5, 6, 7, 8, 0, 0]"

definition demo_serving :: mbed_sys where
  "demo_serving = mb_establish mb_demo_thread True mb_demo_state"

definition demo_session :: mbed_session where
  "demo_session = \<lparr>ms_io = \<lparr>cn_queue = [(demo_record, demo_moved)], cn_connected = True,
       cn_committed_peer = mb_demo_peer, cn_staged_peer = mb_demo_peer, cn_pending = None, cn_tick = READ_TICK,
       cn_deadline = None\<rparr>,
     ms_dtls = new_dtls_session None 0,
     ms_dev = \<lparr>ds_pigeon_id = [1], ds_token = [2], ds_peer = [], ds_conn_id = 1\<rparr>,
     ms_addr_routed = True, ms_out = []\<rparr>"

lemma demo_serving_thread:
  "mt_chan (mb_demo_thread\<lparr>mt_phase := MbServing True True\<rparr>) = 0"
  "mb_demo_thread\<lparr>mt_phase := MbServing True True\<rparr> \<in> set (mb_threads demo_serving)"
  "mb_chans demo_serving 0 = []"
  by (simp_all add: demo_serving_def mb_establish_def mb_set_phase_def mb_demo_eq mb_demo_thread_def)

lemma demo_serving_reachable: "mbed_reachable mb_demo_quota demo_serving"
proof -
  have "mbed_step mb_demo_quota mb_demo_state demo_serving"
    unfolding demo_serving_def
    by (rule mbed_step.established) (simp_all add: mb_demo_eq mb_demo_thread_def)
  with mb_demo_reachable show ?thesis by (rule rtranclp.rtrancl_into_rtrancl)
qed

theorem migrated_device_keeps_session_witness:
  "\<forall>tm. ms_out (snd (mb_serve (\<lambda>_. Inl []) 6 (\<lambda>_. []) True 0
      [MbRecv 1 1 1400 tm, MbReads \<lparr>sn_now = 1, sn_times = \<lparr>at_lookup = 1, at_sweep = 1, at_assemble = 1,
         at_record = 1\<rparr>, sn_table = [], sn_write_ok = True\<rparr> (RdData 4) [0x40, 0, 0, 7]] demo_session))
    = [(demo_moved, [0x70, 0, 0, 7])]"
proof
  fix tm :: timer_state
  let ?env = "\<lparr>sn_now = 1, sn_times = \<lparr>at_lookup = 1, at_sweep = 1, at_assemble = 1, at_record = 1\<rparr>,
    sn_table = [], sn_write_ok = True\<rparr>"
  let ?th = "mb_demo_thread\<lparr>mt_phase := MbServing True True\<rparr>" and ?q = mb_demo_quota
  let ?recvs = "[(1, 1, 1400, tm)]"
  have ping: "datagram_decode [0x40, 0, 0, 7] = Inr \<lparr>dg_type = Confirmable, dg_id = 7, dg_message =
      \<lparr>msg_code = EMPTY, msg_token = [], msg_options = [], msg_payload = []\<rparr>\<rparr>"
    by (simp add: datagram_decode_def VERSION_def MAX_TOKEN_LEN_def message_type_from_bits_def
        decode_options_and_payload_def default_message_def u16_from_be_bytes_def EMPTY_def)
  have "datagram_encode \<lparr>dg_type = Reset, dg_id = 7, dg_message = default_message\<rparr> = [0x70, 0, 0, 7]"
    by (simp add: datagram_encode_def VERSION_def MAX_TOKEN_LEN_def u16_to_be_bytes_def
        encode_options_and_payload_def default_message_def)
  with ping have reply: "process_datagram (\<lambda>_. Inl []) 6 (sn_times ?env) (take 4 [0x40, 0, 0, 7])
      (ms_dev demo_session) (sn_table ?env) (se_conn (ms_dtls demo_session))
      = (Some [0x70, 0, 0, 7], [], se_conn (ms_dtls demo_session), [])"
    by (simp add: process_datagram_def)
  have moved: "canonical_peer demo_moved = demo_moved" by (simp add: demo_moved_def canonical_peer_def)
  obtain sys' driven where l: "mb_listen_datagram ?q (mb_demo_env False) demo_moved demo_record demo_serving
      = (sys', driven)" by (metis surj_pair)
  have cid: "cid_of demo_record = Some (mt_cid ?th)" "demo_record ! 0 = CONTENT_TYPE_CID"
    by (simp_all add: demo_record_def cid_of_def mb_demo_thread_def CID_LEN_def CONTENT_TYPE_CID_def)
  have room: "length (mb_chans demo_serving (mt_chan ?th)) < CONN_CHANNEL_DEPTH"
    by (simp only: demo_serving_thread) (simp add: CONN_CHANNEL_DEPTH_def)
  have ph: "mt_phase ?th = MbServing True True" by simp
  have "mb_chans sys' (mt_chan ?th) = [(demo_record, demo_moved)]"
    using live_session_reached [OF demo_serving_reachable demo_serving_thread(2) ph cid] room l
    by (auto simp: demo_serving_thread moved)
  then have io: "free_running (ms_io demo_session)" "cn_queue (ms_io demo_session) = mb_chans sys' (mt_chan ?th)"
    "fits (mb_chans sys' (mt_chan ?th)) ?recvs"
    by (simp_all add: demo_session_def free_running_def fits_def demo_record_def)
  have "0 < (4 :: nat)" "sn_write_ok ?env" by simp_all
  from migrated_device_keeps_session [OF demo_serving_reachable demo_serving_thread(2) ph cid l io this reply
      surjective_pairing, of "\<lambda>_. []" 0] room
  show "ms_out (snd (mb_serve (\<lambda>_. Inl []) 6 (\<lambda>_. []) True 0
      [MbRecv 1 1 1400 tm, MbReads ?env (RdData 4) [0x40, 0, 0, 7]] demo_session))
    = [(demo_moved, [0x70, 0, 0, 7])]"
    by (simp add: recv_event_def moved del: mb_serve.simps) (simp add: demo_session_def)
qed

end
