(* ===== verification/Loft_Main.thy ===== *)
theory Loft_Main
  imports Config Handler
begin

text \<open>
  \<open>loft/src/main.rs\<close>: what the process starts for a configuration, in order, and how it ends: the
  main thread joins the listeners one after the other. Thread spawning and the runtime are
  parameters only through their failure.
\<close>

datatype listener =
    DtlsListener bytes duration
  | DtlsMbedListener bytes duration duration
  | TlsTcpListener bytes duration

datatype start_error = MbedNotBuilt bytes | SpawnFailed listener

text \<open>\<open>spawn_mbed_listener\<close> with and without the \<open>mbedtls\<close> feature.\<close>

definition spawn_mbed_listener ::
  "bool \<Rightarrow> (listener \<Rightarrow> bool) \<Rightarrow> bytes \<Rightarrow> duration \<Rightarrow> duration \<Rightarrow> start_error + listener" where
  "spawn_mbed_listener feature spawns addr cid_idle deadline =
     (if \<not> feature then Inl (MbedNotBuilt addr)
      else if spawns (DtlsMbedListener addr cid_idle deadline)
      then Inr (DtlsMbedListener addr cid_idle deadline)
      else Inl (SpawnFailed (DtlsMbedListener addr cid_idle deadline)))"

definition spawn_plain :: "(listener \<Rightarrow> bool) \<Rightarrow> listener \<Rightarrow> start_error + listener" where
  "spawn_plain spawns l = (if spawns l then Inr l else Inl (SpawnFailed l))"

text \<open>The three joins of \<open>main\<close>: the UDP listener, the canary if any, the TCP listener.\<close>

record running =
  rn_udp :: listener
  rn_canary :: "listener option"
  rn_tcp :: listener

definition start_listeners :: "bool \<Rightarrow> (listener \<Rightarrow> bool) \<Rightarrow> config \<Rightarrow> start_error + running" where
  "start_listeners feature spawns cf =
     (case (case cf_dtls_stack cf of
              Openssl \<Rightarrow> spawn_plain spawns (DtlsListener (cf_udp_listen cf) (cf_handshake_deadline cf))
            | Mbedtls \<Rightarrow> spawn_mbed_listener feature spawns (cf_udp_listen cf) (cf_dtls_cid_idle cf)
                (cf_handshake_deadline cf)) of
        Inl e \<Rightarrow> Inl e
      | Inr udp \<Rightarrow>
          (case (case cf_dtls_mbed_canary_addr cf of
                   None \<Rightarrow> Inr None
                 | Some addr \<Rightarrow> map_sum id Some (spawn_mbed_listener feature spawns addr
                     (cf_dtls_cid_idle cf) (cf_handshake_deadline cf))) of
             Inl e \<Rightarrow> Inl e
           | Inr canary \<Rightarrow>
               (case spawn_plain spawns (TlsTcpListener (cf_tcp_listen cf) (cf_handshake_deadline cf)) of
                  Inl e \<Rightarrow> Inl e
                | Inr tcp \<Rightarrow> Inr \<lparr>rn_udp = udp, rn_canary = canary, rn_tcp = tcp\<rparr>)))"

text \<open>Joining a thread returns once it has exited; None is still waiting.\<close>

fun join_all :: "(listener \<Rightarrow> bool) \<Rightarrow> listener list \<Rightarrow> unit option" where
  "join_all exited [] = Some ()"
| "join_all exited (l # ls) = (if exited l then join_all exited ls else None)"

text \<open>\<open>main\<close> after the start: \<open>Some ()\<close> is the final \<open>bail!\<close>, the process exits with an error.\<close>

definition main_wait :: "running \<Rightarrow> (listener \<Rightarrow> bool) \<Rightarrow> unit option" where
  "main_wait r exited =
     join_all exited ([rn_udp r, rn_tcp r] @ (case rn_canary r of None \<Rightarrow> [] | Some c \<Rightarrow> [c]))"

lemma join_all_iff: "join_all exited ls = Some () \<longleftrightarrow> (\<forall>l \<in> set ls. exited l)"
  by (induction ls) auto

section \<open>Properties\<close>

text \<open>Every listener the process runs carries the configured address and handshake deadline, the stack
  is the selected one, and a build without the mbedTLS feature refuses to start when the
  configuration selects mbedTLS or a canary, instead of serving the other stack.\<close>

theorem started_listeners_match_config:
  assumes "start_listeners feature spawns cf = Inr r"
  shows "(rn_udp r = (case cf_dtls_stack cf of
        Openssl \<Rightarrow> DtlsListener (cf_udp_listen cf) (cf_handshake_deadline cf)
      | Mbedtls \<Rightarrow> DtlsMbedListener (cf_udp_listen cf) (cf_dtls_cid_idle cf) (cf_handshake_deadline cf)))
    \<and> rn_tcp r = TlsTcpListener (cf_tcp_listen cf) (cf_handshake_deadline cf)
    \<and> rn_canary r = map_option (\<lambda>addr. DtlsMbedListener addr (cf_dtls_cid_idle cf)
        (cf_handshake_deadline cf)) (cf_dtls_mbed_canary_addr cf)
    \<and> (feature \<or> cf_dtls_stack cf = Openssl \<and> cf_dtls_mbed_canary_addr cf = None)"
  using assms
  by (auto simp: start_listeners_def spawn_plain_def spawn_mbed_listener_def
      split: sum.splits option.splits dtls_stack.splits if_splits)

theorem started_listeners_match_config_witness:
  "\<exists>r. start_listeners False (\<lambda>_. True)
     \<lparr>cf_udp_listen = [1], cf_tcp_listen = [2], cf_dovecote_url = [], cf_service_secret = [3],
      cf_psk_cache_ttl = 0, cf_dtls_stack = Openssl, cf_dtls_mbed_canary_addr = None,
      cf_dtls_cid_idle = 0, cf_handshake_deadline = 9, cf_udp_max_block_szx = 6\<rparr> = Inr r
     \<and> rn_udp r = DtlsListener [1] 9 \<and> rn_canary r = None"
proof -
  let ?cf = "\<lparr>cf_udp_listen = [1], cf_tcp_listen = [2], cf_dovecote_url = [], cf_service_secret = [3],
      cf_psk_cache_ttl = 0, cf_dtls_stack = Openssl, cf_dtls_mbed_canary_addr = None,
      cf_dtls_cid_idle = 0, cf_handshake_deadline = 9, cf_udp_max_block_szx = 6\<rparr>"
  obtain r where r: "start_listeners False (\<lambda>_. True) ?cf = Inr r"
    by (simp add: start_listeners_def spawn_plain_def)
  from started_listeners_match_config [OF r] r show ?thesis by simp
qed

text \<open>The process ends only when every listener has exited: the joins come one after the other, the
  UDP listener's first, so a TCP or canary listener that dies (or never managed to bind) leaves
  the process running without it as long as the UDP listener lives.\<close>

theorem main_exits_iff_all_listeners_exited:
  "(main_wait r exited = Some () \<longleftrightarrow> exited (rn_udp r) \<and> exited (rn_tcp r)
      \<and> (\<forall>c. rn_canary r = Some c \<longrightarrow> exited c))
   \<and> (\<not> exited (rn_udp r) \<longrightarrow> main_wait r exited = None)"
  by (auto simp: main_wait_def join_all_iff split: option.splits)

theorem main_exits_iff_all_listeners_exited_witness:
  "main_wait \<lparr>rn_udp = DtlsListener [1] 9, rn_canary = None, rn_tcp = TlsTcpListener [2] 9\<rparr>
     (\<lambda>l. l = TlsTcpListener [2] 9) = None"
  using main_exits_iff_all_listeners_exited
    [of "\<lparr>rn_udp = DtlsListener [1] 9, rn_canary = None, rn_tcp = TlsTcpListener [2] 9\<rparr>"
      "\<lambda>l. l = TlsTcpListener [2] 9"] by simp

end
