(* ===== verification/Udp_Admission.thy ===== *)
theory Udp_Admission
  imports Dtls Dtls_Mbed Loft_Main
begin

text \<open>
  The UDP listeners of one process side by side, as \<open>main.rs\<close> starts them: the selected stack and,
  when configured, the mbedTLS canary, each with its own demultiplexer and connection threads, all
  charging one \<open>ConnQuota\<close>. A step of the process is a step of one listener on the shared counts.
  Lemmas: the process refines the specification of fair admission, its connections keep to one
  ceiling and one fair share, and it can always wind down to nothing.
\<close>

section \<open>The listeners of a process\<close>

datatype udp_listener = OverOpenssl dtls_sys | OverMbed mbed_sys

fun listener_start :: "listener \<Rightarrow> udp_listener list" where
  "listener_start (DtlsListener addr deadline) = [OverOpenssl dtls_init]"
| "listener_start (DtlsMbedListener addr cid_idle deadline) = [OverMbed mbed_init]"
| "listener_start (TlsTcpListener addr deadline) = []"

definition udp_listeners :: "running \<Rightarrow> udp_listener list" where
  "udp_listeners r = listener_start (rn_udp r)
     @ (case rn_canary r of None \<Rightarrow> [] | Some l \<Rightarrow> listener_start l)"

fun listener_permits :: "udp_listener \<Rightarrow> conn_permit multiset" where
  "listener_permits (OverOpenssl s) = live_permits s"
| "listener_permits (OverMbed s) = mb_live_permits s"

fun listener_ok :: "udp_listener \<Rightarrow> bool" where
  "listener_ok (OverOpenssl s) = dtls_inv s"
| "listener_ok (OverMbed s) = mb_inv s"

text \<open>The source addresses of the connections of a listener, one for each thread.\<close>

fun listener_sources :: "udp_listener \<Rightarrow> ip_addr list" where
  "listener_sources (OverOpenssl s) = map (\<lambda>t. sa_ip (th_peer t)) (dy_threads s)"
| "listener_sources (OverMbed s) = map (\<lambda>t. sa_ip (mt_peer t)) (mb_threads s)"

fun listener_routes :: "udp_listener \<Rightarrow> nat" where
  "listener_routes (OverOpenssl s) = hm_len (dy_conns s)"
| "listener_routes (OverMbed s) = hm_len (mb_by_addr s) + hm_len (mb_by_cid s)"

text \<open>The counts a listener finds are those of the shared table, whoever changed them last.\<close>

inductive listener_step :: "conn_quota \<Rightarrow> counts \<Rightarrow> udp_listener \<Rightarrow> counts \<Rightarrow> udp_listener \<Rightarrow> bool" for q where
  openssl: "dtls_step q (s\<lparr>dy_counts := c\<rparr>) s' \<Longrightarrow>
     listener_step q c (OverOpenssl s) (dy_counts s') (OverOpenssl s')"
| mbed: "mbed_step q (s\<lparr>mb_counts := c\<rparr>) s' \<Longrightarrow>
     listener_step q c (OverMbed s) (mb_counts s') (OverMbed s')"

inductive process_step :: "conn_quota \<Rightarrow> counts \<times> udp_listener list \<Rightarrow> counts \<times> udp_listener list \<Rightarrow> bool"
  for q where
  listener: "listener_step q c l c' l' \<Longrightarrow>
     process_step q (c, ls1 @ l # ls2) (c', ls1 @ l' # ls2)"

abbreviation process_reachable ::
  "conn_quota \<Rightarrow> running \<Rightarrow> counts \<times> udp_listener list \<Rightarrow> bool" where
  "process_reachable q r st \<equiv> rtranclp (process_step q) (new_counts, udp_listeners r) st"

definition process_permits :: "udp_listener list \<Rightarrow> conn_permit multiset" where
  "process_permits ls = sum_list (map listener_permits ls)"

definition process_sources :: "udp_listener list \<Rightarrow> ip_addr list" where
  "process_sources ls = concat (map listener_sources ls)"

lemma process_permits_split:
  "process_permits (ls1 @ l # ls2)
    = listener_permits l + (process_permits ls1 + process_permits ls2)"
  by (simp add: process_permits_def)

section \<open>The process keeps the books\<close>

lemma counts_are_apart [simp]:
  "dtls_inv (s\<lparr>dy_counts := c\<rparr>) \<longleftrightarrow> dtls_inv s" "mb_inv (m\<lparr>mb_counts := c\<rparr>) \<longleftrightarrow> mb_inv m"
  "live_permits (s\<lparr>dy_counts := c\<rparr>) = live_permits s"
  "mb_live_permits (m\<lparr>mb_counts := c\<rparr>) = mb_live_permits m"
  by (simp_all add: dtls_inv_def chans_ok_def entries_ok_def entry_ok_def stale_def mb_inv_def mb_ids_ok_def mb_maps_ok_def
      mb_live_ok_def live_permits_def mb_live_permits_def)

lemma listener_step_books:
  assumes "listener_step q c l c' l'" and "listener_ok l"
  shows "keeps_books q c (listener_permits l) c' (listener_permits l')" and "listener_ok l'"
proof -
  have "keeps_books q c (listener_permits l) c' (listener_permits l') \<and> listener_ok l'"
    using assms
  proof cases
    case (openssl s s')
    from dtls_step_books [OF openssl(4)] dtls_step_inv [OF openssl(4)] assms(2) openssl
    show ?thesis by simp
  next
    case (mbed s s')
    with assms(2) have inv: "mb_inv (s\<lparr>mb_counts := c\<rparr>)" by simp
    from mbed_step_books [OF mbed(4) inv] mbed_step_inv [OF mbed(4) inv] mbed
    show ?thesis by simp
  qed
  then show "keeps_books q c (listener_permits l) c' (listener_permits l')" "listener_ok l'" by simp_all
qed

definition process_inv :: "conn_quota \<Rightarrow> counts \<times> udp_listener list \<Rightarrow> bool" where
  "process_inv q st \<longleftrightarrow> booked q (fst st) (process_permits (snd st)) \<and> (\<forall>l \<in> set (snd st). listener_ok l)"

lemma process_step_inv:
  assumes "process_inv q st" and "process_step q st st'"
  shows "process_inv q st'"
    and "process_permits (snd st') = process_permits (snd st)
      \<or> fair_step q (process_permits (snd st)) (process_permits (snd st'))"
proof -
  from assms(2) obtain c l c' l' ls1 ls2 where st: "st = (c, ls1 @ l # ls2)" "st' = (c', ls1 @ l' # ls2)"
    and l: "listener_step q c l c' l'" by (cases rule: process_step.cases)
  have ok: "listener_ok l" and b: "booked q c (listener_permits l + (process_permits ls1 + process_permits ls2))"
    using assms(1) by (auto simp: process_inv_def st process_permits_split)
  note k = listener_step_books [OF l ok]
  from k(1) b have "booked q c' (listener_permits l' + (process_permits ls1 + process_permits ls2))
      \<and> (listener_permits l' = listener_permits l
         \<or> fair_step q (listener_permits l + (process_permits ls1 + process_permits ls2))
             (listener_permits l' + (process_permits ls1 + process_permits ls2)))"
    unfolding keeps_books_def by blast
  with assms(1) k(2) show "process_inv q st'" "process_permits (snd st') = process_permits (snd st)
      \<or> fair_step q (process_permits (snd st)) (process_permits (snd st'))"
    by (auto simp: process_inv_def st process_permits_split)
qed

lemma listener_start_ok:
  "l \<in> set (listener_start x) \<Longrightarrow> listener_ok l \<and> listener_permits l = {#}"
  by (cases x) (auto simp: dtls_inv_init mb_inv_init live_permits_def mb_live_permits_def,
      simp_all add: dtls_init_def mbed_init_def)

lemma process_inv_start: "process_inv q (new_counts, udp_listeners r)"
proof -
  have start: "listener_ok l \<and> listener_permits l = {#}" if "l \<in> set (udp_listeners r)" for l
    using that listener_start_ok by (auto simp: udp_listeners_def split: option.splits)
  moreover have "sum_list (map listener_permits ls) = {#}"
    if "\<forall>l \<in> set ls. listener_permits l = {#}" for ls
    using that by (induction ls) auto
  ultimately show ?thesis by (simp add: process_inv_def process_permits_def booked_new)
qed

lemma process_reachable_inv: "process_reachable q r st \<Longrightarrow> process_inv q st"
  by (induction rule: rtranclp_induct) (auto intro: process_inv_start process_step_inv)

section \<open>Permits are sources\<close>

lemma listener_permits_sources:
  assumes "listener_ok l"
  shows "listener_permits l = mset (map (\<lambda>ip. ConnPermit (bucket ip)) (listener_sources l))"
proof (cases l)
  case (OverOpenssl s)
  have "map th_permit (dy_threads s) = map (\<lambda>t. ConnPermit (bucket (sa_ip (th_peer t)))) (dy_threads s)"
    using assms OverOpenssl by (auto simp: dtls_inv_def entries_ok_def)
  then show ?thesis
    unfolding OverOpenssl listener_permits.simps listener_sources.simps live_permits_def map_map comp_def by (rule arg_cong)
next
  case (OverMbed s)
  have "map mt_permit (mb_threads s) = map (\<lambda>t. ConnPermit (bucket (sa_ip (mt_peer t)))) (mb_threads s)"
    using assms OverMbed by (auto simp: mb_inv_def mb_ids_ok_def)
  then show ?thesis
    unfolding OverMbed listener_permits.simps listener_sources.simps mb_live_permits_def map_map comp_def by (rule arg_cong)
qed

lemma process_permits_sources:
  assumes "\<forall>l \<in> set ls. listener_ok l"
  shows "process_permits ls = mset (map (\<lambda>ip. ConnPermit (bucket ip)) (process_sources ls))"
  using assms listener_permits_sources
  by (induction ls) (auto simp: process_permits_def process_sources_def simp del: mset_map)

lemma count_buckets:
  "count (mset (map (\<lambda>ip. ConnPermit (bucket ip)) ips)) (ConnPermit b)
    = length (filter (\<lambda>ip. bucket ip = b) ips)"
  by (induction ips) auto


section \<open>Winding down\<close>

text \<open>A run of one listener is a run of the process; \<open>s\<close> itself may hold older counts.\<close>

lemma lift_openssl:
  assumes "rtranclp (dtls_step q) (s\<lparr>dy_counts := c\<rparr>) s'"
  shows "s' = s\<lparr>dy_counts := c\<rparr> \<or> rtranclp (process_step q) (c, ls1 @ OverOpenssl s # ls2)
    (dy_counts s', ls1 @ OverOpenssl s' # ls2)"
  using assms
proof (induction rule: rtranclp_induct)
  case (step y z)
  show ?case
    using step.IH
  proof
    assume "y = s\<lparr>dy_counts := c\<rparr>"
    with step.hyps(2) show ?thesis by (auto intro: process_step.listener listener_step.openssl)
  next
    assume r: "rtranclp (process_step q) (c, ls1 @ OverOpenssl s # ls2)
      (dy_counts y, ls1 @ OverOpenssl y # ls2)"
    have "dtls_step q (y\<lparr>dy_counts := dy_counts y\<rparr>) z" using step.hyps(2) by simp
    from process_step.listener [OF listener_step.openssl [OF this]] r show ?thesis
      by (blast intro: rtranclp.rtrancl_into_rtrancl)
  qed
qed simp

lemma lift_mbed:
  assumes "rtranclp (mbed_step q) (s\<lparr>mb_counts := c\<rparr>) s'"
  shows "s' = s\<lparr>mb_counts := c\<rparr> \<or> rtranclp (process_step q) (c, ls1 @ OverMbed s # ls2)
    (mb_counts s', ls1 @ OverMbed s' # ls2)"
  using assms
proof (induction rule: rtranclp_induct)
  case (step y z)
  show ?case
    using step.IH
  proof
    assume "y = s\<lparr>mb_counts := c\<rparr>"
    with step.hyps(2) show ?thesis by (auto intro: process_step.listener listener_step.mbed)
  next
    assume r: "rtranclp (process_step q) (c, ls1 @ OverMbed s # ls2)
      (mb_counts y, ls1 @ OverMbed y # ls2)"
    have "mbed_step q (y\<lparr>mb_counts := mb_counts y\<rparr>) z" using step.hyps(2) by simp
    from process_step.listener [OF listener_step.mbed [OF this]] r show ?thesis
      by (blast intro: rtranclp.rtrancl_into_rtrancl)
  qed
qed simp

text \<open>
  A listener without connections and without routes. Over OpenSSL a thread that panicked may have
  left an entry; the listener winds down when the peers of these send once more.
\<close>

definition wound_down :: "udp_listener \<Rightarrow> bool" where
  "wound_down l \<longleftrightarrow> listener_sources l = [] \<and> listener_routes l = 0"

lemma listener_winds_down:
  assumes "listener_ok l"
  shows "\<exists>c' l'. rtranclp (process_step q) (c, ls1 @ l # ls2) (c', ls1 @ l' # ls2) \<and> wound_down l'"
proof (cases l)
  case (OverOpenssl s)
  have "dtls_inv (s\<lparr>dy_counts := c\<rparr>)" using assms OverOpenssl by simp
  from dtls_winds_down [OF this] obtain s' where s': "rtranclp (dtls_step q) (s\<lparr>dy_counts := c\<rparr>) s'"
    "wound_down (OverOpenssl s')" by (auto simp: wound_down_def hm_len_def)
  from lift_openssl [OF s'(1), of ls1 ls2] show ?thesis
  proof
    assume "s' = s\<lparr>dy_counts := c\<rparr>"
    with s'(2) show ?thesis unfolding OverOpenssl
      by (intro exI [of _ c] exI [of _ "OverOpenssl s"]) (simp add: wound_down_def)
  qed (use s'(2) OverOpenssl in \<open>auto intro!: exI\<close>)
next
  case (OverMbed s)
  obtain s' where r: "rtranclp (mbed_step q) (s\<lparr>mb_counts := c\<rparr>) s'" and e: "mb_threads s' = []"
    using mb_threads_end by blast
  have "mb_inv (s\<lparr>mb_counts := c\<rparr>)" using assms OverMbed by simp
  with r have "mb_inv s'" by (induction rule: rtranclp_induct) (auto intro: mbed_step_inv)
  with mb_inv_no_threads [OF _ e] e have "wound_down (OverMbed s')"
    by (simp add: wound_down_def hm_len_def)
  with r have s': "rtranclp (mbed_step q) (s\<lparr>mb_counts := c\<rparr>) s'" "wound_down (OverMbed s')" by simp_all
  from lift_mbed [OF s'(1), of ls1 ls2] show ?thesis
  proof
    assume "s' = s\<lparr>mb_counts := c\<rparr>"
    with s'(2) show ?thesis unfolding OverMbed
      by (intro exI [of _ c] exI [of _ "OverMbed s"]) (simp add: wound_down_def)
  qed (use s'(2) OverMbed in \<open>auto intro!: exI\<close>)
qed

lemma process_winds_down:
  assumes "\<forall>l \<in> set ls2. listener_ok l"
  shows "\<exists>c' ls'. rtranclp (process_step q) (c, ls1 @ ls2) (c', ls1 @ ls') \<and> (\<forall>l \<in> set ls'. wound_down l)"
  using assms
proof (induction ls2 arbitrary: c ls1)
  case Nil
  show ?case by (intro exI [of _ c] exI [of _ "[]"]) simp
next
  case (Cons l ls)
  obtain c1 l1 where l1: "rtranclp (process_step q) (c, ls1 @ l # ls) (c1, (ls1 @ [l1]) @ ls)"
    "wound_down l1"
    using listener_winds_down [of l q c ls1 ls] Cons.prems by auto
  obtain c2 ls' where "rtranclp (process_step q) (c1, (ls1 @ [l1]) @ ls) (c2, (ls1 @ [l1]) @ ls')"
    "\<forall>l \<in> set ls'. wound_down l"
    using Cons.IH Cons.prems by fastforce
  with l1 show ?case
    by (intro exI [of _ c2] exI [of _ "l1 # ls'"]) (auto intro: rtranclp_trans)
qed

section \<open>A process with a canary\<close>

definition demo_running :: running where
  "demo_running = \<lparr>rn_udp = DtlsListener [1] 9, rn_canary = Some (DtlsMbedListener [2] 9 9),
     rn_tcp = TlsTcpListener [1] 9\<rparr>"

definition demo_listeners :: "mbed_sys \<Rightarrow> udp_listener list" where
  "demo_listeners m = [OverOpenssl dtls_init, OverMbed m]"

lemma demo_start: "udp_listeners demo_running = demo_listeners mbed_init"
  by (simp add: udp_listeners_def demo_running_def demo_listeners_def)

lemma demo_process:
  "process_reachable mb_demo_quota demo_running (mb_counts mb_demo_state, demo_listeners mb_demo_state)"
proof -
  have i: "mbed_init\<lparr>mb_counts := new_counts\<rparr> = mbed_init" by (simp add: mbed_init_def)
  have "mbed_reachable mb_demo_quota mb_demo_state" by (rule mb_demo_reachable)
  then have r: "rtranclp (mbed_step mb_demo_quota) (mbed_init\<lparr>mb_counts := new_counts\<rparr>) mb_demo_state"
    unfolding i .
  have "mb_threads mb_demo_state \<noteq> mb_threads mbed_init" by (simp add: mb_demo_eq mbed_init_def)
  then have "mb_demo_state \<noteq> mbed_init\<lparr>mb_counts := new_counts\<rparr>" unfolding i by metis
  with lift_mbed [OF r, of "[OverOpenssl dtls_init]" "[]"] show ?thesis
    unfolding demo_start demo_listeners_def by simp
qed

section \<open>Properties\<close>

text \<open>C7. Admission over all UDP listeners is fair admission: with the selected stack and the canary
  running side by side on one quota, every step of the process, of whichever listener, moves the
  bag of live permits by at most one step of the specification (a connection joins where the
  ceiling and its bucket's share leave room, or one leaves), and the permits are exactly the
  connections' sources.\<close>

theorem process_refines_fair_admission:
  assumes "process_reachable q r st" and "process_step q st st'"
  shows "(process_permits (snd st') = process_permits (snd st)
      \<or> fair_step q (process_permits (snd st)) (process_permits (snd st')))
    \<and> process_permits (snd st') = mset (map (\<lambda>ip. ConnPermit (bucket ip)) (process_sources (snd st')))"
proof -
  note inv = process_reachable_inv [OF assms(1)]
  from process_step_inv(1) [OF inv assms(2)] have "\<forall>l \<in> set (snd st'). listener_ok l"
    by (simp add: process_inv_def)
  with process_step_inv(2) [OF inv assms(2)] process_permits_sources show ?thesis by blast
qed

theorem process_refines_fair_admission_witness:
  "fair_step mb_demo_quota {#} {#ConnPermit (bucket (V4 7))#}"
proof -
  have i: "mbed_init\<lparr>mb_counts := new_counts\<rparr> = mbed_init" by (simp add: mbed_init_def)
  have "mbed_step mb_demo_quota (mbed_init\<lparr>mb_counts := new_counts\<rparr>) mb_demo_state"
    unfolding i mb_demo_state_def by (rule mbed_step.datagram)
  from process_step.listener [OF listener_step.mbed [OF this], of "[OverOpenssl dtls_init]" "[]"]
  have st: "process_step mb_demo_quota (new_counts, demo_listeners mbed_init)
      (mb_counts mb_demo_state, demo_listeners mb_demo_state)"
    by (simp add: demo_listeners_def)
  have "process_reachable mb_demo_quota demo_running (new_counts, demo_listeners mbed_init)"
    by (simp add: demo_start)
  from process_refines_fair_admission [OF this st] show ?thesis
    by (simp add: process_permits_def demo_listeners_def live_permits_def mb_live_permits_def
        dtls_init_def mbed_init_def process_sources_def mb_demo_eq mb_demo_thread_def mb_demo_peer_def)
qed

text \<open>C9. A canary listener cannot double any source's share: over both UDP listeners together there are
  never more connections than the ceiling nor, from one bucket, more than the fair share, and the
  shared count is the number of connections.\<close>

theorem process_connections_bounded:
  assumes "process_reachable q r (c, ls)"
  shows "length (process_sources ls) \<le> max_total q \<and> ct_total c = length (process_sources ls)
    \<and> (\<forall>b. length (filter (\<lambda>ip. bucket ip = b) (process_sources ls)) \<le> max_per_ip q)"
proof -
  note inv = process_reachable_inv [OF assms(1)]
  then have b: "booked q c (process_permits ls)" and ok: "\<forall>l \<in> set ls. listener_ok l"
    by (simp_all add: process_inv_def)
  note P = process_permits_sources [OF ok]
  have "length (filter (\<lambda>ip. bucket ip = b') (process_sources ls)) \<le> max_per_ip q" for b'
    using booked_bounds(3) [OF b, of "ConnPermit b'"] unfolding P count_buckets .
  with booked_bounds(1,2) [OF b] show ?thesis unfolding P by simp
qed

theorem process_connections_bounded_witness:
  "length (process_sources (demo_listeners mb_demo_state)) = 1
   \<and> ct_total (mb_counts mb_demo_state) = length (process_sources (demo_listeners mb_demo_state))"
proof -
  have "process_sources (demo_listeners mb_demo_state) = [sa_ip (mt_peer mb_demo_thread)]"
    by (simp add: process_sources_def demo_listeners_def dtls_init_def mb_demo_eq)
  with process_connections_bounded [OF demo_process] show ?thesis by simp
qed

text \<open>C8. No slot and no route is ever lost, panics of connection threads included: from every state the
  process can reach, its connections can all end (and the peers whose thread panicked send once
  more), and then no listener holds a route, the quota counts nothing and admits any source
  again.\<close>

theorem process_can_wind_down:
  assumes "process_reachable q r st" and "0 < max_total q" and "0 < max_per_ip q"
  shows "\<exists>c ls. rtranclp (process_step q) st (c, ls) \<and> process_sources ls = []
    \<and> (\<forall>l \<in> set ls. listener_routes l = 0) \<and> ct_total c = 0
    \<and> (\<forall>ip. fst (try_acquire q ip c) \<noteq> None)"
proof -
  have "\<forall>l \<in> set (snd st). listener_ok l" using process_reachable_inv [OF assms(1)] by (simp add: process_inv_def)
  then obtain c ls where run: "rtranclp (process_step q) st (c, ls)" and idle: "\<forall>l \<in> set ls. wound_down l"
    using process_winds_down [of "snd st" q "fst st" "[]"] by auto
  from assms(1) run have "process_reachable q r (c, ls)" by (rule rtranclp_trans)
  from process_reachable_inv [OF this] have b: "booked q c (process_permits ls)"
    and ok: "\<forall>l \<in> set ls. listener_ok l" by (simp_all add: process_inv_def)
  have none: "process_sources ls = []" using idle by (simp add: process_sources_def wound_down_def)
  with process_permits_sources [OF ok] b have "booked q c {#}" by simp
  from booked_empty_admits [OF this assms(2,3)] run none idle
  show ?thesis unfolding wound_down_def by blast
qed

theorem process_can_wind_down_witness:
  "\<exists>c ls. rtranclp (process_step mb_demo_quota) (mb_counts mb_demo_state, demo_listeners mb_demo_state) (c, ls)
     \<and> process_sources ls = [] \<and> ct_total c = 0"
proof -
  have "0 < max_total mb_demo_quota" "0 < max_per_ip mb_demo_quota" by (simp_all add: mb_demo_quota_def)
  from process_can_wind_down [OF demo_process this] show ?thesis by blast
qed

end
