(* ===== verification/Pending_Listen.thy ===== *)
theory Pending_Listen
  imports Dtls Dtls_Mbed
begin

text \<open>
  The pending stream: the one object through which a UDP listener serves every source that has not
  proven its address. Both listeners keep it from stranger to stranger, stamp it with the source of
  each datagram and feed it that datagram alone. The locale \<open>pending_stream\<close> is what that asks of the
  transport; its lemma is that no stranger is sent, or read as, another. What the TLS library does
  with the transport in one call is a parameter: a list of reads and writes.
\<close>

section \<open>Reads and writes of one call of the library\<close>

datatype 'x listen_act = ActRead instant nat 'x | ActWrite bytes

fun is_read :: "'x listen_act \<Rightarrow> bool" where
  "is_read (ActRead now n x) = True"
| "is_read (ActWrite buf) = False"

text \<open>What the reads delivered, and what was sent where.\<close>

fun io_acts ::
  "(instant \<Rightarrow> nat \<Rightarrow> 'x \<Rightarrow> 'io \<Rightarrow> 'r \<times> 'io) \<Rightarrow> ('r \<Rightarrow> bytes option) \<Rightarrow> (bytes \<Rightarrow> 'io \<Rightarrow> socket_addr \<times> bytes)
   \<Rightarrow> 'x listen_act list \<Rightarrow> 'io \<Rightarrow> (bytes list \<times> (socket_addr \<times> bytes) list) \<times> 'io" where
  "io_acts read data_of write [] io = (([], []), io)"
| "io_acts read data_of write (ActRead now n x # as) io = (case read now n x io of (r, io1) \<Rightarrow>
     (case io_acts read data_of write as io1 of ((ds, sent), io2) \<Rightarrow>
       (((case data_of r of None \<Rightarrow> ds | Some d \<Rightarrow> d # ds), sent), io2)))"
| "io_acts read data_of write (ActWrite buf # as) io =
     (case io_acts read data_of write as io of ((ds, sent), io2) \<Rightarrow> ((ds, write buf io # sent), io2))"

text \<open>
  One datagram of an unknown source, as it arrived: what the library does with it, and whether the
  stream is kept for the next stranger (it is taken by a promotion, dropped on an error).
\<close>

datatype 'x hello = Hello (hello_source: socket_addr) (hello_dgram: bytes)
  (hello_acts: "'x listen_act list") (hello_kept: bool)

text \<open>A stream that cannot be fed is dropped; a missing one is built when the next datagram comes.\<close>

fun pending_run ::
  "(socket_addr \<Rightarrow> bytes \<Rightarrow> 'io \<Rightarrow> 'io option) \<Rightarrow> ('x listen_act list \<Rightarrow> 'io \<Rightarrow> 'log \<times> 'io) \<Rightarrow> 'io
   \<Rightarrow> 'x hello list \<Rightarrow> 'io option \<Rightarrow> ('log \<times> 'io) option list" where
  "pending_run feed act fresh [] cur = []"
| "pending_run feed act fresh (Hello source dgram as kept # hs) cur =
     (case feed (canonical_peer source) dgram (case cur of None \<Rightarrow> fresh | Some io \<Rightarrow> io) of
        None \<Rightarrow> None # pending_run feed act fresh hs None
      | Some io \<Rightarrow> (case act as io of (log, io') \<Rightarrow>
          Some (log, io') # pending_run feed act fresh hs (if kept then Some io' else None)))"

section \<open>The contract\<close>

locale pending_stream = datagram_source read data_of arrive waiting deadline
  for read :: "instant \<Rightarrow> nat \<Rightarrow> 'x \<Rightarrow> 'io \<Rightarrow> 'r \<times> 'io" and data_of and arrive and waiting and deadline +
  fixes emit :: "bytes \<Rightarrow> 'io \<Rightarrow> socket_addr \<times> bytes"
    and target :: "'io \<Rightarrow> socket_addr"
    and feed :: "socket_addr \<Rightarrow> bytes \<Rightarrow> 'io \<Rightarrow> 'io option"
    and idle :: "'io \<Rightarrow> bool"
    and settles :: "'x listen_act list \<Rightarrow> bool"
  assumes fed: "idle io \<Longrightarrow> \<exists>io'. feed p d io = Some io' \<and> target io' = p \<and> waiting io' = [d]"
    and writes_to: "fst (emit buf io) = target io"
    and read_keeps_target: "target (snd (read now n x io)) = target io"
    and settled: "idle io \<Longrightarrow> feed p d io = Some io' \<Longrightarrow> settles as \<Longrightarrow>
      idle (snd (io_acts read data_of emit as io'))"
begin

lemma acts_of_one:
  "io_acts read data_of emit as io = ((ds, sent), io') \<Longrightarrow>
   subseq ds (waiting io) \<and> target io' = target io \<and> fst ` set sent \<subseteq> {target io}"
proof (induction as arbitrary: io ds sent io')
  case Nil
  then show ?case by simp
next
  case (Cons a as)
  show ?case
  proof (cases a)
    case (ActWrite buf)
    with Cons.prems obtain sent1 where i: "io_acts read data_of emit as io = ((ds, sent1), io')"
      and s: "sent = emit buf io # sent1" by (auto split: prod.splits)
    from Cons.IH [OF i] s writes_to show ?thesis by simp
  next
    case (ActRead now n x)
    obtain r io1 where r: "read now n x io = (r, io1)" by fastforce
    obtain ds1 sent1 io2 where i: "io_acts read data_of emit as io1 = ((ds1, sent1), io2)"
      by (metis surj_pair)
    have t: "target io1 = target io" using read_keeps_target [of now n x io] r by simp
    show ?thesis
    proof (cases "data_of r")
      case None
      then obtain gone where "waiting io = gone @ waiting io1" using drops [of now n x io] r by auto
      with Cons.IH [OF i] Cons.prems ActRead r i t None show ?thesis
        by (auto intro: list_emb_append2)
    next
      case (Some d)
      then have "waiting io = d # waiting io1" using whole [of now n x io] r by simp
      with Cons.IH [OF i] Cons.prems ActRead r i t Some show ?thesis by auto
    qed
  qed
qed

text \<open>Every stranger is fed, is the only one heard and the only one spoken to.\<close>

lemma one_stranger_at_a_time:
  assumes "idle fresh" and "\<forall>h \<in> set hs. settles (hello_acts h)"
    and "\<forall>io. cur = Some io \<longrightarrow> idle io"
  shows "list_all2 (\<lambda>h log. \<exists>ds sent io. log = Some ((ds, sent), io) \<and> subseq ds [hello_dgram h]
      \<and> fst ` set sent \<subseteq> {canonical_peer (hello_source h)}
      \<and> target io = canonical_peer (hello_source h) \<and> idle io)
    hs (pending_run feed (io_acts read data_of emit) fresh hs cur)"
  using assms(2,3)
proof (induction hs arbitrary: cur)
  case Nil
  then show ?case by simp
next
  case (Cons h hs)
  obtain source dgram as kept where h: "h = Hello source dgram as kept" by (cases h)
  let ?io = "case cur of None \<Rightarrow> fresh | Some io \<Rightarrow> io"
  have "idle ?io" using assms(1) Cons.prems(2) by (cases cur) auto
  with fed obtain io1 where f: "feed (canonical_peer source) dgram ?io = Some io1"
    and t: "target io1 = canonical_peer source" and w: "waiting io1 = [dgram]" by blast
  obtain ds sent io2 where a: "io_acts read data_of emit as io1 = ((ds, sent), io2)"
    by (metis surj_pair)
  have i: "idle io2" using settled [OF \<open>idle ?io\<close> f, of as] Cons.prems(1) a h by simp
  have rest: "\<forall>io. (if kept then Some io2 else None) = Some io \<longrightarrow> idle io" using i by simp
  from acts_of_one [OF a] t w i Cons.IH [OF _ rest] Cons.prems(1) show ?case
    by (simp add: h f a)
qed

end

section \<open>OpenSSL\<close>

text \<open>
  \<open>PendingListen::new\<close> of \<open>dtls.rs\<close>: \<open>0.0.0.0:0\<close> until stamped, no wait, no deadline. None when the
  session, the socket's clone or the stream cannot be had.
\<close>

definition pending_io :: dgram_io where
  "pending_io = \<lparr>io_queue = [], io_connected = True, io_peer = \<lparr>sa_ip = V4 0, sa_port = 0\<rparr>,
     io_tick = 0, io_deadline = None\<rparr>"

definition pending_new :: "bool \<Rightarrow> bool \<Rightarrow> bool \<Rightarrow> dgram_io option" where
  "pending_new ssl_ok clone_ok stream_ok =
     (if \<not> ssl_ok then None else if \<not> clone_ok then None else if \<not> stream_ok then None
      else Some pending_io)"

text \<open>The source is stamped, the datagram queued; a full queue has the stream rebuilt.\<close>

definition feed_pending :: "socket_addr \<Rightarrow> bytes \<Rightarrow> dgram_io \<Rightarrow> dgram_io option" where
  "feed_pending peer dgram io = (case try_send True (io_queue io) dgram of
     Sent queue \<Rightarrow> Some (io\<lparr>io_peer := peer, io_queue := queue\<rparr>)
   | _ \<Rightarrow> None)"

abbreviation openssl_acts :: "unit listen_act list \<Rightarrow> dgram_io
    \<Rightarrow> (bytes list \<times> (socket_addr \<times> bytes) list) \<times> dgram_io" where
  "openssl_acts \<equiv> io_acts (\<lambda>now n (_ :: unit). dgram_read now n) read_data dgram_write"

definition openssl_idle :: "dgram_io \<Rightarrow> bool" where
  "openssl_idle io \<longleftrightarrow> io_queue io = [] \<and> io_connected io \<and> io_tick io = 0 \<and> io_deadline io = None"

lemma openssl_acts_keep:
  "io_acts (\<lambda>now n (_ :: unit). dgram_read now n) read_data dgram_write as io = (log, io')
   \<Longrightarrow> io_deadline io = None \<Longrightarrow>
   io_connected io' = io_connected io \<and> io_tick io' = io_tick io \<and> io_deadline io' = None
   \<and> (length (io_queue io) \<le> 1 \<and> (io_queue io = [] \<or> (\<exists>a \<in> set as. is_read a)) \<longrightarrow> io_queue io' = [])"
proof (induction as arbitrary: io log)
  case Nil
  then show ?case by auto
next
  case (Cons a as)
  show ?case
  proof (cases a)
    case (ActWrite buf)
    then obtain log1 where "openssl_acts as io = (log1, io')"
      using Cons.prems(1) by (auto split: prod.splits)
    from Cons.IH [OF this Cons.prems(2)] ActWrite show ?thesis by auto
  next
    case (ActRead now n x)
    obtain r io1 where r: "dgram_read now n io = (r, io1)" by fastforce
    obtain log1 where i: "openssl_acts as io1 = (log1, io')"
      using Cons.prems(1) ActRead r by (auto split: prod.splits)
    have "io1 = io\<lparr>io_queue := tl (io_queue io)\<rparr>"
      using r Cons.prems(2) by (auto simp: dgram_read_def split: list.splits)
    then have "io_deadline io1 = None" "io_connected io1 = io_connected io" "io_tick io1 = io_tick io"
      "length (io_queue io) \<le> 1 \<longrightarrow> io_queue io1 = []"
      using Cons.prems(2) by (auto simp: length_Suc_conv le_Suc_eq)
    with Cons.IH [OF i] show ?thesis by auto
  qed
qed

interpretation openssl: pending_stream "\<lambda>now n (_ :: unit). dgram_read now n" read_data io_arrive
  io_queue io_deadline dgram_write io_peer feed_pending openssl_idle "\<lambda>as. \<exists>a \<in> set as. is_read a"
proof unfold_locales
  show "\<exists>io'. feed_pending p d io = Some io' \<and> io_peer io' = p \<and> io_queue io' = [d]"
    if "openssl_idle io" for io p d
    using that by (simp add: openssl_idle_def feed_pending_def try_send_def CONN_CHANNEL_DEPTH_def)
  show "fst (dgram_write buf io) = io_peer io" for buf io
    by (simp add: dgram_write_def)
  show "io_peer (snd (dgram_read now n io)) = io_peer io" for now n io
    by (auto simp: dgram_read_def split: list.splits option.splits)
  show "openssl_idle (snd (openssl_acts as io'))"
    if "openssl_idle io" and "feed_pending p d io = Some io'" and "\<exists>a \<in> set as. is_read a" for io p d io' as
  proof -
    have io': "io' = io\<lparr>io_peer := p, io_queue := [d]\<rparr>" and "io_deadline io' = None"
      using that(1,2)
      by (auto simp: openssl_idle_def feed_pending_def try_send_def CONN_CHANNEL_DEPTH_def)
    obtain log io2 where a: "openssl_acts as io' = (log, io2)" by fastforce
    from openssl_acts_keep [OF a \<open>io_deadline io' = None\<close>] that(1,3) io' a show ?thesis
      by (simp add: openssl_idle_def)
  qed
qed

section \<open>mbedTLS\<close>

text \<open>\<open>Session::new\<close>: the context allocated and set up, no credentials, the timer cancelled.\<close>

record 'io session_ctx =
  sx_psk :: psk_session
  sx_timer :: timer_state
  sx_io :: 'io

definition session_new :: "bool \<Rightarrow> int \<Rightarrow> 'io \<Rightarrow> int + 'io session_ctx" where
  "session_new alloc_ok setup_rc io =
     (if \<not> alloc_ok then Inl ERR_NET_RECV_FAILED
      else if setup_rc \<noteq> 0 then Inl setup_rc
      else Inr \<lparr>sx_psk = \<lparr>pk_credentials = None, pk_hs_psk = None\<rparr>, sx_timer = timer_new, sx_io = io\<rparr>)"

text \<open>\<open>PendingListen::new\<close> of \<open>dtls_mbed.rs\<close>; None when the socket or the session cannot be had.\<close>

definition mb_pending_new :: "bool \<Rightarrow> bool \<Rightarrow> int \<Rightarrow> conn_state session_ctx option" where
  "mb_pending_new clone_ok alloc_ok setup_rc =
     (let nowhere = \<lparr>sa_ip = V4 0, sa_port = 0\<rparr> in
      if \<not> clone_ok then None
      else (case session_new alloc_ok setup_rc
          \<lparr>cn_queue = [], cn_connected = True, cn_committed_peer = nowhere, cn_staged_peer = nowhere,
           cn_pending = None, cn_tick = 0, cn_deadline = None\<rparr> of
        Inl _ \<Rightarrow> None
      | Inr session \<Rightarrow> Some session))"

text \<open>The source is stamped, the datagram put into the one-shot slot.\<close>

definition mb_feed_pending :: "socket_addr \<Rightarrow> bytes \<Rightarrow> conn_state \<Rightarrow> conn_state" where
  "mb_feed_pending peer dgram io =
     io\<lparr>cn_committed_peer := peer, cn_staged_peer := peer, cn_pending := Some (dgram, peer)\<rparr>"

text \<open>A write goes to the committed peer, as \<open>conn_send\<close> has it.\<close>

definition mb_write :: "bytes \<Rightarrow> conn_state \<Rightarrow> socket_addr \<times> bytes" where
  "mb_write buf io = (cn_committed_peer io, buf)"

abbreviation mbed_acts :: "(instant \<times> timer_state) listen_act list \<Rightarrow> conn_state
    \<Rightarrow> (bytes list \<times> (socket_addr \<times> bytes) list) \<times> conn_state" where
  "mbed_acts \<equiv> io_acts (\<lambda>now n (later, tm). conn_recv now later n tm) recv_data mb_write"

definition mbed_idle :: "conn_state \<Rightarrow> bool" where
  "mbed_idle io \<longleftrightarrow> cn_queue io = [] \<and> cn_connected io \<and> cn_tick io = 0 \<and> cn_deadline io = None"

lemma conn_recv_idle:
  "mbed_idle io \<Longrightarrow> mbed_idle (snd (conn_recv now later n tm io))"
  "cn_committed_peer (snd (conn_recv now later n tm io)) = cn_committed_peer io"
  by (auto simp: mbed_idle_def conn_recv_def deliver_def
      split: option.splits list.splits prod.splits)

lemma mbed_acts_idle:
  "mbed_idle io \<Longrightarrow>
   mbed_idle (snd (io_acts (\<lambda>now n (later, tm). conn_recv now later n tm) recv_data mb_write as io))"
proof (induction as arbitrary: io)
  case (Cons a as)
  show ?case
  proof (cases a)
    case (ActRead now n x)
    obtain later tm where x: "x = (later, tm)" by fastforce
    obtain r io1 where r: "conn_recv now later n tm io = (r, io1)" by fastforce
    have "mbed_idle io1" using conn_recv_idle(1) [OF Cons.prems, of now later n tm] r by simp
    from Cons.IH [OF this] show ?thesis by (auto simp: ActRead x r split: prod.splits)
  qed (use Cons.IH [OF Cons.prems] in \<open>auto split: prod.splits\<close>)
qed simp

interpretation mbed: pending_stream "\<lambda>now n (later, tm). conn_recv now later n tm" recv_data
  "conn_arrive src" conn_waiting cn_deadline mb_write cn_committed_peer
  "\<lambda>p d io. Some (mb_feed_pending p d io)" mbed_idle "\<lambda>as. True" for src
proof unfold_locales
  show "\<exists>io'. Some (mb_feed_pending p d io) = Some io' \<and> cn_committed_peer io' = p \<and> conn_waiting io' = [d]"
    if "mbed_idle io" for io p d
    using that by (simp add: mbed_idle_def mb_feed_pending_def conn_waiting_def)
  show "fst (mb_write buf io) = cn_committed_peer io" for buf io
    by (simp add: mb_write_def)
  show "cn_committed_peer (snd ((case x of (later, tm) \<Rightarrow> conn_recv now later n tm) io)) = cn_committed_peer io"
    for now n x io by (cases x) (simp add: conn_recv_idle)
  show "mbed_idle (snd (mbed_acts as io'))"
    if "mbed_idle io" and "Some (mb_feed_pending p d io) = Some io'" for io p d io' as
    using that by (intro mbed_acts_idle) (auto simp: mbed_idle_def mb_feed_pending_def)
qed

section \<open>Properties\<close>

text \<open>C24. Strangers are kept apart and never make a listener wait: on both stacks, whatever sources send and
  in whatever order, each is answered only at the address its own datagram came from, the
  library reads nothing but that datagram and at most once, and the stream that may be promoted
  is pinned to that address, with nothing of anybody else queued. A read on it never parks. For
  OpenSSL this rests on every \<open>DTLSv1_listen\<close> reading at least once.\<close>

theorem strangers_kept_apart:
  assumes "\<forall>h \<in> set hs. \<exists>a \<in> set (hello_acts h). is_read a"
    and "pending_new ssl_ok clone_ok stream_ok = Some fresh"
    and "mb_pending_new clone_ok' alloc_ok setup_rc = Some session"
  shows "list_all2 (\<lambda>h log. \<exists>ds sent io. log = Some ((ds, sent), io) \<and> (ds = [] \<or> ds = [hello_dgram h])
        \<and> fst ` set sent \<subseteq> {canonical_peer (hello_source h)}
        \<and> io_peer io = canonical_peer (hello_source h) \<and> io_queue io = [] \<and> io_tick io = 0)
      hs (pending_run feed_pending openssl_acts fresh hs None)
    \<and> list_all2 (\<lambda>h log. \<exists>ds sent io. log = Some ((ds, sent), io) \<and> (ds = [] \<or> ds = [hello_dgram h])
        \<and> fst ` set sent \<subseteq> {canonical_peer (hello_source h)}
        \<and> cn_committed_peer io = canonical_peer (hello_source h) \<and> cn_queue io = []
        \<and> (\<forall>now tm. recv_budget now tm io = 0))
      hs' (pending_run (\<lambda>p d io. Some (mb_feed_pending p d io)) mbed_acts (sx_io session) hs' None)
    \<and> pk_credentials (sx_psk session) = None"
proof -
  have one: "ds = [] \<or> ds = [d]" if "subseq ds [d]" for ds :: "bytes list" and d
    using that by (cases ds) (auto split: if_splits)
  have fresh: "openssl_idle fresh"
    using assms(2) by (auto simp: pending_new_def openssl_idle_def pending_io_def split: if_splits)
  have mb: "mbed_idle (sx_io session)" "pk_credentials (sx_psk session) = None"
    using assms(3) by (auto simp: mb_pending_new_def session_new_def mbed_idle_def Let_def split: if_splits)
  have still: "recv_budget now tm io = 0" if "mbed_idle io" for now tm io
    using that by (auto simp: mbed_idle_def recv_budget_def split: option.splits)
  show ?thesis
  proof (intro conjI)
    show "pk_credentials (sx_psk session) = None" by (rule mb(2))
  qed (rule list_all2_mono [OF openssl.one_stranger_at_a_time [OF fresh assms(1)]]
       list_all2_mono [OF mbed.one_stranger_at_a_time [OF mb(1)]];
       use one still in \<open>fastforce simp: openssl_idle_def mbed_idle_def\<close>)+
qed

text \<open>Two strangers, the second with the stream the first left.\<close>

definition demo_hellos :: "unit hello list" where
  "demo_hellos = [Hello \<lparr>sa_ip = V4 7, sa_port = 1\<rparr> [22] [ActRead 0 100 (), ActWrite [3]] True,
     Hello \<lparr>sa_ip = V4 8, sa_port = 2\<rparr> [23, 4] [ActRead 0 100 (), ActRead 0 100 (), ActWrite [5]] False]"

theorem strangers_kept_apart_witness:
  "\<exists>x y session. pending_run feed_pending openssl_acts pending_io demo_hellos None = [Some x, Some y]
     \<and> fst ` set (snd (fst y)) \<subseteq> {\<lparr>sa_ip = V4 8, sa_port = 2\<rparr>} \<and> io_peer (snd y) = \<lparr>sa_ip = V4 8, sa_port = 2\<rparr>
     \<and> mb_pending_new True True 0 = Some session \<and> pk_credentials (sx_psk session) = None"
proof -
  obtain session where s: "mb_pending_new True True 0 = Some session"
    by (auto simp: mb_pending_new_def session_new_def Let_def)
  have c: "canonical_peer \<lparr>sa_ip = V4 8, sa_port = 2\<rparr> = \<lparr>sa_ip = V4 8, sa_port = 2\<rparr>"
    by (simp add: canonical_peer_def)
  have h: "\<forall>h \<in> set demo_hellos. \<exists>a \<in> set (hello_acts h). is_read a" by (simp add: demo_hellos_def)
  let ?run = "pending_run feed_pending openssl_acts pending_io demo_hellos None"
  have f: "pending_new True True True = Some pending_io" by (simp add: pending_new_def)
  from strangers_kept_apart [OF h f s, of "[]"]
  obtain x y where r: "?run = [Some x, Some y]" "fst ` set (snd (fst y)) \<subseteq> {\<lparr>sa_ip = V4 8, sa_port = 2\<rparr>}"
    "io_peer (snd y) = \<lparr>sa_ip = V4 8, sa_port = 2\<rparr>" and cr: "pk_credentials (sx_psk session) = None"
    by (auto simp: demo_hellos_def list_all2_Cons1 c simp del: pending_run.simps io_acts.simps)
  show ?thesis
    by (rule exI [of _ x], rule exI [of _ y], rule exI [of _ session]) (intro conjI r s cr)
qed

end
