(* ===== verification/Mbed_Context.thy ===== *)
theory Mbed_Context
  imports Pending_Listen
begin

text \<open>
  A session of the mbedTLS shim as mbedTLS sees it: the context box behind its callback pointer, with
  the timer it arms and reads and the transport it reads and writes, and the setters of
  \<open>session.rs\<close>. The property joins the timer, the transport's park and the codes: a flight that has to
  be retransmitted is noticed when it is due, and no read outlasts the handshake's deadline.
\<close>

section \<open>The callbacks over the context\<close>

definition timer_set_tramp :: "instant \<Rightarrow> nat \<Rightarrow> nat \<Rightarrow> 'io session_ctx \<Rightarrow> 'io session_ctx" where
  "timer_set_tramp now int_ms fin_ms ctx = ctx\<lparr>sx_timer := timer_set now int_ms fin_ms (sx_timer ctx)\<rparr>"

definition timer_get_tramp :: "instant \<Rightarrow> 'io session_ctx \<Rightarrow> int" where
  "timer_get_tramp now ctx = timer_status now (sx_timer ctx)"

text \<open>The receive callback over the listener's transport: the code, the bytes written, the context.\<close>

definition ctx_recv ::
  "instant \<Rightarrow> instant \<Rightarrow> nat \<Rightarrow> conn_state session_ctx \<Rightarrow> int \<times> bytes \<times> conn_state session_ctx" where
  "ctx_recv now later len ctx = (case conn_recv now later len (sx_timer ctx) (sx_io ctx) of
     ((outcome, bs), io) \<Rightarrow> (recv_tramp (Some outcome), bs, ctx\<lparr>sx_io := io\<rparr>))"

definition ctx_send :: "(socket_addr \<Rightarrow> bytes \<Rightarrow> nat option) \<Rightarrow> bytes \<Rightarrow> conn_state session_ctx \<Rightarrow> int" where
  "ctx_send send_to buf ctx = send_tramp (Some (conn_send send_to buf (sx_io ctx)))"

section \<open>The setters\<close>

text \<open>The library's setter is a parameter: what it answers to the flag and the id, or to the peer's bytes.\<close>

definition set_client_transport_id :: "(bytes \<Rightarrow> int) \<Rightarrow> bytes \<Rightarrow> int + unit" where
  "set_client_transport_id set_id info = unit_result (set_id info)"

definition set_own_cid :: "(int \<Rightarrow> bytes \<Rightarrow> int) \<Rightarrow> bytes \<Rightarrow> int + unit" where
  "set_own_cid set_cid cid = unit_result (set_cid SSL_CID_ENABLED cid)"

definition offer_zero_length_cid :: "(int \<Rightarrow> bytes \<Rightarrow> int) \<Rightarrow> int + unit" where
  "offer_zero_length_cid set_cid = unit_result (set_cid SSL_CID_ENABLED [])"

text \<open>The name of the suite: a C string, or a null pointer before there is one.\<close>

definition ciphersuite :: "bytes option \<Rightarrow> bytes option" where
  "ciphersuite p = (case p of None \<Rightarrow> None | Some s \<Rightarrow> Some (from_utf8_lossy (takeWhile (\<lambda>b. b \<noteq> 0) s)))"

section \<open>Waiting\<close>

lemma timer_remaining_set:
  assumes "fin_ms \<noteq> 0"
  shows "timer_remaining now (timer_set t0 int_ms fin_ms tm) = Some (from_millis fin_ms - (now - t0))"
  using assms by (simp add: timer_remaining_def timer_set_def)

lemma timer_due:
  assumes "fin_ms \<noteq> 0" and "t0 \<le> t"
  shows "final_expired t (timer_set t0 int_ms fin_ms tm) \<longleftrightarrow> t0 + from_millis fin_ms \<le> t"
  using assms less_eq_div_iff_mult_less_eq [of 1000000 fin_ms "t - t0"]
  by (auto simp: final_expired_def timer_status_def timer_set_def from_millis_def Let_def)

text \<open>A wait with nothing to read ends by its budget: the tick, the timer or the deadline, whichever is first.\<close>

lemma recv_budget_bounds:
  assumes "fin_ms \<noteq> 0"
  shows "recv_budget now (timer_set t0 int_ms fin_ms tm) io \<le> from_millis fin_ms - (now - t0)"
    and "cn_deadline io = Some d \<Longrightarrow> recv_budget now (timer_set t0 int_ms fin_ms tm) io \<le> d - now"
    and "from_millis fin_ms - (now - t0) \<le> cn_tick io \<Longrightarrow>
      (case cn_deadline io of None \<Rightarrow> True | Some d \<Rightarrow> from_millis fin_ms - (now - t0) \<le> d - now) \<Longrightarrow>
      recv_budget now (timer_set t0 int_ms fin_ms tm) io = from_millis fin_ms - (now - t0)"
  unfolding recv_budget_def timer_remaining_set [OF assms] by (auto simp: Let_def split: option.splits)

text \<open>Nothing to read, the sender there, and time left.\<close>

definition waits :: "instant \<Rightarrow> conn_state \<Rightarrow> bool" where
  "waits now io \<longleftrightarrow> cn_pending io = None \<and> cn_queue io = [] \<and> cn_connected io
     \<and> (case cn_deadline io of None \<Rightarrow> True | Some d \<Rightarrow> now < d)"

lemma waiting_recv:
  assumes "waits now (sx_io ctx)"
  shows "ctx_recv now later len ctx
    = (if timer_get_tramp later ctx = 2 then ERR_SSL_TIMEOUT else ERR_SSL_WANT_READ, [], ctx)"
proof -
  have "conn_recv now later len (sx_timer ctx) (sx_io ctx)
      = ((if final_expired later (sx_timer ctx) then RecvTimerExpired else RecvWantRead, []), sx_io ctx)"
    using assms by (auto simp: waits_def conn_recv_def split: option.splits)
  then show ?thesis by (auto simp: ctx_recv_def recv_tramp_def final_expired_def timer_get_tramp_def)
qed

section \<open>Properties\<close>

text \<open>C16. Retransmissions are on time: once mbedTLS has armed its timer, a read that finds nothing waits no
  longer than until the timer is due, nor past the handshake's deadline; it reports the timeout
  that makes mbedTLS retransmit exactly when the timer, as mbedTLS would read it at the end of the
  wait, has expired; and when the timer is due within the tick and the deadline, that very read
  reports it, at the moment it is due. Such a read changes nothing of the session.\<close>

theorem retransmission_on_time:
  assumes "ctx = timer_set_tramp t0 int_ms fin_ms ctx0" and "fin_ms \<noteq> 0" and "t0 \<le> now"
    and "waits now (sx_io ctx)" and "later = now + recv_budget now (sx_timer ctx) (sx_io ctx)"
    and "ctx_recv now later len ctx = (rc, bs, ctx')"
  shows "ctx' = ctx \<and> bs = []
    \<and> (rc = ERR_SSL_TIMEOUT \<longleftrightarrow> timer_get_tramp later ctx = 2)
    \<and> (rc = ERR_SSL_TIMEOUT \<longleftrightarrow> t0 + from_millis fin_ms \<le> later)
    \<and> later \<le> max now (t0 + from_millis fin_ms)
    \<and> (\<forall>d. cn_deadline (sx_io ctx) = Some d \<longrightarrow> later \<le> d)
    \<and> (now \<le> t0 + from_millis fin_ms \<and> t0 + from_millis fin_ms \<le> now + cn_tick (sx_io ctx)
        \<and> (\<forall>d. cn_deadline (sx_io ctx) = Some d \<longrightarrow> t0 + from_millis fin_ms \<le> d) \<longrightarrow>
        rc = ERR_SSL_TIMEOUT \<and> later = t0 + from_millis fin_ms)"
proof -
  have tm: "sx_timer ctx = timer_set t0 int_ms fin_ms (sx_timer ctx0)" using assms(1) by (simp add: timer_set_tramp_def)
  have le: "t0 \<le> later" using assms(3,5) by simp
  have r: "rc = (if timer_get_tramp later ctx = 2 then ERR_SSL_TIMEOUT else ERR_SSL_WANT_READ)" "bs = []" "ctx' = ctx"
    using assms(6) unfolding waiting_recv [OF assms(4)] by auto
  have due: "timer_get_tramp later ctx = 2 \<longleftrightarrow> t0 + from_millis fin_ms \<le> later"
    using timer_due [OF assms(2) le, of int_ms "sx_timer ctx0"]
    by (simp add: timer_get_tramp_def tm final_expired_def)
  note b = recv_budget_bounds [OF assms(2), where now = now and ?t0.0 = t0 and int_ms = int_ms
      and tm = "sx_timer ctx0" and io = "sx_io ctx", folded tm]
  have "later \<le> max now (t0 + from_millis fin_ms)" using b(1) assms(3,5) by simp
  moreover have "later \<le> d" if "cn_deadline (sx_io ctx) = Some d" for d
    using b(2) [OF that] assms(4,5) that by (auto simp: waits_def)
  moreover have "later = t0 + from_millis fin_ms"
    if "now \<le> t0 + from_millis fin_ms \<and> t0 + from_millis fin_ms \<le> now + cn_tick (sx_io ctx)
      \<and> (\<forall>d. cn_deadline (sx_io ctx) = Some d \<longrightarrow> t0 + from_millis fin_ms \<le> d)"
  proof -
    have "recv_budget now (sx_timer ctx) (sx_io ctx) = from_millis fin_ms - (now - t0)"
      by (rule b(3)) (use that assms(3) in \<open>auto split: option.splits\<close>)
    with that assms(3,5) show ?thesis by simp
  qed
  ultimately show ?thesis using r due by (auto simp: code_values)
qed

theorem retransmission_on_time_witness:
  "\<exists>ctx. fst (ctx_recv 3 (from_millis 5) 1400 ctx) = ERR_SSL_TIMEOUT"
proof -
  let ?io = "\<lparr>cn_queue = [], cn_connected = True, cn_committed_peer = mb_demo_peer, cn_staged_peer = mb_demo_peer,
    cn_pending = None, cn_tick = from_secs 1, cn_deadline = Some (from_secs 5)\<rparr>"
  let ?c0 = "\<lparr>sx_psk = \<lparr>pk_credentials = None, pk_hs_psk = None\<rparr>, sx_timer = timer_new, sx_io = ?io\<rparr>"
  let ?c = "timer_set_tramp 0 2 5 ?c0"
  have w: "waits 3 (sx_io ?c)" by (simp add: waits_def timer_set_tramp_def from_secs_def)
  have l: "from_millis 5 = 3 + recv_budget 3 (sx_timer ?c) (sx_io ?c)"
    by (simp add: timer_set_tramp_def recv_budget_def timer_remaining_def timer_set_def from_millis_def
        from_secs_def Let_def)
  obtain rc bs ctx' where r: "ctx_recv 3 (from_millis 5) 1400 ?c = (rc, bs, ctx')" by (metis prod_cases3)
  from retransmission_on_time [OF refl _ _ w l r] have "rc = ERR_SSL_TIMEOUT" by simp
  with r show ?thesis by (intro exI [of _ ?c]) simp
qed

end
