(* ===== verification/Gateway_Start.thy ===== *)
theory Gateway_Start
  imports Loft_Main Listen Psk Quota Dtls Dtls_Mbed Tls_Tcp
begin

text \<open>
  A process from its environment to its listeners: what \<open>main\<close> builds before it spawns them, and
  \<open>run\<close> and \<open>run_inner\<close> of each listener up to the loop that never returns. The host (address
  parsing, sockets, the TLS libraries' contexts) is a parameter. Lemmas: what a started process is
  configured with, when a listener serves and when the process ends, and that replies fit the link.
\<close>

section \<open>What main builds\<close>

record gateway =
  gw_ttls :: psk_ttls
  gw_lookup_base :: bytes
  gw_secret :: bytes
  gw_dovecote :: bytes
  gw_udp_szx :: u8
  gw_udp_quota :: conn_quota
  gw_running :: running

datatype gateway_error = BadConfig config_error | NoRuntime bytes | NoClient bytes | NotStarted start_error

text \<open>
  \<open>main\<close>: the configuration, the runtime and the HTTP client, each of which may fail with a text, then
  the listeners.
\<close>

definition gateway_start ::
  "(bytes \<Rightarrow> file_read) \<Rightarrow> (bytes \<Rightarrow> bytes option) \<Rightarrow> bytes option \<Rightarrow> bytes option \<Rightarrow> bool \<Rightarrow> (listener \<Rightarrow> bool)
   \<Rightarrow> gateway_error + gateway" where
  "gateway_start read_to_string env runtime_error client_error feature spawns =
     (case from_env read_to_string env of
        Inl e \<Rightarrow> Inl (BadConfig e)
      | Inr cf \<Rightarrow> (case runtime_error of
          Some e \<Rightarrow> Inl (NoRuntime e)
        | None \<Rightarrow> (case client_error of
            Some e \<Rightarrow> Inl (NoClient (ascii ''upstream client build: '' @ e))
          | None \<Rightarrow> (case start_listeners feature spawns cf of
              Inl e \<Rightarrow> Inl (NotStarted e)
            | Inr r \<Rightarrow> Inr
               \<lparr>gw_ttls = fst (new_psk_resolver (cf_psk_cache_ttl cf)),
                gw_lookup_base = trim_end_matches 47 (cf_dovecote_url cf),
                gw_secret = cf_service_secret cf,
                gw_dovecote = dovecote_base_url (cf_dovecote_url cf),
                gw_udp_szx = cf_udp_max_block_szx cf,
                gw_udp_quota = \<lparr>max_total = MAX_CONNECTIONS, max_per_ip = MAX_CONNECTIONS_PER_IP\<rparr>,
                gw_running = r\<rparr>))))"

section \<open>A listener up to its loop\<close>

text \<open>
  What a listener meets: the outcome of each socket call, of building an OpenSSL context from its options and of each mbedTLS configuration call.
\<close>

record host =
  ho_socket :: "sock_call \<Rightarrow> bytes option"
  ho_context :: "builder_call list \<Rightarrow> bytes option"
  ho_mbed :: "conf_call \<Rightarrow> int"

datatype setup_error = ContextFailed bytes | MbedConfigFailed int | BindFailed bytes

definition bound :: "host \<Rightarrow> sock_call list \<Rightarrow> setup_error + sock_call list" where
  "bound h calls = (case run_calls (ho_socket h) calls of
     (_, Some e) \<Rightarrow> Inl (BindFailed e)
   | (made, None) \<Rightarrow> Inr made)"

text \<open>
  The three \<open>run_inner\<close> (\<open>dtls.rs\<close>, \<open>dtls_mbed.rs\<close>, \<open>tls_tcp.rs\<close>): the error it returns with, or the socket
  calls made when its loop is entered.
\<close>

definition dtls_run_inner :: "host \<Rightarrow> bytes \<Rightarrow> setup_error + sock_call list" where [simp]:
  "dtls_run_inner h addr =
     (case ho_context h (fst build_context) of
        Some e \<Rightarrow> Inl (ContextFailed e)
      | None \<Rightarrow> bound h (bind_udp addr))"

definition mbed_run_inner :: "host \<Rightarrow> bytes \<Rightarrow> setup_error + sock_call list" where [simp]:
  "mbed_run_inner h addr =
     (case config_server (ho_mbed h) of
        Inl rc \<Rightarrow> Inl (MbedConfigFailed rc)
      | Inr _ \<Rightarrow> bound h (bind_udp addr))"

definition tcp_run_inner :: "host \<Rightarrow> bytes \<Rightarrow> setup_error + sock_call list" where [simp]:
  "tcp_run_inner h addr =
     (case ho_context h (build_psk_server_context False) of
        Some e \<Rightarrow> Inl (ContextFailed e)
      | None \<Rightarrow> bound h (bind_tcp addr))"

fun run_inner :: "host \<Rightarrow> listener \<Rightarrow> setup_error + sock_call list" where
  "run_inner h (DtlsListener addr deadline) = dtls_run_inner h addr"
| "run_inner h (DtlsMbedListener addr cid_idle deadline) = mbed_run_inner h addr"
| "run_inner h (TlsTcpListener addr deadline) = tcp_run_inner h addr"

text \<open>\<open>run\<close> only logs the error: the thread of a listener ends exactly when its set-up failed.\<close>

definition serves :: "host \<Rightarrow> listener \<Rightarrow> bool" where
  "serves h l \<longleftrightarrow> (\<exists>calls. run_inner h l = Inr calls)"

lemma bound_made: "bound h calls = Inr made \<Longrightarrow> made = calls"
proof -
  have "run_calls sys calls = (made, None) \<Longrightarrow> made = calls" for sys :: "sock_call \<Rightarrow> bytes option"
    by (induction calls arbitrary: made) (auto split: option.splits prod.splits)
  then show "bound h calls = Inr made \<Longrightarrow> made = calls"
    by (auto simp: bound_def split: prod.splits option.splits)
qed

lemma bound_ok: "(\<exists>made. bound h calls = Inr made) \<longleftrightarrow> (\<forall>c \<in> set calls. ho_socket h c = None)"
proof -
  have "snd (run_calls sys calls) = None \<longleftrightarrow> (\<forall>c \<in> set calls. sys c = None)" for sys :: "sock_call \<Rightarrow> bytes option"
    by (induction calls) (auto split: option.splits prod.splits)
  from this [of "ho_socket h"] show ?thesis
    by (auto simp: bound_def split: prod.splits option.splits)
qed

lemma binds_udp: "bind_udp addr = (case ipv6_literal addr of
    Some (v6, scope) \<Rightarrow> [NewSocket DGRAM, SetOnlyV6 False, BindV6 v6 scope]
  | None \<Rightarrow> [StdBind DGRAM addr])"
  by (simp add: bind_udp_def dual_stack_def split: option.split prod.split)

lemma binds_tcp: "bind_tcp addr = (case ipv6_literal addr of
    Some (v6, scope) \<Rightarrow>
      [NewSocket STREAM, SetOnlyV6 False, SetReuseAddress True, BindV6 v6 scope, ListenBacklog 128]
  | None \<Rightarrow> [StdBind STREAM addr])"
  by (simp add: bind_tcp_def dual_stack_def split: option.split prod.split)

text \<open>What each listener's set-up takes: a context or configuration, and every socket call.\<close>

fun setup_ok :: "host \<Rightarrow> listener \<Rightarrow> bool" where
  "setup_ok h (DtlsListener addr deadline) \<longleftrightarrow>
     ho_context h (fst build_context) = None \<and> (\<forall>c \<in> set (bind_udp addr). ho_socket h c = None)"
| "setup_ok h (DtlsMbedListener addr cid_idle deadline) \<longleftrightarrow>
     (\<forall>rc. config_server (ho_mbed h) \<noteq> Inl rc) \<and> (\<forall>c \<in> set (bind_udp addr). ho_socket h c = None)"
| "setup_ok h (TlsTcpListener addr deadline) \<longleftrightarrow>
     ho_context h (build_psk_server_context False) = None \<and> (\<forall>c \<in> set (bind_tcp addr). ho_socket h c = None)"

lemma serves_iff: "serves h l \<longleftrightarrow> setup_ok h l"
proof (cases l)
  case (DtlsListener addr deadline)
  then show ?thesis using bound_ok [of h "bind_udp addr"] by (auto simp: serves_def split: option.split)
next
  case (DtlsMbedListener addr cid_idle deadline)
  then show ?thesis using bound_ok [of h "bind_udp addr"] by (auto simp: serves_def split: sum.split)
next
  case (TlsTcpListener addr deadline)
  then show ?thesis using bound_ok [of h "bind_tcp addr"] by (auto simp: serves_def split: option.split)
qed

section \<open>A small environment\<close>

text \<open>A credential file that holds the letter s and a line feed, and nothing else set.\<close>

definition demo_files :: "bytes \<Rightarrow> file_read" where
  "demo_files path = Contents [115, 10]"

definition demo_vars :: "bytes \<Rightarrow> bytes option" where
  "demo_vars name = (if name = ascii ''CREDENTIALS_DIRECTORY'' then Some [47, 99] else None)"

lemma demo_config:
  "\<exists>cf. from_env demo_files demo_vars = Inr cf \<and> cf_dtls_stack cf = dtls_stack.Openssl
    \<and> cf_dtls_mbed_canary_addr cf = None \<and> cf_udp_listen cf = ascii ''0.0.0.0:5684''
    \<and> cf_tcp_listen cf = ascii ''0.0.0.0:5684''"
proof -
  have t: "trim [115] \<noteq> []" by (subst trim_plain) (auto simp: whitespace_def)
  have "resolve_service_secret demo_files (Some [47, 99]) None = Inr [115]"
    by (simp add: resolve_service_secret_def demo_files_def Let_def trim_end_matches_def del: ascii_Cons)
  then show ?thesis
    using t by (auto simp: from_env_def demo_vars_def parse_dtls_stack_def parse_handshake_deadline_def
        parse_udp_max_block_def env_or_def)
qed

lemma demo_gateway: "\<exists>gw. gateway_start demo_files demo_vars None None False (\<lambda>_. True) = Inr gw"
  using demo_config by (auto simp: gateway_start_def start_listeners_def spawn_plain_def split: option.split)

section \<open>Properties\<close>

text \<open>C35. A process that starts runs what its environment says: its secret is not blank, the handshake deadline
  is between one second and five minutes, the UDP block ceiling is a legal block size, the admission
  table has the built-in limits, and the resolver keeps an answer for the configured time and a
  refusal for the built-in one. The UDP listener is the selected stack's on the configured address,
  the canary exists exactly when it has an address and is an mbedTLS listener on it, each mbedTLS
  listener carrying the configured idle time of connection ids and handshake deadline, the OpenSSL
  and TCP ones the handshake deadline; and a listener that serves has made exactly the socket calls
  for its own address: for an IPv6 literal a socket made dual-stack before it is bound, otherwise
  the standard library's bind.\<close>

theorem gateway_runs_as_configured:
  assumes "gateway_start read_to_string env runtime_error client_error feature spawns = Inr gw"
  shows "\<exists>cf. from_env read_to_string env = Inr cf \<and> gw_secret gw = cf_service_secret cf
    \<and> trim (gw_secret gw) \<noteq> []
    \<and> from_secs 1 \<le> cf_handshake_deadline cf \<and> cf_handshake_deadline cf \<le> from_secs 300
    \<and> 16 \<le> size_for (gw_udp_szx gw) \<and> size_for (gw_udp_szx gw) \<le> 1024
    \<and> gw_udp_quota gw = \<lparr>max_total = 4096, max_per_ip = 256\<rparr>
    \<and> gw_ttls gw = \<lparr>positive_ttl = cf_psk_cache_ttl cf, negative_ttl = from_secs 10, stale_grace = from_secs 300\<rparr>
    \<and> rn_udp (gw_running gw) = (case cf_dtls_stack cf of
          dtls_stack.Openssl \<Rightarrow> DtlsListener (cf_udp_listen cf) (cf_handshake_deadline cf)
        | dtls_stack.Mbedtls \<Rightarrow>
            DtlsMbedListener (cf_udp_listen cf) (cf_dtls_cid_idle cf) (cf_handshake_deadline cf))
    \<and> rn_canary (gw_running gw) = map_option (\<lambda>addr.
          DtlsMbedListener addr (cf_dtls_cid_idle cf) (cf_handshake_deadline cf)) (cf_dtls_mbed_canary_addr cf)
    \<and> rn_tcp (gw_running gw) = TlsTcpListener (cf_tcp_listen cf) (cf_handshake_deadline cf)
    \<and> (\<forall>h calls. run_inner h (rn_udp (gw_running gw)) = Inr calls \<longrightarrow>
         calls = (case ipv6_literal (cf_udp_listen cf) of
             Some (v6, scope) \<Rightarrow> [NewSocket DGRAM, SetOnlyV6 False, BindV6 v6 scope]
           | None \<Rightarrow> [StdBind DGRAM (cf_udp_listen cf)]))
    \<and> (\<forall>h canary addr calls. rn_canary (gw_running gw) = Some canary \<and> cf_dtls_mbed_canary_addr cf = Some addr
         \<and> run_inner h canary = Inr calls \<longrightarrow>
         calls = (case ipv6_literal addr of
             Some (v6, scope) \<Rightarrow> [NewSocket DGRAM, SetOnlyV6 False, BindV6 v6 scope]
           | None \<Rightarrow> [StdBind DGRAM addr]))
    \<and> (\<forall>h calls. run_inner h (rn_tcp (gw_running gw)) = Inr calls \<longrightarrow>
         calls = (case ipv6_literal (cf_tcp_listen cf) of
             Some (v6, scope) \<Rightarrow>
               [NewSocket STREAM, SetOnlyV6 False, SetReuseAddress True, BindV6 v6 scope, ListenBacklog 128]
           | None \<Rightarrow> [StdBind STREAM (cf_tcp_listen cf)]))"
proof -
  from assms obtain cf r where cf: "from_env read_to_string env = Inr cf"
    and r: "start_listeners feature spawns cf = Inr r"
    and gw: "gw = \<lparr>gw_ttls = fst (new_psk_resolver (cf_psk_cache_ttl cf)),
       gw_lookup_base = trim_end_matches 47 (cf_dovecote_url cf), gw_secret = cf_service_secret cf,
       gw_dovecote = dovecote_base_url (cf_dovecote_url cf), gw_udp_szx = cf_udp_max_block_szx cf,
       gw_udp_quota = \<lparr>max_total = MAX_CONNECTIONS, max_per_ip = MAX_CONNECTIONS_PER_IP\<rparr>, gw_running = r\<rparr>"
    by (auto simp: gateway_start_def split: sum.splits option.splits)
  note parts = from_env_parts [OF cf]
  note l = started_listeners_match_config [OF r]
  have szx: "16 \<le> size_for (cf_udp_max_block_szx cf)" "size_for (cf_udp_max_block_szx cf) \<le> 1024"
    using udp_block_range [OF parts(5)] size_for_le by auto
  have udp: "calls = bind_udp (cf_udp_listen cf)" if "run_inner h (rn_udp r) = Inr calls" for h calls
    using that l by (cases "cf_dtls_stack cf") (auto split: option.splits sum.splits dest: bound_made)
  have canary: "calls = bind_udp addr" if "rn_canary r = Some c" "cf_dtls_mbed_canary_addr cf = Some addr"
    "run_inner h c = Inr calls" for h c addr calls
    using that l by (auto split: option.splits sum.splits dest: bound_made)
  have tcp: "calls = bind_tcp (cf_tcp_listen cf)" if "run_inner h (rn_tcp r) = Inr calls" for h calls
    using that l by (auto split: option.splits dest: bound_made)
  have vals: "fst (new_psk_resolver (cf_psk_cache_ttl cf)) = \<lparr>positive_ttl = cf_psk_cache_ttl cf,
      negative_ttl = from_secs 10, stale_grace = from_secs 300\<rparr>"
    by (simp add: new_psk_resolver_def DEFAULT_NEGATIVE_TTL_def DEFAULT_STALE_GRACE_def)
  show ?thesis
    using cf parts(1) deadline_range [OF parts(4)] szx l vals
    unfolding binds_udp [symmetric] binds_tcp [symmetric]
    by (intro exI [of _ cf] conjI allI impI; (elim conjE)?)
       (simp_all add: gw MAX_CONNECTIONS_def MAX_CONNECTIONS_PER_IP_def udp tcp canary)
qed

theorem gateway_runs_as_configured_witness:
  "\<exists>gw. gateway_start demo_files demo_vars None None False (\<lambda>_. True) = Inr gw
     \<and> trim (gw_secret gw) \<noteq> [] \<and> size_for (gw_udp_szx gw) \<le> 1024"
proof -
  obtain gw where gw: "gateway_start demo_files demo_vars None None False (\<lambda>_. True) = Inr gw"
    using demo_gateway by blast
  from gateway_runs_as_configured [OF this] gw show ?thesis by blast
qed

text \<open>C20. A started process outlives listeners that cannot be set up: the UDP listener serves exactly when its
  OpenSSL context (its mbedTLS configuration, when that stack is selected) can be built and every
  socket call for the configured address succeeds, the TCP listener and the canary likewise. The
  process goes on as long as one of its listeners serves, whatever became of the others, and ends
  only when none does: main.rs says that any listener exiting is fatal, but with a TCP port in use
  the process stays up, without TCP.\<close>

theorem gateway_outlives_failed_listeners:
  assumes "gateway_start read_to_string env runtime_error client_error feature spawns = Inr gw"
    and "from_env read_to_string env = Inr cf" and "r = gw_running gw"
  shows "(serves h (rn_udp r) \<longleftrightarrow>
          (\<forall>c \<in> set (bind_udp (cf_udp_listen cf)). ho_socket h c = None)
          \<and> (case cf_dtls_stack cf of
               dtls_stack.Openssl \<Rightarrow> ho_context h (fst build_context) = None
             | dtls_stack.Mbedtls \<Rightarrow> (\<forall>rc. config_server (ho_mbed h) \<noteq> Inl rc)))
    \<and> (serves h (rn_tcp r) \<longleftrightarrow>
          (\<forall>c \<in> set (bind_tcp (cf_tcp_listen cf)). ho_socket h c = None)
          \<and> ho_context h (build_psk_server_context False) = None)
    \<and> (\<forall>c. rn_canary r = Some c \<longrightarrow> (\<exists>addr. cf_dtls_mbed_canary_addr cf = Some addr
          \<and> (serves h c \<longleftrightarrow> (\<forall>b \<in> set (bind_udp addr). ho_socket h b = None)
              \<and> (\<forall>rc. config_server (ho_mbed h) \<noteq> Inl rc))))
    \<and> main_wait r (\<lambda>l. \<not> serves h l)
        = (if serves h (rn_udp r) \<or> serves h (rn_tcp r) \<or> (\<exists>c. rn_canary r = Some c \<and> serves h c)
           then None else Some ())"
proof -
  from assms have r: "start_listeners feature spawns cf = Inr r"
    by (auto simp: gateway_start_def split: sum.splits option.splits)
  note l = started_listeners_match_config [OF r]
  have "main_wait r (\<lambda>l. \<not> serves h l) = None \<or> main_wait r (\<lambda>l. \<not> serves h l) = Some ()"
    by (cases "main_wait r (\<lambda>l. \<not> serves h l)") simp_all
  with main_exits_iff_all_listeners_exited [of r "\<lambda>l. \<not> serves h l"]
  have "main_wait r (\<lambda>l. \<not> serves h l)
      = (if serves h (rn_udp r) \<or> serves h (rn_tcp r) \<or> (\<exists>c. rn_canary r = Some c \<and> serves h c)
         then None else Some ())"
    by auto
  then show ?thesis
    using l by (auto simp: serves_iff split: dtls_stack.splits)
qed

text \<open>A host on which no stream socket can be bound.\<close>

definition demo_host :: host where
  "demo_host = \<lparr>ho_socket = (\<lambda>c. case c of StdBind STREAM _ \<Rightarrow> Some [1] | _ \<Rightarrow> None),
     ho_context = (\<lambda>_. None), ho_mbed = (\<lambda>_. 0)\<rparr>"

theorem gateway_outlives_failed_listeners_witness:
  "\<exists>gw. gateway_start demo_files demo_vars None None False (\<lambda>_. True) = Inr gw
     \<and> \<not> serves demo_host (rn_tcp (gw_running gw))
     \<and> main_wait (gw_running gw) (\<lambda>l. \<not> serves demo_host l) = None"
proof -
  obtain gw where gw: "gateway_start demo_files demo_vars None None False (\<lambda>_. True) = Inr gw"
    using demo_gateway by blast
  obtain cf where cf: "from_env demo_files demo_vars = Inr cf" "cf_dtls_stack cf = dtls_stack.Openssl"
    "cf_udp_listen cf = ascii ''0.0.0.0:5684''" "cf_tcp_listen cf = ascii ''0.0.0.0:5684''"
    using demo_config by blast
  have std: "ipv6_literal (ascii ''0.0.0.0:5684'') = None"
    by (rule unbracketed_binds_as_std) simp
  have host: "\<forall>c \<in> set (bind_udp (ascii ''0.0.0.0:5684'')). ho_socket demo_host c = None"
    "\<not> (\<forall>c \<in> set (bind_tcp (ascii ''0.0.0.0:5684'')). ho_socket demo_host c = None)"
    "ho_context demo_host (fst build_context) = None"
    by (simp_all add: bind_udp_def bind_tcp_def std demo_host_def del: ascii_Cons)
  note g = gateway_outlives_failed_listeners [OF gw cf(1) refl, of demo_host]
  have "serves demo_host (rn_udp (gw_running gw))" using g host(1,3) by (simp add: cf(2,3))
  moreover have "\<not> serves demo_host (rn_tcp (gw_running gw))" using g host(2) by (simp add: cf(4))
  ultimately show ?thesis using g gw by simp
qed



end
