(* ===== verification/Coap_Tests.thy ===== *)
theory Coap_Tests
  imports Coap_Block Coap_Udp Coap_Tcp "HOL-Library.Code_Target_Numeral"
begin

text \<open>
  The unit tests of \<open>coap/message.rs\<close>, \<open>block.rs\<close>, \<open>udp.rs\<close> and \<open>tcp.rs\<close>, run on the model: one
  definition per test (the conjunction of its assertions; an \<open>unwrap\<close> or \<open>expect\<close> that fails makes it
  false) and one lemma, proved by evaluation, or by the codec's theorems where the data is large.
\<close>

section \<open>Messages\<close>

definition roundtrip :: "message \<Rightarrow> decode_error + message" where
  "roundtrip msg = decode_options_and_payload (encode_options_and_payload msg)
     (default_message\<lparr>msg_code := msg_code msg, msg_token := msg_token msg\<rparr>)"

definition roundtrip_options_out_of_order_and_payload :: bool where
  "roundtrip_options_out_of_order_and_payload \<longleftrightarrow>
     (let msg0 = default_message\<lparr>msg_code := GET, msg_token := [1, 2, 3]\<rparr>;
          msg1 = push_option URI_QUERY (ascii ''auth=tok'') msg0;
          msg2 = push_option URI_PATH (ascii ''device'') msg1;
          msg3 = push_option URI_PATH (ascii ''pigeons'') msg2;
          msg4 = set_option_uint CONTENT_FORMAT (ucast JSON) msg3;
          msg = msg4\<lparr>msg_payload := ascii ''{\"a\":1}''\<rparr> in
      (case roundtrip msg of
         Inl _ \<Rightarrow> False
       | Inr out \<Rightarrow>
           path_segments out = [ascii ''device'', ascii ''pigeons'']
           \<and> option_uint out CONTENT_FORMAT = Some (ucast JSON)
           \<and> first_option out URI_QUERY = Some (ascii ''auth=tok'')
           \<and> msg_payload out = ascii ''{\"a\":1}''))"

lemma roundtrip_options_out_of_order_and_payload: roundtrip_options_out_of_order_and_payload
  by code_simp

definition roundtrip_extended_deltas_and_lengths :: bool where
  "roundtrip_extended_deltas_and_lengths \<longleftrightarrow>
     (let msg = push_option 270 (replicate 20 0xEF) (push_option 269 (replicate 300 0xCD)
            (push_option ETAG (replicate 8 0xAB) default_message)) in
      (case roundtrip msg of
         Inl _ \<Rightarrow> False
       | Inr out \<Rightarrow>
           length (msg_options out) = 3
           \<and> msg_options out ! 0 = (ETAG, replicate 8 0xAB)
           \<and> msg_options out ! 1 = (269, replicate 300 0xCD)
           \<and> msg_options out ! 2 = (270, replicate 20 0xEF)))"

lemma roundtrip_extended_deltas_and_lengths: roundtrip_extended_deltas_and_lengths
  by code_simp

definition uint_encoding_is_minimal :: bool where
  "uint_encoding_is_minimal \<longleftrightarrow>
     encode_uint 0 = [] \<and> encode_uint 50 = [50] \<and> encode_uint 0x0102 = [1, 2]
     \<and> encode_uint 0x01020304 = [1, 2, 3, 4]
     \<and> (let msg = set_option_uint SIZE2 0 default_message in
        option_uint msg SIZE2 = Some 0
        \<and> option_uint (set_option_uint SIZE2 512000 msg) SIZE2 = Some 512000)"

lemma uint_encoding_is_minimal: uint_encoding_is_minimal
  by code_simp

definition payload_marker_without_payload_is_an_error :: bool where
  "payload_marker_without_payload_is_an_error \<longleftrightarrow>
     decode_options_and_payload [0xFF] default_message = Inl PayloadMarkerNoPayload"

lemma payload_marker_without_payload_is_an_error: payload_marker_without_payload_is_an_error
  by code_simp

definition truncated_option_value_is_an_error :: bool where
  "truncated_option_value_is_an_error \<longleftrightarrow>
     decode_options_and_payload [0x45, 1, 2] default_message = Inl Truncated"

lemma truncated_option_value_is_an_error: truncated_option_value_is_an_error
  by code_simp

definition extended_delta_past_u16_max_is_rejected_not_wrapped :: bool where
  "extended_delta_past_u16_max_is_rejected_not_wrapped \<longleftrightarrow>
     decode_options_and_payload [0xE0, 0xFF, 0xFF] default_message = Inl BadOptionEncoding"

lemma extended_delta_past_u16_max_is_rejected_not_wrapped:
  extended_delta_past_u16_max_is_rejected_not_wrapped
  by code_simp

definition reserved_nibble_15_rejected :: bool where
  "reserved_nibble_15_rejected \<longleftrightarrow>
     decode_options_and_payload [0xF4, 0, 0, 0, 0] default_message = Inl BadOptionEncoding"

lemma reserved_nibble_15_rejected: reserved_nibble_15_rejected
  by code_simp

definition unknown_critical_option_detection :: bool where
  "unknown_critical_option_detection \<longleftrightarrow>
     (let msg = push_option URI_PATH (ascii ''x'') default_message;
          msg' = push_option 1 [] msg;
          msg2 = push_option OBSERVE [] default_message in
      unknown_critical_option msg [URI_PATH] = None
      \<and> unknown_critical_option msg' [URI_PATH] = Some 1
      \<and> unknown_critical_option msg2 [URI_PATH] = None)"

lemma unknown_critical_option_detection: unknown_critical_option_detection
  by code_simp

definition dotted_codes :: bool where
  "dotted_codes \<longleftrightarrow> dotted CONTENT = ascii ''2.05'' \<and> dotted NOT_FOUND = ascii ''4.04''
     \<and> dotted CSM = ascii ''7.01''"

lemma dotted_codes: dotted_codes
  by code_simp

section \<open>Blocks\<close>

definition encode_decode_roundtrip :: bool where
  "encode_decode_roundtrip \<longleftrightarrow>
     (\<forall>(num, more, szx) \<in> set [(0, False, 6), (1, True, 4), (511, True, 0), (100000, False, 2)].
        let b = \<lparr>blk_num = num, blk_more = more, blk_szx = szx\<rparr> in
        block_decode (block_encode b) = Some b)"

lemma encode_decode_roundtrip: encode_decode_roundtrip
  by code_simp

definition known_wire_values :: bool where
  "known_wire_values \<longleftrightarrow>
     (case block_decode 0x0A of None \<Rightarrow> False | Some b \<Rightarrow>
        blk_num b = 0 \<and> blk_more b \<and> block_size b = 64)
     \<and> (case block_decode 0x36 of None \<Rightarrow> False | Some b \<Rightarrow>
        blk_num b = 3 \<and> \<not> blk_more b \<and> block_size b = 1024 \<and> byte_range b = (3072, 4095))"

lemma known_wire_values: known_wire_values
  by code_simp

definition bert_szx_normalized :: bool where
  "bert_szx_normalized \<longleftrightarrow> (case block_decode 0x0F of None \<Rightarrow> False | Some b \<Rightarrow>
     blk_szx b = MAX_SZX \<and> block_size b = 1024)"

lemma bert_szx_normalized: bert_szx_normalized
  by code_simp

definition capping_preserves_the_requested_offset :: bool where
  "capping_preserves_the_requested_offset \<longleftrightarrow>
     (\<forall>(num, szx, max_szx) \<in> set [(0, 6, 5), (1, 6, 5), (7, 6, 4), (3, 5, 0), (100, 6, 6)].
        let asked = \<lparr>blk_num = num, blk_more = False, blk_szx = szx\<rparr>; served = capped asked max_szx in
        blk_szx served \<le> max_szx \<and> block_offset served = block_offset asked)"

lemma capping_preserves_the_requested_offset: capping_preserves_the_requested_offset
  by code_simp

definition capping_leaves_a_small_enough_block_alone :: bool where
  "capping_leaves_a_small_enough_block_alone \<longleftrightarrow>
     (let b = \<lparr>blk_num = 9, blk_more = True, blk_szx = 4\<rparr> in
      capped b MAX_SZX = b \<and> capped b 4 = b)"

lemma capping_leaves_a_small_enough_block_alone: capping_leaves_a_small_enough_block_alone
  by code_simp

definition capping_an_absurd_num_saturates_instead_of_wrapping :: bool where
  "capping_an_absurd_num_saturates_instead_of_wrapping \<longleftrightarrow>
     blk_num (capped \<lparr>blk_num = - 1, blk_more = False, blk_szx = 6\<rparr> 0) = - 1"

lemma capping_an_absurd_num_saturates_instead_of_wrapping:
  capping_an_absurd_num_saturates_instead_of_wrapping
  by code_simp

definition more_bit_from_total :: bool where
  "more_bit_from_total \<longleftrightarrow>
     (let b = (\<lambda>num. \<lparr>blk_num = num, blk_more = False, blk_szx = MAX_SZX\<rparr>) in
      more_after (b 0) 2500 \<and> more_after (b 1) 2500 \<and> \<not> more_after (b 2) 2500
      \<and> more_after (b 0) 2048 \<and> \<not> more_after (b 1) 2048)"

lemma more_bit_from_total: more_bit_from_total
  by code_simp

definition content_range_parsing :: bool where
  "content_range_parsing \<longleftrightarrow>
     parse_content_range (ascii ''bytes 1024-2047/523776'') = Some (1024, 2047, 523776)
     \<and> parse_content_range (ascii ''bytes 0-0/1'') = Some (0, 0, 1)
     \<and> parse_content_range (ascii ''bytes */523776'') = None
     \<and> parse_content_range (ascii ''garbage'') = None"

lemma content_range_parsing: content_range_parsing
  by code_simp

section \<open>Datagrams\<close>

definition roundtrip_con_get :: bool where
  "roundtrip_con_get \<longleftrightarrow>
     (let message = push_option URI_PATH (ascii ''shadow'')
            (default_message\<lparr>msg_code := GET, msg_token := [0xDE, 0xAD]\<rparr>);
          dg = \<lparr>dg_type = Confirmable, dg_id = 0x1234, dg_message = message\<rparr>;
          bs = datagram_encode dg in
      take 4 bs = [0x42, 0x01, 0x12, 0x34] \<and> datagram_decode bs = Inr dg)"

lemma roundtrip_con_get: roundtrip_con_get
  by code_simp

definition roundtrip_ack_with_payload :: bool where
  "roundtrip_ack_with_payload \<longleftrightarrow>
     (let message = \<lparr>msg_code = CONTENT, msg_token = [7], msg_options = [(CONTENT_FORMAT, [50])],
            msg_payload = ascii ''{}''\<rparr>;
          dg = \<lparr>dg_type = Acknowledgement, dg_id = 1, dg_message = message\<rparr> in
      datagram_decode (datagram_encode dg) = Inr dg)"

lemma roundtrip_ack_with_payload: roundtrip_ack_with_payload
  by code_simp

definition rejects_wrong_version_and_short_input :: bool where
  "rejects_wrong_version_and_short_input \<longleftrightarrow>
     datagram_decode [0x02, 0x01] = Inl Truncated
     \<and> datagram_decode [0x00, 0x01, 0, 0] = Inl BadOptionEncoding
     \<and> datagram_decode [0x49, 0x01, 0, 0, 1, 2, 3, 4, 5, 6, 7, 8, 9] = Inl BadTokenLength"

lemma rejects_wrong_version_and_short_input: rejects_wrong_version_and_short_input
  by code_simp

definition empty_con_ping_decodes :: bool where
  "empty_con_ping_decodes \<longleftrightarrow> (case datagram_decode [0x40, 0x00, 0xBE, 0xEF] of
     Inl _ \<Rightarrow> False
   | Inr dg \<Rightarrow> dg_type dg = Confirmable \<and> msg_code (dg_message dg) = EMPTY \<and> dg_id dg = 0xBEEF)"

lemma empty_con_ping_decodes: empty_con_ping_decodes
  by code_simp

section \<open>Frames\<close>

definition sample :: "nat \<Rightarrow> message" where
  "sample payload_len =
     (push_option URI_PATH (ascii ''telemetry'')
       (default_message\<lparr>msg_code := POST, msg_token := [1, 2, 3, 4]\<rparr>))\<lparr>msg_payload := replicate payload_len 0x5A\<rparr>"

definition roundtrip_all_length_encodings :: bool where
  "roundtrip_all_length_encodings \<longleftrightarrow>
     (\<forall>len \<in> set [0, 5, 100, 5000, 70000].
        let msg = sample len; dec = fd_extend (encode_frame msg) \<lparr>fd_buf = []\<rparr> in
        (case next_frame dec of
           (Inr (Some out), dec') \<Rightarrow> out = msg \<and> length (fd_buf dec') = 0
         | _ \<Rightarrow> False))"

lemma sample_frame_ok: "len \<le> 70000 \<Longrightarrow> frame_ok (sample len) \<and> wire_form (sample len) = sample len"
  by (auto simp: frame_ok_def wire_ok_def encodable_def wire_form_def sample_def push_option_def
      default_message_def encode_options_and_payload_def nibble_ext_def Let_def loft_defs
      MAX_NIBBLE_VALUE_def MAX_FRAME_BODY_def u16_to_be_bytes_def split: prod.splits)

lemma roundtrip_all_length_encodings: roundtrip_all_length_encodings
proof -
  have "next_frame (fd_extend (encode_frame (sample len)) \<lparr>fd_buf = []\<rparr>)
      = (Inr (Some (sample len)), \<lparr>fd_buf = []\<rparr>)" if "len \<le> 70000" for len
    using try_decode_encode_frame [of "sample len" "[]"] sample_frame_ok [OF that]
    by (simp add: next_frame_def fd_extend_def)
  then show ?thesis by (simp add: roundtrip_all_length_encodings_def)
qed

definition incremental_delivery_and_pipelining :: bool where
  "incremental_delivery_and_pipelining \<longleftrightarrow>
     (let a = sample 300; b = sample 2; wire = encode_frame a @ encode_frame b in
      (case read_chunks \<lparr>fd_buf = []\<rparr> (map (\<lambda>byte. [byte]) wire) of
         (got, None, _) \<Rightarrow> got = [a, b]
       | _ \<Rightarrow> False))"

lemma incremental_delivery_and_pipelining: incremental_delivery_and_pipelining
proof -
  let ?frames = "map encode_frame [sample 300, sample 2]"
  have "\<forall>m \<in> set [sample 300, sample 2]. frame_ok m" using sample_frame_ok by simp
  from drain_encoded [OF this]
  have "read_chunks \<lparr>fd_buf = []\<rparr> [concat ?frames] = ([sample 300, sample 2], None, \<lparr>fd_buf = []\<rparr>)"
    using sample_frame_ok [of 300] sample_frame_ok [of 2] by (simp add: fd_extend_def)
  moreover have "concat (map (\<lambda>byte. [byte]) (concat ?frames)) = concat [concat ?frames]" by simp
  note frames.feed_same_stream [OF fd_empty_idle this]
  ultimately show ?thesis
    by (auto simp: incremental_delivery_and_pipelining_def Let_def split: prod.split option.split)
qed

definition matches_pigeon_client_header_layout :: bool where
  "matches_pigeon_client_header_layout \<longleftrightarrow>
     (let msg = push_option URI_PATH (ascii ''s'')
            (default_message\<lparr>msg_code := GET, msg_token := [0xAA, 0xBB]\<rparr>);
          frame = encode_frame msg in
      frame ! 0 = push_bit 4 2 OR 2 \<and> frame ! 1 = GET \<and> take 2 (drop 2 frame) = [0xAA, 0xBB])"

lemma matches_pigeon_client_header_layout: matches_pigeon_client_header_layout
  by code_simp

definition oversized_frame_rejected :: bool where
  "oversized_frame_rejected \<longleftrightarrow>
     (let huge = of_nat MAX_FRAME_BODY + 1; hdr = 0xF0 # u32_to_be_bytes (huge - 65805) in
      (case next_frame (fd_extend hdr \<lparr>fd_buf = []\<rparr>) of (Inl _, _) \<Rightarrow> True | _ \<Rightarrow> False))"

lemma oversized_frame_rejected: oversized_frame_rejected
  by code_simp

definition signaling_codes_frame :: bool where
  "signaling_codes_frame \<longleftrightarrow>
     (let csm = default_message\<lparr>msg_code := CSM\<rparr> in
      (case next_frame (fd_extend (encode_frame csm) \<lparr>fd_buf = []\<rparr>) of
         (Inr (Some out), _) \<Rightarrow> is_signaling (msg_code out) \<and> msg_code out = CSM
       | _ \<Rightarrow> False))"

lemma signaling_codes_frame: signaling_codes_frame
  by code_simp

end
