(* ===== verification/Handler_Tests.thy ===== *)
theory Handler_Tests
  imports Block1_Reassembly Block2_Transfer "HOL-Library.Code_Target_Numeral"
begin

text \<open>
  The unit tests of \<open>handler.rs\<close>, run on the model: one definition per test (the conjunction of its
  assertions) and one lemma. \<open>MockUpstream\<close> is a function from the call to its answer; a panic in it
  is an error, which no assertion accepts. A test lasts less than the idle timeout, so all its
  requests are handled at time 0; the ids of \<open>next_conn_id\<close> are written out.
\<close>

section \<open>The mock and its requests\<close>

definition session :: "nat \<Rightarrow> device_session" where
  "session conn_id = \<lparr>ds_pigeon_id = ascii ''pigeon-1'', ds_token = ascii ''tok-1'',
     ds_peer = ascii ''10.0.0.1:1234'', ds_conn_id = conn_id\<rparr>"

definition request :: "u8 \<Rightarrow> string \<Rightarrow> string \<Rightarrow> message" where
  "request coap_code pigeon_id leaf =
     foldl (\<lambda>m seg. push_option URI_PATH (ascii seg) m)
       (default_message\<lparr>msg_code := coap_code, msg_token := [9]\<rparr>)
       [''device'', ''pigeons'', pigeon_id, leaf]"

definition answer :: "nat \<Rightarrow> bytes \<Rightarrow> upstream_response" where
  "answer status body = \<lparr>up_status = status, up_body = body, up_content_range = None,
     up_firmware_size = None, up_firmware_sha256 = None\<rparr>"

definition json_ok :: "bytes \<Rightarrow> upstream_response" where
  "json_ok body = answer 200 body"

text \<open>\<open>handler.handle(...)\<close> with the table as the test left it: the response, the table, the calls.\<close>

definition run ::
  "upstream \<Rightarrow> u8 \<Rightarrow> message \<Rightarrow> device_session \<Rightarrow> transport \<Rightarrow> block1_table
   \<Rightarrow> message \<times> block1_table \<times> upstream_call list" where
  "run mock szx req sess transport t = handle mock szx 0 0 req sess transport t"

definition with_block :: "u16 \<Rightarrow> u32 \<Rightarrow> bool \<Rightarrow> u8 \<Rightarrow> message \<Rightarrow> message" where
  "with_block number num more_bit szx req =
     set_option_uint number (block_encode \<lparr>blk_num = num, blk_more = more_bit, blk_szx = szx\<rparr>) req"

text \<open>\<open>Block::decode(out.option_uint(number).unwrap()).unwrap()\<close>.\<close>

definition block_in :: "message \<Rightarrow> u16 \<Rightarrow> block option" where
  "block_in out number = Option.bind (option_uint out number) block_decode"

section \<open>Routing\<close>

definition shadow_get_maps_to_content :: bool where
  "shadow_get_maps_to_content \<longleftrightarrow>
     (case run (\<lambda>_. Inr (json_ok (ascii ''{\"target_version\":3}''))) MAX_SZX
         (request GET ''pigeon-1'' ''shadow'') (session 1) Tcp [] of
       (out, _, calls) \<Rightarrow>
         msg_code out = CONTENT \<and> msg_payload out = ascii ''{\"target_version\":3}''
         \<and> option_uint out CONTENT_FORMAT = Some (ucast JSON)
         \<and> length calls = 1 \<and> uc_method (calls ! 0) = Get \<and> uc_leaf (calls ! 0) = ascii ''shadow''
         \<and> uc_pigeon_id (calls ! 0) = ascii ''pigeon-1'' \<and> uc_bearer (calls ! 0) = ascii ''tok-1'')"

lemma shadow_get_maps_to_content: shadow_get_maps_to_content
  by code_simp

definition uri_pigeon_id_must_match_handshake_identity :: bool where
  "uri_pigeon_id_must_match_handshake_identity \<longleftrightarrow>
     (case run (\<lambda>_. Inr (json_ok (ascii ''{}''))) MAX_SZX
         (request GET ''pigeon-OTHER'' ''shadow'') (session 1) Tcp [] of
       (out, _, calls) \<Rightarrow> msg_code out = FORBIDDEN \<and> calls = [])"

lemma uri_pigeon_id_must_match_handshake_identity: uri_pigeon_id_must_match_handshake_identity
  by code_simp

definition unknown_paths_and_methods :: bool where
  "unknown_paths_and_methods \<longleftrightarrow>
     (let mock = (\<lambda>_. Inr (json_ok (ascii ''{}'')));
          bad_prefix = foldl (\<lambda>m seg. push_option URI_PATH (ascii seg) m)
            (default_message\<lparr>msg_code := GET\<rparr>) [''evil'', ''pigeons'', ''pigeon-1'', ''shadow''] in
      (case run mock MAX_SZX (request GET ''pigeon-1'' ''nonsense'') (session 1) Tcp [] of
        (out, t1, calls1) \<Rightarrow> msg_code out = NOT_FOUND \<and>
      (case run mock MAX_SZX (request GET ''pigeon-1'' ''telemetry'') (session 2) Tcp t1 of
        (out, t2, calls2) \<Rightarrow> msg_code out = METHOD_NOT_ALLOWED \<and>
      (case run mock MAX_SZX bad_prefix (session 3) Tcp t2 of
        (out, _, calls3) \<Rightarrow> msg_code out = NOT_FOUND \<and> calls1 @ calls2 @ calls3 = []))))"

lemma unknown_paths_and_methods: unknown_paths_and_methods
  by code_simp

definition unknown_critical_option_rejected :: bool where
  "unknown_critical_option_rejected \<longleftrightarrow>
     (case run (\<lambda>_. Inr (json_ok (ascii ''{}''))) MAX_SZX
         (push_option 35 (ascii ''coap://evil'') (request GET ''pigeon-1'' ''shadow''))
         (session 1) Tcp [] of
       (out, _, calls) \<Rightarrow> msg_code out = BAD_OPTION \<and> calls = [])"

lemma unknown_critical_option_rejected: unknown_critical_option_rejected
  by code_simp

definition upstream_401_maps_to_coap_unauthorized :: bool where
  "upstream_401_maps_to_coap_unauthorized \<longleftrightarrow>
     (case run (\<lambda>_. Inr (answer 401 (ascii ''Unauthorized''))) MAX_SZX
         (request GET ''pigeon-1'' ''shadow'') (session 1) Tcp [] of
       (out, _) \<Rightarrow> msg_code out = UNAUTHORIZED)"

lemma upstream_401_maps_to_coap_unauthorized: upstream_401_maps_to_coap_unauthorized
  by code_simp

definition upstream_unreachable_maps_to_gateway_timeout :: bool where
  "upstream_unreachable_maps_to_gateway_timeout \<longleftrightarrow>
     (case run (\<lambda>_. Inl (ascii ''connect refused'')) MAX_SZX
         (request GET ''pigeon-1'' ''shadow'') (session 1) Tcp [] of
       (out, _) \<Rightarrow> msg_code out = GATEWAY_TIMEOUT)"

lemma upstream_unreachable_maps_to_gateway_timeout: upstream_unreachable_maps_to_gateway_timeout
  by code_simp

definition telemetry_post_forwards_json_body :: bool where
  "telemetry_post_forwards_json_body \<longleftrightarrow>
     (let body = ascii ''{\"temp\":\"21.5\"}'' in
      (case run (\<lambda>_. Inr (answer 202 (ascii ''{}''))) MAX_SZX
         ((request POST ''pigeon-1'' ''telemetry'')\<lparr>msg_payload := body\<rparr>) (session 1) Udp [] of
       (out, _, calls) \<Rightarrow> msg_code out = CHANGED
         \<and> uc_body (calls ! 0) = Some (body, ascii ''application/json'')))"

lemma telemetry_post_forwards_json_body: telemetry_post_forwards_json_body
  by code_simp

section \<open>GET requests symbolically\<close>

text \<open>
  The tests with bodies of kilobytes are proved by simplification: the requests below reach their
  route, and the rest is the route's own equations.
\<close>

definition get_ok :: "message \<Rightarrow> string \<Rightarrow> bool" where
  "get_ok req leaf \<longleftrightarrow> msg_code req = GET \<and> unknown_critical_option req KNOWN_OPTIONS = None
     \<and> path_segments req = [ascii ''device'', ascii ''pigeons'', ascii ''pigeon-1'', ascii leaf]"

lemma run_shadow_get: "get_ok req ''shadow'' \<Longrightarrow> run up szx req (session i) tr [] =
    (json_response szx req (up (session_call (session i) Get ''shadow'' None None)) Get tr, [],
     [session_call (session i) Get ''shadow'' None None])"
  by (simp add: get_ok_def run_def handle_def handle_leaf_def session_def sweep_block1_def hm_defs
      is_request_def code_defs Let_def)

lemma run_firmware_get: "get_ok req ''firmware'' \<Longrightarrow> run up szx req (session i) tr [] =
    (case firmware up szx req (session i) tr of (m, calls) \<Rightarrow> (m, [], calls))"
  by (simp add: get_ok_def run_def handle_def handle_leaf_def session_def sweep_block1_def hm_defs
      is_request_def code_defs Let_def)

lemma get_requests_ok [simp]:
  "get_ok (request GET ''pigeon-1'' ''shadow'') ''shadow''"
  "get_ok (request GET ''pigeon-1'' ''firmware'') ''firmware''"
  "block2_of (request GET ''pigeon-1'' ''shadow'') = None"
  "block2_of (request GET ''pigeon-1'' ''firmware'') = None"
  by code_simp+

lemma get_ok_with_block [simp]:
  "get_ok (with_block BLOCK2 n m z (request GET ''pigeon-1'' leaf)) leaf
   \<longleftrightarrow> get_ok (request GET ''pigeon-1'' leaf) leaf"
  by (simp add: get_ok_def with_block_def unknown_critical_option_def path_segments_def
      option_values_def set_option_uint_def push_option_def request_def default_message_def
      option_defs KNOWN_OPTIONS_def is_critical_def del: ascii_Cons)

lemma block2_of_with_block [simp]:
  "block2_of (with_block BLOCK2 n m z req) = block_decode (block_encode \<lparr>blk_num = n, blk_more = m, blk_szx = z\<rparr>)"
  by (simp add: with_block_def block2_of_set)

section \<open>Firmware\<close>

definition firmware_upstream :: "bytes \<Rightarrow> upstream" where
  "firmware_upstream img call = (case uc_range call of
     None \<Rightarrow> Inl (ascii ''firmware calls are always ranged'')
   | Some (start, last_byte) \<Rightarrow>
       let stop = min (last_byte + 1) (length img) in
       if length img \<le> start then Inl (ascii ''upstream got out-of-range start'')
       else Inr \<lparr>up_status = 206, up_body = take (stop - start) (drop start img),
         up_content_range = Some (ascii ''bytes '' @ show_unsigned start @ 45 # show_unsigned (stop - 1)
           @ 47 # show_unsigned (length img)),
         up_firmware_size = Some (length img),
         up_firmware_sha256 = Some (concat (replicate 2 (ascii ''aabbccddeeff00112233445566778899'')))\<rparr>)"

lemma option_uint_others [simp]:
  "option_uint (response c r) n = None"
  "option_uint (m\<lparr>msg_payload := p\<rparr>) n = option_uint m n"
  "k \<noteq> n \<Longrightarrow> option_uint (push_option n v m) k = option_uint m k"
  by (simp_all add: option_uint_eq option_values_push)

lemma option_numbers [simp]:
  "BLOCK2 \<noteq> SIZE2" "BLOCK2 \<noteq> CONTENT_FORMAT" "BLOCK2 \<noteq> ETAG" "SIZE2 \<noteq> CONTENT_FORMAT" "SIZE2 \<noteq> ETAG"
  "ETAG \<noteq> SIZE2" "ETAG \<noteq> BLOCK2" "ETAG \<noteq> CONTENT_FORMAT"
  by (simp_all add: option_defs)

lemmas test_options = option_uint_set first_option_def option_values_set option_values_push

lemma image_etag: "hex_prefix_bytes (concat (replicate 2 (ascii ''aabbccddeeff00112233445566778899''))) 8
    = Some [0xAA, 0xBB, 0xCC, 0xDD, 0xEE, 0xFF, 0x00, 0x11]"
  by code_simp

lemma firmware_run:
  assumes req: "get_ok req ''firmware''" and b: "firmware_block szx req tr = b"
    and inside: "block_offset b < length img" and small: "length img < 2 ^ 64"
  shows "\<exists>out call. run (firmware_upstream img) szx req (session i) tr [] = (out, [], [call])
    \<and> msg_code out = CONTENT \<and> msg_payload out = take (block_size b) (drop (block_offset b) img)
    \<and> block_in out BLOCK2 = block_decode (block_encode \<lparr>blk_num = blk_num b,
          blk_more = more_after b (length img), blk_szx = blk_szx b\<rparr>)
    \<and> option_uint out SIZE2 = (if blk_num b = 0 then Some (of_nat (length img)) else None)
    \<and> first_option out ETAG = Some [0xAA, 0xBB, 0xCC, 0xDD, 0xEE, 0xFF, 0x00, 0x11]
    \<and> uc_range call = Some (byte_range b)"
proof -
  let ?s = "block_offset b" and ?e = "block_offset b + block_size b - 1"
  let ?stop = "min (?e + 1) (length img)"
  let ?r = "\<lparr>up_status = 206, up_body = take (?stop - ?s) (drop ?s img),
    up_content_range = Some (content_range_text ?s (?stop - 1) (length img)),
    up_firmware_size = Some (length img),
    up_firmware_sha256 = Some (concat (replicate 2 (ascii ''aabbccddeeff00112233445566778899'')))\<rparr>"
  have size: "0 < block_size b" by (simp add: block_size_def size_for_def)
  define r where "r = ?r"
  have size: "0 < block_size b" by (simp add: block_size_def size_for_def)
  have up: "firmware_upstream img (session_call (session i) Get ''firmware'' (Some (byte_range b)) None) = Inr r"
    using inside by (simp add: r_def byte_range_def firmware_upstream_def session_call_def Let_def
        content_range_text_def del: ascii_Cons)
  have cr: "parse_content_range (content_range_text ?s (?stop - 1) (length img))
      = Some (?s, ?stop - 1, length img)"
    using inside small by (intro parse_content_range_text) auto
  have body: "take (?stop - ?s) (drop ?s img) = take (block_size b) (drop ?s img)"
    using size inside by (simp add: min_def)
  have out: "firmware_response req b r = (push_option ETAG [0xAA, 0xBB, 0xCC, 0xDD, 0xEE, 0xFF, 0x00, 0x11]
      ((if blk_num b = 0 then set_option_uint SIZE2 (of_nat (length img)) else id)
        (set_option_uint BLOCK2 (block_encode \<lparr>blk_num = blk_num b,
           blk_more = more_after b (length img), blk_szx = blk_szx b\<rparr>)
          (set_option_uint CONTENT_FORMAT (ucast OCTET_STREAM) (response CONTENT req)))))
      \<lparr>msg_payload := take (block_size b) (drop ?s img)\<rparr>"
    using cr inside body
    by (simp add: r_def firmware_response_def byte_range_def Let_def firmware_total_def
        firmware_payload_def image_etag del: ascii_Cons)
  have "up_status r < 300" by (simp add: r_def)
  with up show ?thesis
    by (simp add: run_firmware_get [OF req] firmware_def b Let_def out block_in_def session_call_def
        test_options)
qed

definition firmware_block2_sequence :: bool where
  "firmware_block2_sequence \<longleftrightarrow>
     (let mock = firmware_upstream (replicate 2500 0x7E) in
      (case run mock MAX_SZX (with_block BLOCK2 0 False 6 (request GET ''pigeon-1'' ''firmware''))
          (session 1) Udp [] of
        (out, t1, calls1) \<Rightarrow>
          msg_code out = CONTENT \<and> length (msg_payload out) = 1024
          \<and> map_option blk_more (block_in out BLOCK2) = Some True
          \<and> option_uint out SIZE2 = Some 2500
          \<and> first_option out ETAG = Some [0xAA, 0xBB, 0xCC, 0xDD, 0xEE, 0xFF, 0x00, 0x11] \<and>
      (case run mock MAX_SZX (with_block BLOCK2 2 False 6 (request GET ''pigeon-1'' ''firmware''))
          (session 2) Udp t1 of
        (out, _, calls2) \<Rightarrow>
          length (msg_payload out) = 2500 - 2048
          \<and> map_option blk_more (block_in out BLOCK2) = Some False
          \<and> option_uint out SIZE2 = None \<and> first_option out ETAG \<noteq> None
          \<and> map uc_range (calls1 @ calls2) = [Some (0, 1023), Some (2048, 3071)])))"

lemmas block_numbers = block_offset_def block_size_def size_for_def more_after_def byte_range_def
  block_decode_def block_encode_def MAX_SZX_def

lemma firmware_block2_sequence: firmware_block2_sequence
proof -
  let ?img = "replicate 2500 0x7E :: bytes"
  have b: "firmware_block MAX_SZX (with_block BLOCK2 0 False 6 (request GET ''pigeon-1'' ''firmware'')) Udp
      = \<lparr>blk_num = 0, blk_more = False, blk_szx = 6\<rparr>"
    "firmware_block MAX_SZX (with_block BLOCK2 2 False 6 (request GET ''pigeon-1'' ''firmware'')) Udp
      = \<lparr>blk_num = 2, blk_more = False, blk_szx = 6\<rparr>" by code_simp+
  from firmware_run [OF _ b(1), of ?img 1] firmware_run [OF _ b(2), of ?img 2] show ?thesis
    by (auto simp: firmware_block2_sequence_def Let_def block_numbers)
qed

definition firmware_without_block2_starts_spontaneous_blockwise :: bool where
  "firmware_without_block2_starts_spontaneous_blockwise \<longleftrightarrow>
     (case run (firmware_upstream (replicate 2500 0x11)) MAX_SZX
         (request GET ''pigeon-1'' ''firmware'') (session 1) Tcp [] of
       (out, _) \<Rightarrow> msg_code out = CONTENT \<and> length (msg_payload out) = 1024
         \<and> map_option (\<lambda>b. (blk_num b, blk_more b)) (block_in out BLOCK2) = Some (0, True))"

lemma firmware_without_block2_starts_spontaneous_blockwise:
  firmware_without_block2_starts_spontaneous_blockwise
proof -
  have b: "firmware_block MAX_SZX (request GET ''pigeon-1'' ''firmware'') Tcp
      = \<lparr>blk_num = 0, blk_more = False, blk_szx = 6\<rparr>" by code_simp
  from firmware_run [OF _ b, of "replicate 2500 0x11" 1] show ?thesis
    by (auto simp: firmware_without_block2_starts_spontaneous_blockwise_def block_numbers)
qed

definition firmware_block_out_of_range :: bool where
  "firmware_block_out_of_range \<longleftrightarrow>
     (let mock = (\<lambda>_. Inr \<lparr>up_status = 206, up_body = drop 99 (replicate 100 0x22),
            up_content_range = Some (ascii ''bytes 99-99/100''), up_firmware_size = Some 100,
            up_firmware_sha256 = None\<rparr>) in
      (case run mock MAX_SZX (with_block BLOCK2 5 False 6 (request GET ''pigeon-1'' ''firmware''))
          (session 1) Udp [] of
        (out, _) \<Rightarrow> msg_code out = BAD_REQUEST))"

lemma firmware_block_out_of_range: firmware_block_out_of_range
  by code_simp

section \<open>JSON bodies\<close>

definition big :: bytes where
  "big = ascii ''{\"blob\":\"'' @ replicate 4000 120 @ ascii ''\"}''"

definition big_json_udp_response_is_spontaneously_blocked :: bool where
  "big_json_udp_response_is_spontaneously_blocked \<longleftrightarrow>
     (let mock = (\<lambda>_. Inr (json_ok big)); get = request GET ''pigeon-1'' ''shadow'' in
      (case run mock MAX_SZX get (session 1) Udp [] of
        (out, t1, _) \<Rightarrow>
          length (msg_payload out) = 1024
          \<and> map_option (\<lambda>b. (blk_num b, blk_more b)) (block_in out BLOCK2) = Some (0, True)
          \<and> option_uint out SIZE2 = Some (of_nat (length big)) \<and>
      (case run mock MAX_SZX (with_block BLOCK2 3 False 6 get) (session 2) Udp t1 of
        (out, t2, _) \<Rightarrow>
          length (msg_payload out) = length big - 3072
          \<and> map_option blk_more (block_in out BLOCK2) = Some False \<and>
      (case run mock MAX_SZX get (session 3) Tcp t2 of
        (out, _) \<Rightarrow> length (msg_payload out) = length big \<and> option_uint out BLOCK2 = None))))"

lemmas json_run = run_shadow_get json_response_def json_ok_def answer_def json_body_response_def
  json_block_def max_szx_def block_in_def option_uint_set capped_def

lemma big_json_udp_response_is_spontaneously_blocked:
  big_json_udp_response_is_spontaneously_blocked
  by (simp add: big_json_udp_response_is_spontaneously_blocked_def Let_def json_run block_numbers
      big_def)

definition default_ceiling_sends_a_full_block_whole :: bool where
  "default_ceiling_sends_a_full_block_whole \<longleftrightarrow>
     (\<forall>(len, blocked) \<in> set [(1024, False), (1025, True)].
        case run (\<lambda>_. Inr (json_ok (replicate len 120))) MAX_SZX (request GET ''pigeon-1'' ''shadow'')
            (session 1) Udp [] of
          (out, _) \<Rightarrow> (option_uint out BLOCK2 \<noteq> None) = blocked
            \<and> length (msg_payload out) = (if blocked then 1024 else len))"

lemma default_ceiling_sends_a_full_block_whole: default_ceiling_sends_a_full_block_whole
  by (simp add: default_ceiling_sends_a_full_block_whole_def Let_def json_run block_numbers)

definition a_lowered_ceiling_blocks_a_body_the_default_sends_whole :: bool where
  "a_lowered_ceiling_blocks_a_body_the_default_sends_whole \<longleftrightarrow>
     (let expected = replicate 900 120; mock = (\<lambda>_. Inr (json_ok expected)) in
      (case run mock 5 (request GET ''pigeon-1'' ''shadow'') (session 1) Udp [] of
        (out, t1, _) \<Rightarrow>
          msg_payload out = take 512 expected
          \<and> block_in out BLOCK2 = Some \<lparr>blk_num = 0, blk_more = True, blk_szx = 5\<rparr>
          \<and> option_uint out SIZE2 = Some 900 \<and>
      (case run mock 5 (with_block BLOCK2 1 False 5 (request GET ''pigeon-1'' ''shadow''))
          (session 2) Udp t1 of
        (out, _) \<Rightarrow> msg_payload out = drop 512 expected
          \<and> map_option blk_more (block_in out BLOCK2) = Some False)))"

lemma a_lowered_ceiling_blocks_a_body_the_default_sends_whole:
  a_lowered_ceiling_blocks_a_body_the_default_sends_whole
  by (simp add: a_lowered_ceiling_blocks_a_body_the_default_sends_whole_def Let_def json_run
      block_numbers)

definition a_lowered_ceiling_caps_what_a_client_asks_for :: bool where
  "a_lowered_ceiling_caps_what_a_client_asks_for \<longleftrightarrow>
     (let expected = replicate 2000 120 in
      (case run (\<lambda>_. Inr (json_ok expected)) 5
          (with_block BLOCK2 1 False 6 (request GET ''pigeon-1'' ''shadow'')) (session 1) Udp [] of
        (out, _) \<Rightarrow>
          map_option (\<lambda>b. (blk_num b, blk_szx b)) (block_in out BLOCK2) = Some (2, 5)
          \<and> msg_payload out = take (1536 - 1024) (drop 1024 expected)))"

lemma a_lowered_ceiling_caps_what_a_client_asks_for: a_lowered_ceiling_caps_what_a_client_asks_for
  by (simp add: a_lowered_ceiling_caps_what_a_client_asks_for_def Let_def json_run block_numbers
      saturating_mul_def)

definition a_lowered_ceiling_leaves_tcp_alone :: bool where
  "a_lowered_ceiling_leaves_tcp_alone \<longleftrightarrow>
     (let mock = (\<lambda>_. Inr (json_ok (replicate 2000 120))) in
      (case run mock 5 (request GET ''pigeon-1'' ''shadow'') (session 1) Tcp [] of
        (out, t1, _) \<Rightarrow> length (msg_payload out) = 2000 \<and> option_uint out BLOCK2 = None \<and>
      (case run mock 5 (with_block BLOCK2 0 False 6 (request GET ''pigeon-1'' ''shadow''))
          (session 2) Tcp t1 of
        (out, _) \<Rightarrow> length (msg_payload out) = 1024
          \<and> map_option blk_szx (block_in out BLOCK2) = Some 6)))"

lemma a_lowered_ceiling_leaves_tcp_alone: a_lowered_ceiling_leaves_tcp_alone
  by (simp add: a_lowered_ceiling_leaves_tcp_alone_def Let_def json_run block_numbers)

definition firmware_first_block_honors_the_udp_ceiling :: bool where
  "firmware_first_block_honors_the_udp_ceiling \<longleftrightarrow>
     (case run (firmware_upstream (replicate 2500 0x33)) 5 (request GET ''pigeon-1'' ''firmware'')
         (session 1) Udp [] of
       (out, _, calls) \<Rightarrow>
         length (msg_payload out) = 512
         \<and> block_in out BLOCK2 = Some \<lparr>blk_num = 0, blk_more = True, blk_szx = 5\<rparr>
         \<and> uc_range (calls ! 0) = Some (0, 511))"

lemma firmware_first_block_honors_the_udp_ceiling: firmware_first_block_honors_the_udp_ceiling
proof -
  have b: "firmware_block 5 (request GET ''pigeon-1'' ''firmware'') Udp
      = \<lparr>blk_num = 0, blk_more = False, blk_szx = 5\<rparr>" by code_simp
  from firmware_run [OF _ b, of "replicate 2500 0x33" 1] show ?thesis
    by (auto simp: firmware_first_block_honors_the_udp_ceiling_def block_numbers)
qed

definition block2_past_end_of_short_body_is_rejected_not_a_panic :: bool where
  "block2_past_end_of_short_body_is_rejected_not_a_panic \<longleftrightarrow>
     (case run (\<lambda>_. Inr (json_ok (ascii ''{}''))) MAX_SZX
         (with_block BLOCK2 5 False 6 (request GET ''pigeon-1'' ''shadow'')) (session 1) Udp [] of
       (out, _) \<Rightarrow> msg_code out = BAD_REQUEST)
     \<and> (case run (\<lambda>_. Inr (answer 200 [])) MAX_SZX
         (with_block BLOCK2 0 False 6 (request GET ''pigeon-1'' ''shadow'')) (session 2) Udp [] of
       (out, _) \<Rightarrow> msg_code out = CONTENT \<and> msg_payload out = [])"

lemma block2_past_end_of_short_body_is_rejected_not_a_panic:
  block2_past_end_of_short_body_is_rejected_not_a_panic
  by code_simp

section \<open>Uploads\<close>

definition part :: "u32 \<Rightarrow> bool \<Rightarrow> bytes \<Rightarrow> message" where
  "part num more_bit payload =
     (with_block BLOCK1 num more_bit 4 (request POST ''pigeon-1'' ''logs''))\<lparr>msg_payload := payload\<rparr>"

definition block1_reassembly_roundtrip :: bool where
  "block1_reassembly_roundtrip \<longleftrightarrow>
     (let mock = (\<lambda>_. Inr (answer 200 [])); sess = session 1 in
      (case run mock MAX_SZX (part 0 True (replicate 256 0xAA)) sess Udp [] of
        (out, t1, calls1) \<Rightarrow> msg_code out = CONTINUE \<and>
      (case run mock MAX_SZX (part 1 True (replicate 256 0xBB)) sess Udp t1 of
        (out, t2, calls2) \<Rightarrow> msg_code out = CONTINUE \<and> calls1 @ calls2 = [] \<and>
      (case run mock MAX_SZX (part 2 False (replicate 100 0xCC)) sess Udp t2 of
        (out, _, calls) \<Rightarrow> msg_code out = CHANGED
          \<and> map_option (\<lambda>b. (blk_num b, blk_more b)) (block_in out BLOCK1) = Some (2, False)
          \<and> length calls = 1
          \<and> (case uc_body (calls ! 0) of None \<Rightarrow> False | Some (body, ct) \<Rightarrow>
               length body = 612 \<and> take 256 body = replicate 256 0xAA
               \<and> drop 512 body = replicate 100 0xCC \<and> ct = ascii ''application/octet-stream'')))))"

lemma block1_reassembly_roundtrip: block1_reassembly_roundtrip
  by code_simp

definition block1_reassemblies_do_not_collide_across_connections_sharing_an_address :: bool where
  "block1_reassemblies_do_not_collide_across_connections_sharing_an_address \<longleftrightarrow>
     (let mock = (\<lambda>_. Inr (answer 200 [])) in
      (case run mock MAX_SZX (part 0 True (replicate 16 0xAA)) (session 1) Udp [] of
        (out, t1, calls1) \<Rightarrow> msg_code out = CONTINUE \<and>
      (case run mock MAX_SZX (part 0 True (replicate 16 0xEE)) (session 2) Udp t1 of
        (out, t2, calls2) \<Rightarrow> msg_code out = CONTINUE \<and>
      (case run mock MAX_SZX (part 1 False (replicate 16 0xBB)) (session 1) Udp t2 of
        (out, _, calls3) \<Rightarrow> msg_code out = CHANGED
          \<and> (case uc_body ((calls1 @ calls2 @ calls3) ! 0) of None \<Rightarrow> False | Some (body, _) \<Rightarrow>
               take 16 body = replicate 16 0xAA \<and> drop 16 body = replicate 16 0xBB)))))"

lemma block1_reassemblies_do_not_collide_across_connections_sharing_an_address:
  block1_reassemblies_do_not_collide_across_connections_sharing_an_address
  by code_simp

definition block1_reassembly_survives_address_migration :: bool where
  "block1_reassembly_survives_address_migration \<longleftrightarrow>
     (let mock = (\<lambda>_. Inr (answer 200 []));
          at_peer = (\<lambda>peer. (session 42)\<lparr>ds_peer := ascii peer\<rparr>) in
      (case run mock MAX_SZX (part 0 True (replicate 16 0xCC)) (at_peer ''10.0.0.1:1000'') Udp [] of
        (out, t1, calls1) \<Rightarrow> msg_code out = CONTINUE \<and>
      (case run mock MAX_SZX (part 1 False (replicate 16 0xCC)) (at_peer ''198.51.100.7:2000'') Udp t1 of
        (out, _, calls2) \<Rightarrow> msg_code out = CHANGED
          \<and> (case uc_body ((calls1 @ calls2) ! 0) of None \<Rightarrow> False | Some (body, _) \<Rightarrow>
               length body = 32))))"

lemma block1_reassembly_survives_address_migration: block1_reassembly_survives_address_migration
  by code_simp

definition block1_out_of_sequence_is_4_08 :: bool where
  "block1_out_of_sequence_is_4_08 \<longleftrightarrow>
     (case run (\<lambda>_. Inr (json_ok (ascii ''{}''))) MAX_SZX (part 2 True (replicate 16 1)) (session 1)
         Udp [] of
       (out, _, calls) \<Rightarrow> msg_code out = REQUEST_ENTITY_INCOMPLETE \<and> calls = [])"

lemma block1_out_of_sequence_is_4_08: block1_out_of_sequence_is_4_08
  by code_simp

text \<open>The table test fills all 4096 places; the table it builds is written down and proved by induction.\<close>

definition table_conn :: "nat \<Rightarrow> device_session" where
  "table_conn i = session (10000 + i)"

fun fill_table :: "upstream \<Rightarrow> message \<Rightarrow> nat \<Rightarrow> message list \<times> block1_table" where
  "fill_table mock req 0 = ([], [])"
| "fill_table mock req (Suc n) = (case fill_table mock req n of (outs, t) \<Rightarrow>
     (case run mock MAX_SZX req (table_conn n) Udp t of (out, t', _) \<Rightarrow> (outs @ [out], t')))"

definition block1_table_full_refuses_a_new_peer_but_not_one_already_admitted :: bool where
  "block1_table_full_refuses_a_new_peer_but_not_one_already_admitted \<longleftrightarrow>
     (let mock = (\<lambda>_. Inr (answer 200 [])); block1_start = part 0 True (replicate 16 0xAA) in
      (case fill_table mock block1_start MAX_BLOCK1_ENTRIES of (outs, t) \<Rightarrow>
        (\<forall>out \<in> set outs. msg_code out = CONTINUE) \<and>
      (case run mock MAX_SZX block1_start (table_conn MAX_BLOCK1_ENTRIES) Udp t of
        (out, t1, _) \<Rightarrow> msg_code out = SERVICE_UNAVAILABLE \<and>
      (case run mock MAX_SZX (part 1 False (replicate 16 0xBB)) (table_conn 0) Udp t1 of
        (out, _) \<Rightarrow> msg_code out = CHANGED))))"

definition filled :: "nat \<Rightarrow> block1_table" where
  "filled n = map (\<lambda>i. ((10000 + i, ascii ''logs''),
     \<lparr>ra_data = replicate 16 0xAA, ra_next_num = 1, ra_touched = 0\<rparr>)) [0..<n]"

lemma update_new: "k \<notin> fst ` set t \<Longrightarrow> AList.update k v t = t @ [(k, v)]"
  by (induction t) auto

lemma update_last: "k \<notin> fst ` set t \<Longrightarrow> AList.update k v (t @ [(k, u)]) = t @ [(k, v)]"
  by (induction t) auto

lemma map_of_last: "k \<notin> fst ` set t \<Longrightarrow> map_of (t @ [(k, v)]) k = Some v"
  by (induction t) auto

lemma filled_keys: "(10000 + i, leaf) \<in> fst ` set (filled n) \<longleftrightarrow> i < n \<and> leaf = ascii ''logs''"
  by (auto simp: filled_def image_image simp del: ascii_Cons)

lemma session_id: "ds_conn_id (session i) = i"
  by (simp add: session_def)

lemma run_logs_post:
  assumes "num \<in> {0, 1}"
  shows "run up szx (part num m p) (session i) tr t =
    post_leaf up 0 (part num m p) (session i) ''logs'' ''application/octet-stream''
      (logs_response (part num m p)) t"
proof -
  have lossy: "from_utf8_lossy (ascii ''device'') = ascii ''device''"
    "from_utf8_lossy (ascii ''pigeons'') = ascii ''pigeons''"
    "from_utf8_lossy (ascii ''pigeon-1'') = ascii ''pigeon-1''"
    "from_utf8_lossy (ascii ''logs'') = ascii ''logs''" by code_simp+
  have "msg_code (part num m p) = POST \<and> unknown_critical_option (part num m p) KNOWN_OPTIONS = None
     \<and> path_segments (part num m p) = [ascii ''device'', ascii ''pigeons'', ascii ''pigeon-1'', ascii ''logs'']"
    by (simp add: part_def with_block_def request_def default_message_def path_segments_def
        unknown_critical_option_def option_values_def set_option_uint_def push_option_def option_defs
        KNOWN_OPTIONS_def is_critical_def POST_def lossy del: ascii_Cons)
  moreover have "sweep_block1 0 t = t"
    by (simp add: sweep_block1_def hm_retain_def BLOCK1_IDLE_TIMEOUT_def from_secs_def)
  ultimately show ?thesis
    by (simp add: run_def handle_def handle_leaf_def session_def is_request_def code_defs Let_def)
qed

lemma part_block1:
  "unat num < 2 ^ 28 \<Longrightarrow> block1_of (part num m p) = Some \<lparr>blk_num = num, blk_more = m, blk_szx = 4\<rparr>"
  using block_decode_encode [of "\<lparr>blk_num = num, blk_more = m, blk_szx = 4\<rparr>"]
  by (simp add: block1_of_def part_def with_block_def option_uint_set MAX_SZX_def)

lemma filled_Suc: "filled (Suc n) = filled n @ [((10000 + n, ascii ''logs''),
    \<lparr>ra_data = replicate 16 0xAA, ra_next_num = 1, ra_touched = 0\<rparr>)]"
  by (simp add: filled_def)

lemma filled_length: "length (filled n) = n"
  by (simp add: filled_def)

lemma start_admitted:
  assumes "n < MAX_BLOCK1_ENTRIES"
  shows "\<exists>out. run up MAX_SZX (part 0 True (replicate 16 0xAA)) (table_conn n) Udp (filled n)
    = (out, filled (Suc n), []) \<and> msg_code out = CONTINUE"
proof -
  let ?k = "(10000 + n, ascii ''logs'')"
  have k: "?k \<notin> fst ` set (filled n)" by (simp only: filled_keys) simp
  then have "map_of (filled n) ?k = None" by (simp only: map_of_eq_None_iff not_False_eq_True)
  moreover have "msg_payload (part 0 True (replicate 16 0xAA)) = replicate 16 0xAA" by (simp add: part_def)
  ultimately show ?thesis
    using assms update_new [OF k] update_last [OF k] map_of_last [OF k]
    by (simp add: run_logs_post table_conn_def post_leaf_def assemble_body_def part_block1
        append_block_def hm_defs filled_length filled_Suc session_id MAX_BLOCK1_BODY_def
        del: ascii_Cons)
qed

lemma table_fills:
  "n \<le> MAX_BLOCK1_ENTRIES \<Longrightarrow> \<exists>outs. fill_table up (part 0 True (replicate 16 0xAA)) n = (outs, filled n)
    \<and> (\<forall>out \<in> set outs. msg_code out = CONTINUE)"
proof (induction n)
  case 0
  then show ?case by (simp add: filled_def)
next
  case (Suc n)
  then obtain outs where "fill_table up (part 0 True (replicate 16 0xAA)) n = (outs, filled n)"
    "\<forall>out \<in> set outs. msg_code out = CONTINUE" by auto
  moreover obtain out where "run up MAX_SZX (part 0 True (replicate 16 0xAA)) (table_conn n) Udp (filled n)
      = (out, filled (Suc n), [])" "msg_code out = CONTINUE"
    using start_admitted [of n up] Suc.prems by auto
  ultimately show ?case by simp
qed

lemma start_refused:
  "run up MAX_SZX (part 0 True (replicate 16 0xAA)) (table_conn n) Udp (filled n)
    = (diagnostic (part 0 True (replicate 16 0xAA)) SERVICE_UNAVAILABLE ''block1 reassembly table full'',
       filled n, [])" if "MAX_BLOCK1_ENTRIES \<le> n"
proof -
  let ?k = "(10000 + n, ascii ''logs'')"
  have "?k \<notin> fst ` set (filled n)" by (simp only: filled_keys) simp
  then have "map_of (filled n) ?k = None" by (simp only: map_of_eq_None_iff not_False_eq_True)
  then show ?thesis
    using that by (simp add: run_logs_post table_conn_def post_leaf_def assemble_body_def part_block1
        hm_defs filled_length session_id del: ascii_Cons)
qed

lemma last_block_completes:
  assumes "0 < n"
  shows "msg_code (fst (run (\<lambda>_. Inr (answer 200 [])) MAX_SZX (part 1 False (replicate 16 0xBB))
    (table_conn 0) Udp (filled n))) = CHANGED"
proof -
  let ?r = "\<lparr>ra_data = replicate 16 0xAA, ra_next_num = 1, ra_touched = 0\<rparr>"
  have "filled n = ((10000, ascii ''logs''), ?r) # map (\<lambda>i. ((10000 + i, ascii ''logs''), ?r)) [1..<n]"
    using assms by (simp add: filled_def upt_conv_Cons del: ascii_Cons)
  then have "map_of (filled n) (10000, ascii ''logs'') = Some ?r" by (simp del: ascii_Cons)
  moreover have "msg_payload (part 1 False (replicate 16 0xBB)) = replicate 16 0xBB" by (simp add: part_def)
  ultimately show ?thesis
    by (simp add: run_logs_post table_conn_def post_leaf_def assemble_body_def part_block1
        append_block_def hm_defs session_id MAX_BLOCK1_BODY_def logs_response_def answer_def Let_def
        echo_final_block1_def del: ascii_Cons)
qed

lemma block1_table_full_refuses_a_new_peer_but_not_one_already_admitted:
  block1_table_full_refuses_a_new_peer_but_not_one_already_admitted
proof -
  obtain outs where "fill_table (\<lambda>_. Inr (answer 200 [])) (part 0 True (replicate 16 0xAA)) MAX_BLOCK1_ENTRIES
      = (outs, filled MAX_BLOCK1_ENTRIES)" "\<forall>out \<in> set outs. msg_code out = CONTINUE"
    using table_fills [of MAX_BLOCK1_ENTRIES "\<lambda>_. Inr (answer 200 [])"] by auto
  then show ?thesis
    using last_block_completes [of MAX_BLOCK1_ENTRIES]
    by (simp add: block1_table_full_refuses_a_new_peer_but_not_one_already_admitted_def Let_def
        start_refused MAX_BLOCK1_ENTRIES_def MAX_CONNECTIONS_def diagnostic_def case_prod_beta')
qed

end
