(* ===== verification/Component_Tests.thy ===== *)
theory Component_Tests
  imports Quota Config Psk Dtls_Common Tls_Tcp "HOL-Library.Code_Target_Numeral"
begin

text \<open>
  The unit tests of \<open>quota.rs\<close>, \<open>listen.rs\<close>, \<open>config.rs\<close>, \<open>psk.rs\<close>, \<open>dtls_common.rs\<close>, \<open>tls_common.rs\<close> and
  \<open>tls_tcp.rs\<close> that need no TLS library, run on the model: one definition per test and
  one lemma, proved by evaluation. A clock that stands still is time 0; a sleep of the test moves it.
\<close>

section \<open>Admission\<close>

definition ip :: "u8 \<Rightarrow> ip_addr" where
  "ip host = V4 (u32_from_be_bytes 192 0 2 host)"

text \<open>Acquiring in turn: who was admitted, and the counts after.\<close>

fun acquire_all :: "conn_quota \<Rightarrow> ip_addr list \<Rightarrow> counts \<Rightarrow> bool list \<times> counts" where
  "acquire_all q [] c = ([], c)"
| "acquire_all q (a # as) c = (case try_acquire q a c of (p, c1) \<Rightarrow>
     (case acquire_all q as c1 of (oks, c2) \<Rightarrow> ((p \<noteq> None) # oks, c2)))"

definition per_ip_share_refuses_one_source_but_not_others :: bool where
  "per_ip_share_refuses_one_source_but_not_others \<longleftrightarrow>
     fst (acquire_all \<lparr>max_total = 8, max_per_ip = 2\<rparr> [ip 1, ip 1, ip 1, ip 2] new_counts)
     = [True, True, False, True]"

lemma per_ip_share_refuses_one_source_but_not_others: per_ip_share_refuses_one_source_but_not_others
  by code_simp

definition global_ceiling_refuses_even_fresh_sources :: bool where
  "global_ceiling_refuses_even_fresh_sources \<longleftrightarrow>
     (let q = \<lparr>max_total = 2, max_per_ip = 2\<rparr> in
      (case acquire_all q [ip 1, ip 2] new_counts of (oks, c) \<Rightarrow>
        oks = [True, True] \<and> is_full q c \<and> fst (try_acquire q (ip 3) c) = None))"

lemma global_ceiling_refuses_even_fresh_sources: global_ceiling_refuses_even_fresh_sources
  by code_simp

definition dropping_a_permit_releases_both_counts :: bool where
  "dropping_a_permit_releases_both_counts \<longleftrightarrow>
     (let q = \<lparr>max_total = 1, max_per_ip = 1\<rparr> in
      (case try_acquire q (ip 1) new_counts of
        (None, _) \<Rightarrow> False
      | (Some permit, c) \<Rightarrow>
          is_full q c \<and> fst (try_acquire q (ip 1) c) = None
          \<and> (let c' = permit_drop permit c in
             \<not> is_full q c' \<and> fst (try_acquire q (ip 1) c') \<noteq> None)))"

lemma dropping_a_permit_releases_both_counts: dropping_a_permit_releases_both_counts
  by code_simp

definition ipv6_sources_share_their_slash64_bucket :: bool where
  "ipv6_sources_share_their_slash64_bucket \<longleftrightarrow>
     fst (acquire_all \<lparr>max_total = 8, max_per_ip = 1\<rparr>
       [V6 0x20010DB800010002AAAA000000000001, V6 0x20010DB800010002000000000000BBBB,
        V6 0x20010DB8000100030000000000000001] new_counts)
     = [True, False, True]"

lemma test_buckets:
  "bucket (V6 0x20010DB800010002AAAA000000000001) = V6 0x20010DB8000100020000000000000000"
  "bucket (V6 0x20010DB800010002000000000000BBBB) = V6 0x20010DB8000100020000000000000000"
  "bucket (V6 0x20010DB8000100030000000000000001) = V6 0x20010DB8000100030000000000000000"
  unfolding bucket_v6 by (simp_all add: to_ipv4_mapped_def drop_bit_eq_div push_bit_eq_mult)

lemma ipv6_sources_share_their_slash64_bucket: ipv6_sources_share_their_slash64_bucket
  by (simp add: ipv6_sources_share_their_slash64_bucket_def try_acquire_def test_buckets
      new_counts_def hm_defs Let_def del: bucket.simps)

definition v4_mapped_sources_count_with_their_v4_address :: bool where
  "v4_mapped_sources_count_with_their_v4_address \<longleftrightarrow>
     fst (acquire_all \<lparr>max_total = 8, max_per_ip = 1\<rparr>
       [V4 (u32_from_be_bytes 203 0 113 7), V6 (0xFFFF00000000 OR ucast (u32_from_be_bytes 203 0 113 7))]
       new_counts)
     = [True, False]"

lemma v4_mapped_sources_count_with_their_v4_address: v4_mapped_sources_count_with_their_v4_address
  by code_simp

definition refusals_and_releases_leave_no_per_ip_residue :: bool where
  "refusals_and_releases_leave_no_per_ip_residue \<longleftrightarrow>
     (let q = \<lparr>max_total = 1, max_per_ip = 1\<rparr> in
      (case try_acquire q (ip 1) new_counts of
        (None, _) \<Rightarrow> False
      | (Some permit, c) \<Rightarrow> (case try_acquire q (ip 2) c of (refused, c1) \<Rightarrow>
          refused = None
          \<and> (let c2 = permit_drop permit c1 in ct_per_ip c2 = [] \<and> ct_total c2 = 0))))"

lemma refusals_and_releases_leave_no_per_ip_residue: refusals_and_releases_leave_no_per_ip_residue
  by code_simp

definition canonical_peer_folds_a_mapped_v4_source_and_leaves_the_rest :: bool where
  "canonical_peer_folds_a_mapped_v4_source_and_leaves_the_rest \<longleftrightarrow>
     (case (parse_socket_addr (ascii ''[::ffff:192.0.2.1]:5684''),
            parse_socket_addr (ascii ''192.0.2.1:5684''),
            parse_socket_addr (ascii ''[2001:db8::1]:5684'')) of
       (Some (mapped, _), Some (v4, _), Some (v6, _)) \<Rightarrow>
         canonical_peer mapped = v4 \<and> canonical_peer v4 = v4 \<and> canonical_peer v6 = v6
     | _ \<Rightarrow> False)"

lemma canonical_peer_folds_a_mapped_v4_source_and_leaves_the_rest:
  canonical_peer_folds_a_mapped_v4_source_and_leaves_the_rest
  by code_simp

text \<open>
  The tests over sockets, as far as the gateway decides them: the calls that make the listening
  socket, and the peer under which a source is known, which reaches a dual-stack socket in its mapped
  form.
\<close>

definition udp_ipv6_any_is_dual_stack :: bool where
  "udp_ipv6_any_is_dual_stack \<longleftrightarrow>
     bind_udp (ascii ''[::]:0'')
       = [NewSocket DGRAM, SetOnlyV6 False, BindV6 \<lparr>sa_ip = V6 0, sa_port = 0\<rparr> 0]
     \<and> canonical_peer \<lparr>sa_ip = V6 0xFFFF7F000001, sa_port = 40001\<rparr> = \<lparr>sa_ip = V4 0x7F000001, sa_port = 40001\<rparr>
     \<and> canonical_peer \<lparr>sa_ip = V6 1, sa_port = 40002\<rparr> = \<lparr>sa_ip = V6 1, sa_port = 40002\<rparr>"

lemma udp_ipv6_any_is_dual_stack: udp_ipv6_any_is_dual_stack
  by code_simp

definition tcp_ipv6_any_is_dual_stack :: bool where
  "tcp_ipv6_any_is_dual_stack \<longleftrightarrow>
     bind_tcp (ascii ''[::]:0'')
       = [NewSocket STREAM, SetOnlyV6 False, SetReuseAddress True,
          BindV6 \<lparr>sa_ip = V6 0, sa_port = 0\<rparr> 0, ListenBacklog 128]
     \<and> canonical_peer \<lparr>sa_ip = V6 0xFFFF7F000001, sa_port = 40001\<rparr> = \<lparr>sa_ip = V4 0x7F000001, sa_port = 40001\<rparr>
     \<and> canonical_peer \<lparr>sa_ip = V6 1, sa_port = 40002\<rparr> = \<lparr>sa_ip = V6 1, sa_port = 40002\<rparr>"

lemma tcp_ipv6_any_is_dual_stack: tcp_ipv6_any_is_dual_stack
  by code_simp

definition ipv4_addresses_bind_as_ipv4 :: bool where
  "ipv4_addresses_bind_as_ipv4 \<longleftrightarrow>
     bind_udp (ascii ''127.0.0.1:0'') = [StdBind DGRAM (ascii ''127.0.0.1:0'')]
     \<and> bind_tcp (ascii ''127.0.0.1:0'') = [StdBind STREAM (ascii ''127.0.0.1:0'')]
     \<and> parse_socket_addr (ascii ''127.0.0.1:0'') = Some (\<lparr>sa_ip = V4 0x7F000001, sa_port = 0\<rparr>, 0)"

lemma ipv4_addresses_bind_as_ipv4: ipv4_addresses_bind_as_ipv4
  by code_simp

section \<open>Configuration\<close>

text \<open>\<open>err.contains(name)\<close>, with the test's own \<open>{:?}\<close> for plain text.\<close>

definition contains :: "bytes \<Rightarrow> bytes \<Rightarrow> bool" where
  "contains hay needle \<longleftrightarrow>
     list_ex (\<lambda>i. take (length needle) (drop i hay) = needle) [0..<length hay + 1]"

definition err_names :: "config_error + 'a \<Rightarrow> string \<Rightarrow> bool" where
  "err_names r name = (case r of
     Inr _ \<Rightarrow> False
   | Inl e \<Rightarrow> contains (config_error_text (\<lambda>s. 34 # s @ [34]) e) (ascii name))"

definition dtls_stack_parses_strictly :: bool where
  "dtls_stack_parses_strictly \<longleftrightarrow>
     parse_dtls_stack None = Inr Openssl
     \<and> parse_dtls_stack (Some (ascii ''openssl'')) = Inr Openssl
     \<and> parse_dtls_stack (Some (ascii ''mbedtls'')) = Inr Mbedtls
     \<and> err_names (parse_dtls_stack (Some (ascii ''mbed''))) ''LOFT_DTLS_STACK''"

lemma dtls_stack_parses_strictly: dtls_stack_parses_strictly
  by code_simp

definition handshake_deadline_defaults_and_bounds :: bool where
  "handshake_deadline_defaults_and_bounds \<longleftrightarrow>
     parse_handshake_deadline None = Inr (from_secs DEFAULT_HANDSHAKE_DEADLINE_SECS)
     \<and> parse_handshake_deadline (Some (ascii '' 90 '')) = Inr (from_secs 90)
     \<and> parse_handshake_deadline (Some (ascii ''300'')) = Inr (from_secs MAX_HANDSHAKE_DEADLINE_SECS)
     \<and> (\<forall>bad \<in> set [''0'', ''301'', ''-5'', ''30s'', '''', ''thirty''].
          err_names (parse_handshake_deadline (Some (ascii bad))) ''LOFT_HANDSHAKE_DEADLINE_SECS'')"

lemma handshake_deadline_defaults_and_bounds: handshake_deadline_defaults_and_bounds
  by code_simp

definition udp_max_block_takes_only_coap_block_sizes :: bool where
  "udp_max_block_takes_only_coap_block_sizes \<longleftrightarrow>
     parse_udp_max_block None = Inr MAX_SZX
     \<and> parse_udp_max_block (Some (ascii ''1024'')) = Inr 6
     \<and> parse_udp_max_block (Some (ascii '' 512 '')) = Inr 5
     \<and> parse_udp_max_block (Some (ascii ''16'')) = Inr 0
     \<and> (\<forall>bad \<in> set [''2048'', ''768'', ''1000'', ''0'', '''', ''512b''].
          err_names (parse_udp_max_block (Some (ascii bad))) ''LOFT_UDP_MAX_BLOCK_BYTES'')"

lemma udp_max_block_takes_only_coap_block_sizes: udp_max_block_takes_only_coap_block_sizes
  by code_simp

text \<open>The scratch directory with the credential file, without it, and with a directory in its place.\<close>

definition scratch_dir :: bytes where "scratch_dir = ascii ''/tmp/loft-config-test''"

definition scratch :: "file_read \<Rightarrow> bytes \<Rightarrow> file_read" where
  "scratch f path =
     (if path = scratch_dir @ ascii ''/COAP_SERVICE_SECRET'' then f else FileNotFound)"

definition credential_file_wins_over_env_var :: bool where
  "credential_file_wins_over_env_var \<longleftrightarrow>
     resolve_service_secret (scratch (Contents (ascii ''from-credential'' @ [10])))
       (Some scratch_dir) (Some (ascii ''from-env'')) = Inr (ascii ''from-credential'')"

lemma credential_file_wins_over_env_var: credential_file_wins_over_env_var
  by code_simp

definition credential_file_trailing_newline_is_trimmed :: bool where
  "credential_file_trailing_newline_is_trimmed \<longleftrightarrow>
     resolve_service_secret (scratch (Contents (ascii ''shhh'' @ [10]))) (Some scratch_dir) None
     = Inr (ascii ''shhh'')"

lemma credential_file_trailing_newline_is_trimmed: credential_file_trailing_newline_is_trimmed
  by code_simp

definition missing_credential_file_falls_back_to_env_var :: bool where
  "missing_credential_file_falls_back_to_env_var \<longleftrightarrow>
     resolve_service_secret (scratch FileNotFound) (Some scratch_dir) (Some (ascii ''from-env''))
     = Inr (ascii ''from-env'')"

lemma missing_credential_file_falls_back_to_env_var: missing_credential_file_falls_back_to_env_var
  by code_simp

definition no_credentials_dir_uses_env_var :: bool where
  "no_credentials_dir_uses_env_var \<longleftrightarrow>
     resolve_service_secret (scratch FileNotFound) None (Some (ascii ''from-env''))
     = Inr (ascii ''from-env'')"

lemma no_credentials_dir_uses_env_var: no_credentials_dir_uses_env_var
  by code_simp

definition neither_source_is_an_error :: bool where
  "neither_source_is_an_error \<longleftrightarrow>
     err_names (resolve_service_secret (scratch FileNotFound) None None) ''COAP_SERVICE_SECRET''"

lemma neither_source_is_an_error: neither_source_is_an_error
  by code_simp

definition credentials_dir_present_but_unreadable_file_is_an_error_not_a_silent_fallback :: bool where
  "credentials_dir_present_but_unreadable_file_is_an_error_not_a_silent_fallback \<longleftrightarrow>
     err_names (resolve_service_secret (scratch (ReadError (ascii ''Is a directory'')))
       (Some scratch_dir) (Some (ascii ''from-env''))) ''COAP_SERVICE_SECRET''"

lemma credentials_dir_present_but_unreadable_file_is_an_error_not_a_silent_fallback:
  credentials_dir_present_but_unreadable_file_is_an_error_not_a_silent_fallback
  by code_simp

section \<open>PSK resolution\<close>

definition psk_of :: "string \<Rightarrow> psk_entry" where
  "psk_of psk = \<lparr>pe_psk = ascii psk, pe_token = ascii ''token-'' @ ascii psk\<rparr>"

text \<open>Two calls of \<open>resolve\<close> for one name, and how often the source was asked.\<close>

definition resolve_twice ::
  "psk_ttls \<times> psk_cache \<Rightarrow> (nat \<Rightarrow> bytes + psk_entry option) \<Rightarrow> string
   \<Rightarrow> (psk_entry option \<times> psk_entry option) \<times> nat" where
  "resolve_twice resolver source name = (case resolver of (ttls, cache) \<Rightarrow>
     (case resolve ttls (\<lambda>_. source 0) 0 (ascii name) cache of (a1, cache1, asked1) \<Rightarrow>
       let hits = (if asked1 then 1 else 0) in
       (case resolve ttls (\<lambda>_. source hits) 0 (ascii name) cache1 of (a2, _, asked2) \<Rightarrow>
         ((a1, a2), hits + (if asked2 then 1 else 0)))))"

definition with_ttls :: "duration \<Rightarrow> duration \<Rightarrow> duration \<Rightarrow> psk_ttls \<times> psk_cache" where
  "with_ttls pos neg grace =
     (\<lparr>positive_ttl = pos, negative_ttl = neg, stale_grace = grace\<rparr>, [])"

definition positive_lookups_are_cached :: bool where
  "positive_lookups_are_cached \<longleftrightarrow>
     resolve_twice (new_psk_resolver (from_secs 60)) (\<lambda>_. Inr (Some (psk_of ''secret1''))) ''pigeon-a''
     = ((Some (psk_of ''secret1''), Some (psk_of ''secret1'')), 1)"

lemma positive_lookups_are_cached: positive_lookups_are_cached
  by code_simp

definition positive_entries_expire :: bool where
  "positive_entries_expire \<longleftrightarrow>
     snd (resolve_twice (with_ttls 0 0 0) (\<lambda>_. Inr (Some (psk_of ''s''))) ''a'') = 2"

lemma positive_entries_expire: positive_entries_expire
  by code_simp

definition negative_lookups_are_cached_briefly :: bool where
  "negative_lookups_are_cached_briefly \<longleftrightarrow>
     resolve_twice (new_psk_resolver (from_secs 60)) (\<lambda>_. Inr None) ''nope'' = ((None, None), 1)"

lemma negative_lookups_are_cached_briefly: negative_lookups_are_cached_briefly
  by code_simp

definition source_error_without_stale_entry_rejects :: bool where
  "source_error_without_stale_entry_rejects \<longleftrightarrow>
     resolve_twice (new_psk_resolver (from_secs 60)) (\<lambda>_. Inl (ascii ''down'')) ''a'' = ((None, None), 2)"

lemma source_error_without_stale_entry_rejects: source_error_without_stale_entry_rejects
  by code_simp

definition source_error_serves_stale_positive_within_grace :: bool where
  "source_error_serves_stale_positive_within_grace \<longleftrightarrow>
     resolve_twice (with_ttls 0 0 (from_secs 300))
       (\<lambda>n. if n = 0 then Inr (Some (psk_of ''orig'')) else Inl (ascii ''down'')) ''a''
     = ((Some (psk_of ''orig''), Some (psk_of ''orig'')), 2)"

lemma source_error_serves_stale_positive_within_grace: source_error_serves_stale_positive_within_grace
  by code_simp

section \<open>The duplicate cache\<close>

definition dedup_replays_within_ttl :: bool where
  "dedup_replays_within_ttl \<longleftrightarrow>
     (let cache = dedup_insert 0 7 [1, 2, 3] new_dedup_cache in
      (case dedup_get 0 7 cache of (hit, cache1) \<Rightarrow>
        hit = Some [1, 2, 3] \<and> fst (dedup_get 0 8 cache1) = None))"

lemma dedup_replays_within_ttl: dedup_replays_within_ttl
  by code_simp

definition dedup_expires :: bool where
  "dedup_expires \<longleftrightarrow>
     fst (dedup_get 0 7 (dedup_insert 0 7 [1] \<lparr>dc_entries = [], dc_ttl = 0, dc_cap = 256\<rparr>)) = None"

lemma dedup_expires: dedup_expires
  by code_simp

definition dedup_evicts_oldest_at_cap :: bool where
  "dedup_evicts_oldest_at_cap \<longleftrightarrow>
     (let c0 = \<lparr>dc_entries = [], dc_ttl = from_secs 150, dc_cap = 2\<rparr>;
          c1 = dedup_insert 0 1 [1] c0;
          c2 = dedup_insert (from_millis 5) 2 [2] c1;
          c3 = dedup_insert (from_millis 10) 3 [3] c2;
          now = from_millis 10 in
      hm_len (dc_entries c3) = 2
      \<and> (case dedup_get now 1 c3 of (a, c4) \<Rightarrow> (case dedup_get now 2 c4 of (b, c5) \<Rightarrow>
           a = None \<and> b \<noteq> None \<and> fst (dedup_get now 3 c5) \<noteq> None)))"

lemma dedup_evicts_oldest_at_cap: dedup_evicts_oldest_at_cap
  by code_simp

section \<open>TLS\<close>

fun split_on :: "u8 \<Rightarrow> bytes \<Rightarrow> bytes list" where
  "split_on c [] = [[]]"
| "split_on c (x # xs) = (case split_on c xs of
     [] \<Rightarrow> [[x]]
   | piece # pieces \<Rightarrow> if x = c then [] # piece # pieces else (x # piece) # pieces)"

definition cipher_list_admits_only_psk_suites :: bool where
  "cipher_list_admits_only_psk_suites \<longleftrightarrow>
     (\<forall>suite \<in> set (split_on 58 PSK_CIPHER_LIST). strip_prefix (ascii ''PSK-'') suite \<noteq> None)"

lemma cipher_list_admits_only_psk_suites: cipher_list_admits_only_psk_suites
  by code_simp

text \<open>The connection has the byte x queued and takes writes.\<close>

definition guarded_tcp_refuses_io_past_deadline :: bool where
  "guarded_tcp_refuses_io_past_deadline \<longleftrightarrow>
     (let guarded = \<lparr>gt_deadline = 0, gt_armed = True\<rparr>;
          queued = (\<lambda>_. Inr (ascii ''x'')); taken = (\<lambda>_. Inr (1 :: nat)) in
      guarded_io 0 guarded queued = Inl TimedOut \<and> guarded_io 0 guarded taken = Inl TimedOut
      \<and> guarded_io 0 (guarded\<lparr>gt_armed := False\<rparr>) queued = Inr (ascii ''x''))"

lemma guarded_tcp_refuses_io_past_deadline: guarded_tcp_refuses_io_past_deadline
  by code_simp

end
