(* ===== verification/Listener_Tests.thy ===== *)
theory Listener_Tests
  imports Dtls Dtls_Mbed "HOL-Library.Code_Target_Numeral"
begin

text \<open>
  The unit tests of \<open>dtls.rs\<close> and \<open>dtls_mbed.rs\<close> run on the model. Those of the transport and of the
  cookie are the tests as they stand (the cookie's for any MAC). Those that start a listener on a
  socket and connect a client are scenarios: the datagrams the listener sees, in order, with what
  the TLS library answers to each as the environment of the round; the assertions are the test's,
  on the connection maps and the replies. The negotiation of cipher suites and the replay window
  are the libraries' own and are left out.
\<close>

section \<open>The transport over OpenSSL\<close>

definition test_io :: "bytes list \<Rightarrow> instant option \<Rightarrow> dgram_io" where
  "test_io queued deadline = \<lparr>io_queue = queued, io_connected = True,
     io_peer = \<lparr>sa_ip = V4 0x7F000001, sa_port = 40000\<rparr>, io_tick = 0, io_deadline = deadline\<rparr>"

definition dgram_io_refuses_reads_past_deadline :: bool where
  "dgram_io_refuses_reads_past_deadline \<longleftrightarrow>
     (case dgram_read 1 16 (test_io [[1, 2, 3]] (Some 0)) of (r, io) \<Rightarrow>
       r = Inl TimedOut
       \<and> fst (dgram_read 1 16 (io\<lparr>io_deadline := None\<rparr>)) = Inr [1, 2, 3])"

lemma dgram_io_refuses_reads_past_deadline: dgram_io_refuses_reads_past_deadline
  by code_simp

definition dgram_io_drops_oversized_datagrams_instead_of_truncating :: bool where
  "dgram_io_drops_oversized_datagrams_instead_of_truncating \<longleftrightarrow>
     (case dgram_read 1 16 (test_io [replicate 32 0xAA, replicate 4 0xBB] None) of (r, io) \<Rightarrow>
       r = Inl WouldBlock \<and> fst (dgram_read 2 16 io) = Inr (replicate 4 0xBB))"

lemma dgram_io_drops_oversized_datagrams_instead_of_truncating:
  dgram_io_drops_oversized_datagrams_instead_of_truncating
  by code_simp

section \<open>The cookie\<close>

definition test_key :: "u8 \<Rightarrow> bytes" where "test_key b = replicate 32 b"

text \<open>\<open>s.parse().expect("socket addr")\<close>, on literals that parse.\<close>

definition addr :: "string \<Rightarrow> socket_addr" where
  "addr s = fst (the (parse_socket_addr (ascii s)))"

definition cookie_round_trips_for_the_same_source :: "signer \<Rightarrow> bool" where
  "cookie_round_trips_for_the_same_source hmac \<longleftrightarrow>
     list_all (\<lambda>peer. case generate_cookie hmac (test_key 7) peer of
         None \<Rightarrow> False
       | Some cookie \<Rightarrow> verify_cookie hmac (test_key 7) peer cookie)
       [addr ''192.0.2.1:5684'', addr ''[2001:db8::1]:5684'']"

lemma verify_cookie_iff: "verify_cookie hmac key peer c \<longleftrightarrow> hmac key (cookie_material peer) = Some c"
  by (auto simp: verify_cookie_def generate_cookie_def split: option.split)

lemma cookie_round_trips_for_the_same_source:
  "(\<And>k m. hmac k m \<noteq> None) \<Longrightarrow> cookie_round_trips_for_the_same_source hmac"
  by (fastforce simp: cookie_round_trips_for_the_same_source_def verify_cookie_iff
      generate_cookie_def split: option.split)

text \<open>Of the MAC: it signs, and the tags compared here differ.\<close>

definition cookie_rejects_a_different_address_port_or_key :: "signer \<Rightarrow> bool" where
  "cookie_rejects_a_different_address_port_or_key hmac \<longleftrightarrow>
     (case generate_cookie hmac (test_key 7) (addr ''192.0.2.1:5684'') of
        None \<Rightarrow> False
      | Some cookie \<Rightarrow>
          \<not> verify_cookie hmac (test_key 7) (addr ''192.0.2.2:5684'') cookie
          \<and> \<not> verify_cookie hmac (test_key 7) (addr ''192.0.2.1:5685'') cookie
          \<and> \<not> verify_cookie hmac (test_key 8) (addr ''192.0.2.1:5684'') cookie)"

lemma test_materials:
  "cookie_material (addr ''192.0.2.1:5684'') = [192, 0, 2, 1, 22, 52]"
  "cookie_material (addr ''192.0.2.2:5684'') = [192, 0, 2, 2, 22, 52]"
  "cookie_material (addr ''192.0.2.1:5685'') = [192, 0, 2, 1, 22, 53]"
  by code_simp+

lemma cookie_rejects_a_different_address_port_or_key:
  assumes "\<And>k m. hmac k m \<noteq> None" and "\<And>k m k' m'. hmac k m = hmac k' m' \<Longrightarrow> k = k' \<and> m = m'"
  shows "cookie_rejects_a_different_address_port_or_key hmac"
proof -
  obtain c where c: "hmac (test_key 7) [192, 0, 2, 1, 22, 52] = Some c" using assms(1) by blast
  have "hmac k m \<noteq> Some c" if "(k, m) \<noteq> (test_key 7, [192, 0, 2, 1, 22, 52])" for k m
    using assms(2) [of k m "test_key 7" "[192, 0, 2, 1, 22, 52]"] c that by auto
  moreover have "test_key 8 \<noteq> test_key 7" by (simp add: test_key_def numeral_eq_Suc)
  ultimately show ?thesis
    using c by (simp add: cookie_rejects_a_different_address_port_or_key_def verify_cookie_iff
        generate_cookie_def test_materials)
qed

definition cookie_rejects_truncation_and_garbage :: "signer \<Rightarrow> bool" where
  "cookie_rejects_truncation_and_garbage hmac \<longleftrightarrow>
     (case generate_cookie hmac (test_key 7) (addr ''192.0.2.1:5684'') of
        None \<Rightarrow> False
      | Some cookie \<Rightarrow>
          \<not> verify_cookie hmac (test_key 7) (addr ''192.0.2.1:5684'') (take (length cookie - 1) cookie)
          \<and> \<not> verify_cookie hmac (test_key 7) (addr ''192.0.2.1:5684'') []
          \<and> \<not> verify_cookie hmac (test_key 7) (addr ''192.0.2.1:5684'') (replicate (length cookie) 0))"

lemma cookie_rejects_truncation_and_garbage:
  assumes "\<And>k m. \<exists>b bs. hmac k m = Some (b # bs) \<and> b # bs \<noteq> replicate (Suc (length bs)) 0"
  shows "cookie_rejects_truncation_and_garbage hmac"
proof -
  obtain b bs where "hmac (test_key 7) (cookie_material (addr ''192.0.2.1:5684'')) = Some (b # bs)"
    "b # bs \<noteq> replicate (Suc (length bs)) 0" using assms by blast
  moreover have "b # bs \<noteq> take (length bs) (b # bs)"
    by (metis length_take length_Cons min.idem min_def n_not_Suc_n Suc_n_not_le_n)
  ultimately show ?thesis
    by (auto simp: cookie_rejects_truncation_and_garbage_def verify_cookie_iff generate_cookie_def)
qed

definition cookie_material_binds_family_address_and_port :: bool where
  "cookie_material_binds_family_address_and_port \<longleftrightarrow>
     (let v4 = cookie_material (addr ''192.0.2.1:5684'');
          mapped = cookie_material (addr ''[::ffff:192.0.2.1]:5684'');
          other_port = cookie_material (addr ''192.0.2.1:5685'') in
      v4 \<noteq> mapped \<and> v4 \<noteq> other_port)"

lemma cookie_material_binds_family_address_and_port: cookie_material_binds_family_address_and_port
  by code_simp

section \<open>The listener over OpenSSL\<close>

text \<open>
  Loopback clients by port. A client's first hello is answered with a cookie, its second verifies:
  two rounds of the listener.
\<close>

definition loopback :: "u16 \<Rightarrow> socket_addr" where
  "loopback port = \<lparr>sa_ip = V4 0x7F000001, sa_port = port\<rparr>"

definition test_quota :: conn_quota where
  "test_quota = \<lparr>max_total = MAX_CONNECTIONS, max_per_ip = MAX_CONNECTIONS_PER_IP\<rparr>"

definition test_round :: "conn_quota \<Rightarrow> bool \<Rightarrow> socket_addr \<Rightarrow> bytes \<Rightarrow> dtls_sys \<Rightarrow> dtls_sys" where
  "test_round q verified source dgram = listen_datagram q
     \<lparr>le_setup_ok = True, le_drained = 1,
      le_listen = Inr (if verified then Accepted None else Retry), le_spawn_ok = True\<rparr> source dgram"

definition test_hello :: bytes where "test_hello = [22, 254, 253, 0, 0]"

definition connect_client :: "conn_quota \<Rightarrow> socket_addr \<Rightarrow> dtls_sys \<Rightarrow> dtls_sys" where
  "connect_client q source s =
     test_round q True source test_hello (test_round q False source test_hello s)"

text \<open>A CoAP ping in an established session, and what is written back.\<close>

definition test_env :: session_env where
  "test_env = \<lparr>sn_now = 0,
     sn_times = \<lparr>at_lookup = 0, at_sweep = 0, at_assemble = 0, at_record = 0\<rparr>,
     sn_table = [], sn_write_ok = True\<rparr>"

definition test_device :: device_session where
  "test_device = \<lparr>ds_pigeon_id = ascii ''test-pigeon'', ds_token = ascii ''test-token'', ds_peer = [],
     ds_conn_id = 1\<rparr>"

definition ping_answer :: "bytes \<Rightarrow> bool \<times> bytes list" where
  "ping_answer ping =
     (case answer_datagram (\<lambda>_. Inl []) MAX_SZX test_device test_env ping (new_dtls_session None 0) of
       (go, s) \<Rightarrow> (go, se_sent s))"

definition openssl_unverified_sources_earn_no_state :: bool where
  "openssl_unverified_sources_earn_no_state \<longleftrightarrow>
     dy_conns (fold (\<lambda>i. test_round test_quota False (loopback (40000 + of_nat i))
       [0x16, 0xFE, 0xFF, 0, of_nat i]) [0..<64] dtls_init) = []"

lemma openssl_unverified_sources_earn_no_state: openssl_unverified_sources_earn_no_state
  by code_simp

definition cookie_verified_handshakes_complete_and_earn_state :: bool where
  "cookie_verified_handshakes_complete_and_earn_state \<longleftrightarrow>
     (let s1 = connect_client test_quota (loopback 40001) dtls_init;
          s2 = test_round test_quota False (loopback 40001) [23, 1] s1;
          s3 = connect_client test_quota (loopback 40002) s2 in
      hm_len (dy_conns s1) = 1
      \<and> dy_chans s2 0 = [[23, 1]]
      \<and> ping_answer [0x40, 0x00, 0x12, 0x34] = (True, [[0x70, 0x00, 0x12, 0x34]])
      \<and> hm_len (dy_conns s3) = 2)"

lemma cookie_verified_handshakes_complete_and_earn_state:
  cookie_verified_handshakes_complete_and_earn_state
  by code_simp

text \<open>On a dual-stack socket a v4 source arrives in its mapped form.\<close>

definition dual_stack_listener_serves_both_families_and_keys_v4_peers_as_v4 :: bool where
  "dual_stack_listener_serves_both_families_and_keys_v4_peers_as_v4 \<longleftrightarrow>
     (let v6_source = \<lparr>sa_ip = V6 1, sa_port = 40002\<rparr>;
          s = connect_client test_quota v6_source
            (connect_client test_quota \<lparr>sa_ip = V6 0xFFFF7F000001, sa_port = 40001\<rparr> dtls_init) in
      hm_len (dy_conns s) = 2 \<and> hm_contains_key (dy_conns s) (loopback 40001)
      \<and> hm_contains_key (dy_conns s) v6_source)"

lemma dual_stack_listener_serves_both_families_and_keys_v4_peers_as_v4:
  dual_stack_listener_serves_both_families_and_keys_v4_peers_as_v4
  by code_simp

definition per_ip_quota_refuses_promotion :: bool where
  "per_ip_quota_refuses_promotion \<longleftrightarrow>
     (let q = test_quota\<lparr>max_per_ip := 1\<rparr>;
          s1 = connect_client q (loopback 40001) dtls_init;
          s2 = connect_client q (loopback 40002) s1 in
      hm_len (dy_conns s1) = 1 \<and> hm_len (dy_conns s2) = 1
      \<and> dy_threads s2 = dy_threads s1)"

lemma per_ip_quota_refuses_promotion: per_ip_quota_refuses_promotion
  by code_simp

section \<open>The listener over mbedTLS\<close>

text \<open>
  The generator draws a new id for each client; the id is set, the hello fed, and its cookie
  verified in the second round. What the session then does to the maps follows, as a step of its
  thread: established with or without a negotiated id, and the first authenticated read.
\<close>

definition test_cid :: "u8 \<Rightarrow> bytes" where "test_cid i = replicate CID_LEN i"

definition mb_round ::
  "handshake_status \<Rightarrow> bool \<Rightarrow> u8 \<Rightarrow> socket_addr \<Rightarrow> bytes \<Rightarrow> mbed_sys \<Rightarrow> mbed_sys" where
  "mb_round status verified draw source dgram s = fst (mb_listen_datagram test_quota
     \<lparr>me_setup_ok = True, me_reset_ok = True, me_draws = [Some (test_cid draw)], me_ids_ok = True,
      me_handshake = status, me_verified = verified, me_spawn_ok = True\<rparr> source dgram s)"

definition mb_connect_client :: "bool \<Rightarrow> u8 \<Rightarrow> socket_addr \<Rightarrow> mbed_sys \<Rightarrow> mbed_sys" where
  "mb_connect_client offer_cid draw source s =
     (let s1 = mb_round HsWantRead True draw source test_hello
            (mb_round HelloVerifyRequired False draw source test_hello s) in
      case mb_threads s1 of
        [] \<Rightarrow> s1
      | t # _ \<Rightarrow> if mt_phase t = MbHandshaking then mb_establish t offer_cid s1 else s1)"

text \<open>A record with a connection id, and without one.\<close>

definition cid_record :: "bytes \<Rightarrow> bytes" where
  "cid_record cid = [25, 0xFE, 0xFD, 0, 1, 0, 0, 0, 0, 0, 0] @ cid @ [0, 8, 1, 2]"

definition plain_record :: bytes where "plain_record = [23, 0xFE, 0xFD, 0, 1, 0, 0]"

definition mbed_unverified_sources_earn_no_state :: bool where
  "mbed_unverified_sources_earn_no_state \<longleftrightarrow>
     (let s1 = fold (\<lambda>i. mb_round (HsFailed (-1)) False 1 (loopback (40000 + of_nat i))
            [0x16, 0xFE, 0xFF, 0, of_nat i]) [0..<64] mbed_init;
          s2 = mb_round HsWantRead True 1 (loopback 41000)
            ([25, 0xFE, 0xFD, 0, 1, 0, 0, 0, 0, 0, 0, 0, 8] @ replicate 8 0xAB) s1;
          s3 = mb_round HsWantRead True 1 (loopback 41000) [25, 0xFE, 0xFD, 0, 1, 0, 0] s2 in
      mb_by_addr s3 = [] \<and> mb_by_cid s3 = [])"

lemma mbed_unverified_sources_earn_no_state: mbed_unverified_sources_earn_no_state
  by code_simp

text \<open>
  The session after a move: the record from the new source, handed to its transport, authenticated
  by mbedTLS as a ping, and where the answer goes.
\<close>

definition ping_after_move :: "sourced list \<Rightarrow> socket_addr \<Rightarrow> bytes \<Rightarrow> (socket_addr \<times> bytes) list" where
  "ping_after_move queued peer ping = ms_out (snd (mb_serve (\<lambda>_. Inl []) MAX_SZX (\<lambda>_. []) True 21600
     [MbRecv 0 0 1400 timer_new, MbReads test_env (RdData (length ping)) ping]
     \<lparr>ms_io = \<lparr>cn_queue = queued, cn_connected = True, cn_committed_peer = peer, cn_staged_peer = peer,
        cn_pending = None, cn_tick = 0, cn_deadline = None\<rparr>,
      ms_dtls = new_dtls_session None 0, ms_dev = test_device, ms_addr_routed = False, ms_out = []\<rparr>))"

definition cid_session_survives :: "socket_addr \<Rightarrow> socket_addr \<Rightarrow> bool" where
  "cid_session_survives source fresh \<longleftrightarrow>
     (let peer = canonical_peer source; fresh_peer = canonical_peer fresh;
          s1 = mb_connect_client True 7 source mbed_init in
      case mb_threads s1 of
        [t] \<Rightarrow>
          let s2 = mb_round HsWantRead False 8 source (cid_record (mt_cid t)) s1;
              s3 = mb_first_read t (s2\<lparr>mb_chans := (mb_chans s2)(mt_chan t := [])\<rparr>);
              s4 = mb_round HsWantRead False 8 fresh (cid_record (mt_cid t)) s3 in
          length (mt_cid t) = CID_LEN
          \<and> mb_chans s2 (mt_chan t) = [(cid_record (mt_cid t), peer)]
          \<and> ping_after_move (mb_chans s2 (mt_chan t)) peer [0x40, 0, 0x12, 0x34]
              = [(peer, [0x70, 0, 0x12, 0x34])]
          \<and> hm_len (mb_by_cid s3) = 1 \<and> mb_by_addr s3 = []
          \<and> mb_chans s4 (mt_chan t) = [(cid_record (mt_cid t), fresh_peer)]
          \<and> ping_after_move (mb_chans s4 (mt_chan t)) peer [0x40, 0, 0x56, 0x78]
              = [(fresh_peer, [0x70, 0, 0x56, 0x78])]
          \<and> hm_len (mb_by_cid s4) = 1 \<and> mb_by_addr s4 = []
      | _ \<Rightarrow> False)"

definition cid_session_survives_source_rebind :: bool where
  "cid_session_survives_source_rebind \<longleftrightarrow> cid_session_survives (loopback 40001) (loopback 40002)"

lemma cid_session_survives_source_rebind: cid_session_survives_source_rebind
  by code_simp

definition cid_session_survives_a_change_of_address_family :: bool where
  "cid_session_survives_a_change_of_address_family \<longleftrightarrow>
     cid_session_survives \<lparr>sa_ip = V6 0xFFFF7F000001, sa_port = 40001\<rparr>
       \<lparr>sa_ip = V6 1, sa_port = 40002\<rparr>"

lemma cid_session_survives_a_change_of_address_family: cid_session_survives_a_change_of_address_family
  by code_simp

definition no_cid_client_is_served_and_stays_address_routed :: bool where
  "no_cid_client_is_served_and_stays_address_routed \<longleftrightarrow>
     (let s1 = mb_connect_client False 7 (loopback 40001) mbed_init;
          s2 = mb_round HsWantRead False 8 (loopback 40001) plain_record s1 in
      mb_chans s2 0 = [(plain_record, loopback 40001)]
      \<and> ping_answer [0x40, 0, 0x22, 0x22] = (True, [[0x70, 0, 0x22, 0x22]])
      \<and> hm_len (mb_by_addr s2) = 1 \<and> mb_by_cid s2 = [])"

lemma no_cid_client_is_served_and_stays_address_routed: no_cid_client_is_served_and_stays_address_routed
  by code_simp

definition reused_source_address_can_rehandshake_past_an_established_session :: bool where
  "reused_source_address_can_rehandshake_past_an_established_session \<longleftrightarrow>
     (let s1 = mb_connect_client False 7 (loopback 40001) mbed_init;
          s2 = mb_connect_client False 8 (loopback 40001) s1;
          s3 = mb_round HsWantRead False 9 (loopback 40001) plain_record s2 in
      map sh_conn_id (map snd (mb_by_addr s1)) = [1]
      \<and> map sh_conn_id (map snd (mb_by_addr s2)) = [2]
      \<and> mb_chans s3 (sh_chan (snd (hd (mb_by_addr s2)))) = [(plain_record, loopback 40001)]
      \<and> hm_len (mb_by_addr s3) = 1)"

lemma reused_source_address_can_rehandshake_past_an_established_session:
  reused_source_address_can_rehandshake_past_an_established_session
  by code_simp

section \<open>The text of a library error\<close>

lemma mbed_error_text_examples:
  "mbed_error_text (\<lambda>_ buf. ascii ''SSL'' @ drop 3 buf) ERR_SSL_TIMEOUT = ascii ''SSL (-0x6800)''"
  "mbed_error_text (\<lambda>_ buf. buf) ERR_NET_SEND_FAILED = ascii ''mbedTLS error -0x004e''"
  by code_simp+

end
