(* ===== verification/Spec2Isabelle.thy ===== *)
theory Spec2Isabelle
  imports Device_Session Device_Migration Udp_Admission Mbed_Context Gateway_Start
    Coap_Tests Handler_Tests Component_Tests Listener_Tests
begin

text \<open>
  \<^bold>\<open>Loft\<close> is a CoAP gateway. Devices (``pigeons'') speak CoAP over DTLS (UDP) or TLS (TCP), authenticated
  by a pre-shared key; the gateway turns each request into an HTTP call to dovecote under the
  device's own bearer token. This library models the gateway as written in \<open>src/loft/src\<close> and the two
  shims over OpenSSL and mbedTLS (\<open>src/dtls-ffi-shim\<close>, \<open>src/mbedtls-ffi-shim\<close>), and proves what makes
  each part correct and what the parts achieve together.

  \<^bold>\<open>The parts and how they interact.\<close> \<open>main.rs\<close> reads the configuration (\<open>config.rs\<close>), then starts a DTLS
  listener (\<open>dtls.rs\<close> on OpenSSL or \<open>dtls_mbed.rs\<close> on mbedTLS), optionally an mbedTLS canary beside it,
  and the TLS listener (\<open>tls_tcp.rs\<close>). A listener admits a source through \<open>quota.rs\<close>, runs a thread per
  connection, and has the handshake's key resolved by \<open>psk.rs\<close> through the callbacks of
  \<open>tls_common.rs\<close> and of the mbedTLS shim. A DTLS connection hands each decrypted datagram to
  \<open>dtls_common.rs\<close>; a TLS connection cuts its stream into frames (\<open>coap/tcp.rs\<close>). Both end in
  \<open>handler.rs\<close>, which routes, reassembles uploads in one table shared by all connections, calls
  dovecote (\<open>upstream.rs\<close>) and cuts downloads into blocks (\<open>coap/block.rs\<close>).

  \<^bold>\<open>Theories\<close>, in the order of their imports.
  \<^item> \<open>Loft_Prelude\<close>: bytes and integers at their width, time, \<open>HashMap\<close> as the locale \<open>hash_table\<close> and its
    model; \<open>Rust_Str\<close>: the parts of \<open>str\<close> the code uses (UTF-8, trimming, parsing of integers).
  \<^item> \<open>Coap_Message\<close>, \<open>Coap_Udp\<close>, \<open>Coap_Tcp\<close>, \<open>Coap_Block\<close>: \<open>coap/message.rs\<close>, \<open>udp.rs\<close>, \<open>tcp.rs\<close>, \<open>block.rs\<close>.
    Round trips of options, datagrams, frames and block values, normal forms of whatever is
    accepted, strictness of the decoders, and (locale \<open>frame_stream\<close>) that an incremental decoder
    sees the same messages however its input is cut.
  \<^item> \<open>Socket_Addr\<close>: the standard library's addresses and its parser of address literals, with their round
    trips. \<open>Listen\<close>: \<open>listen.rs\<close>, the two binds and the canonical peer. \<open>Quota\<close>: \<open>quota.rs\<close>; the locale \<open>admission\<close> is
    its contract, \<open>fair_step\<close> its specification without tables, \<open>keeps_books\<close> what a user of the
    quota must show of each of its steps.
  \<^item> \<open>Psk\<close>: \<open>psk.rs\<close>, one call and the interleaving of concurrent calls. \<open>Upstream\<close>: \<open>upstream.rs\<close>.
  \<^item> \<open>Handler\<close>, \<open>Block1_Reassembly\<close>, \<open>Block2_Transfer\<close>: \<open>handler.rs\<close>: routing and identity, uploads under
    any interleaving, downloads block by block, response sizes and error mapping.
  \<^item> \<open>Dtls_Common\<close>: \<open>dtls_common.rs\<close>; the duplicate cache through the locale \<open>replay_cache\<close>.
    \<open>Dgram_Io\<close>: what both DTLS transports owe their TLS library (locale \<open>datagram_source\<close>,
    interpreted on both) and the answer to one datagram.
  \<^item> \<open>Config\<close>, \<open>Loft_Main\<close>: \<open>config.rs\<close> and the start and wait of \<open>main.rs\<close>.
  \<^item> \<open>Tls_Common\<close>, \<open>Tls_Tcp\<close>: \<open>tls_common.rs\<close> and \<open>tls_tcp.rs\<close>.
  \<^item> \<open>Dtls_Shim\<close>, \<open>Dtls\<close>: \<open>dtls_ffi.rs\<close> (with the life of its \<open>BIO_ADDR\<close>) and \<open>dtls.rs\<close>. The
    listener and its threads, panics included, are the step relation
    \<open>dtls_step\<close>; its invariant (\<open>dtls_inv\<close>) ties map entries, channels and permits to threads.
  \<^item> \<open>Mbed_Shim\<close>, \<open>Dtls_Mbed\<close>: \<open>session.rs\<close>, \<open>config.rs\<close> and \<open>error.rs\<close> of the mbedTLS shim, and
    \<open>dtls_mbed.rs\<close> with the step relation \<open>mbed_step\<close> and the invariant \<open>mb_inv\<close>.
  \<^item> \<open>Device_Upload\<close>, \<open>Device_Identity\<close>, \<open>Udp_Admission\<close>: properties across parts: a Block1 upload from its
    datagrams to its one POST; from dovecote's answer to a lookup, through callback and handshake,
    to the bearer token of every call; and all UDP listeners of a process on one quota, as a
    refinement of fair admission that can always wind down.
  \<^item> \<open>Lossy_Link\<close>, \<open>Device_Download\<close>: the same over a link that loses and repeats datagrams. Copies of a
    request are invisible (\<open>lossy_run\<close>, a simulation between the two runs), so an upload is posted once
    and a firmware download brings the image with one ranged call per block.
  \<^item> \<open>Session_Link\<close>: the session loops of both DTLS listeners do exactly what such a run of datagrams says.
    \<open>Device_Migration\<close>: a device that changed its address, from the listener's socket through the
    connection-id route, the channel and the transport to the reply at its new address.
    \<open>Device_Session\<close>: one device from the resolution of its key to the one HTTP request of its upload.
  \<^item> \<open>Pending_Listen\<close>: the one unverified stream of a UDP listener, as a transport (locale
    \<open>pending_stream\<close>, interpreted on both stacks): no stranger is sent, or read as, another. \<open>Mbed_Context\<close>: the callbacks of
    the mbedTLS shim over a session's context, and that retransmissions are noticed when they are due.
  \<^item> \<open>Gateway_Start\<close>: \<open>main\<close> from its environment to the listeners, and \<open>run\<close>, \<open>run_inner\<close> of each up to its
    loop: what a started process is configured with, when it ends, and that its replies fit the link.
  \<^item> \<open>Coap_Tests\<close>, \<open>Handler_Tests\<close>, \<open>Component_Tests\<close>, \<open>Listener_Tests\<close>: the repository's own unit tests, run on
    the model by the kernel: a definition per test with its requests and assertions, and a lemma that
    it holds. They tie the definitions to the behaviour the authors checked of the code. A test
    that runs a listener on a socket is a scenario of its datagrams and the library's answers.

  \<^bold>\<open>State and operations.\<close> A struct is a record with the source's fields, an enum a datatype; \<open>u8\<close>,
  \<open>u16\<close>, \<open>u32\<close> are words, so shifts and additions wrap as in a release build; \<open>usize\<close> and \<open>u64\<close> counts
  are natural numbers, which the bounds proved keep far below their width. A \<open>HashMap\<close> is the list of its
  entries in iteration order, a mutex-protected table a value passed to and returned by each critical
  section. Instants are natural numbers of nanoseconds; subtraction saturates, as
  \<open>Instant::duration_since\<close> does. What a thread, a library or the network does between two steps of
  the code is an explicit argument: lists of events for a handshake, a read loop or a table's other
  users, and a record of outcomes (\<open>listen_env\<close>, \<open>mbed_env\<close>) for a round of a listener.

  \<^bold>\<open>Libraries.\<close> OpenSSL, mbedTLS, the HTTP clients, the random generator and the operating system are
  parameters: the result of \<open>DTLSv1_listen\<close>, of a handshake call, of an HTTP exchange, the draws of
  the generator. What is relied on is stated where it is used: that \<open>DTLSv1_listen\<close> reads the
  datagram it was given, that an upstream honours the range it is asked for, that it serves one image.
  TLS itself (that a completed handshake proves the key) is not modelled.

  \<^bold>\<open>Loops.\<close> Every loop over input is a total function: the frame loop ends because each frame consumes
  bytes of the buffer, the option loop because each option does. Loops over the outside world run
  over the list of what it does, so nothing is hidden in fuel; the search for a connection id runs over
  the generator's draws and is shown to end one draw after the quota's worth of different ones.

  \<^bold>\<open>Not modelled.\<close> Log lines, the tokio runtime (a handler call is one
  step between its critical sections), thread names, the foreign declarations and the C glue of the
  shims (they only forward to the libraries), the tests of what a library does (suite negotiation, the
  replay window, the shims against the real libraries), the network harness, and deployment files.
  What is left of the modelled files is imports, trait and handle types without behaviour, thin calls
  into a library whose answer is discarded, and the clients of those tests.
  The threads of both DTLS listeners may panic at any point of a session (mbedTLS's is caught, OpenSSL's
  strands its map entry); a panic of a listener thread, or one that poisons a mutex, is not modelled.
\<close>

end
